(* ===== verification/Prelude.thy ===== *)
theory Prelude
  imports Main "HOL-Library.Word" "HOL-Library.Sublist" "HOL-Library.Char_ord"
    "HOL-Library.List_Lexorder"
begin

text \<open>
  What every component shares: the names of Rust's fixed-width integers and byte vectors,
  saturating arithmetic on them, decimal printing (\<open>to_string\<close>) and parsing
  (\<open>parse::<u64>\<close>), and the generic facts on lists the components use. A Rust
  \<open>String\<close> is a \<^typ>\<open>string\<close>, the list of its UTF-8 bytes, so \<open>length\<close> is
  \<open>len()\<close> and the order is Rust's (bytewise); a \<open>Vec<u8>\<close> is a list of
  8-bit words.
\<close>

subsection \<open>Machine integers\<close>

type_synonym u8 = "8 word"
type_synonym u16 = "16 word"
type_synonym u32 = "32 word"
type_synonym u64 = "64 word"
type_synonym i64 = "64 word"
type_synonym usize = "32 word"
type_synonym bytes = "u8 list"

text \<open>Rule collections: what a step emits, what it keeps, what it returns.\<close>

named_theorems quiet_intros \<open>which operations emit only effects of a given class\<close>
named_theorems keeps_intros \<open>which operations keep a state invariant\<close>
named_theorems prog_simps \<open>how the basic operations run\<close>

text \<open>\<open>saturating_sub\<close> on unsigned words: never below zero.\<close>

definition saturating_sub :: "'a::len word \<Rightarrow> 'a word \<Rightarrow> 'a word" where
  "saturating_sub a b = (if a \<le> b then 0 else a - b)"

lemma unat_saturating_sub [simp]: "unat (saturating_sub a b) = unat a - unat b"
  by (auto simp: saturating_sub_def unat_sub word_le_nat_alt)

text \<open>\<open>saturating_add\<close> on unsigned words: never past the largest.\<close>

definition saturating_add :: "'a::len word \<Rightarrow> 'a word \<Rightarrow> 'a word" where
  "saturating_add a b = (if a + b < a then - 1 else a + b)"

lemma unat_saturating_add:
  "unat (saturating_add a (b::'a::len word)) = min (unat a + unat b) (2 ^ LENGTH('a) - 1)"
proof -
  let ?N = "2 ^ LENGTH('a) :: nat"
  have a: "unat a < ?N" and b: "unat b < ?N" by (rule unsigned_less)+
  have wrap: "unat (a + b) = (unat a + unat b) mod ?N" by (rule unat_word_ariths)
  show ?thesis
  proof (cases "unat a + unat b < ?N")
    case True
    then have sum: "unat (a + b) = unat a + unat b" using wrap by (simp only: mod_less)
    then have "\<not> a + b < a" unfolding word_less_nat_alt by linarith
    then have "saturating_add a b = a + b" by (simp only: saturating_add_def if_False)
    moreover have "min (unat a + unat b) (?N - 1) = unat a + unat b" using True by linarith
    ultimately show ?thesis using sum by (simp only:)
  next
    case False
    moreover have "unat a + unat b - ?N < ?N" using a b by linarith
    ultimately have "(unat a + unat b) mod ?N = unat a + unat b - ?N"
      by (metis le_mod_geq mod_less not_less)
    then have "unat (a + b) < unat a" using False b wrap by linarith
    then have "saturating_add a b = - 1"
      by (simp only: saturating_add_def word_less_nat_alt if_True)
    moreover have "unat (- 1 :: 'a word) = ?N - 1" by (simp only: unsigned_minus_1_eq_mask mask_eq_exp_minus_1)
    moreover have "min (unat a + unat b) (?N - 1) = ?N - 1" using False by linarith
    ultimately show ?thesis by (simp only:)
  qed
qed

subsection \<open>Decimal text\<close>

text \<open>\<open>to_string\<close> of an unsigned integer.\<close>

fun dec_nat :: "nat \<Rightarrow> string" where
  "dec_nat n = (if n < 10 then [char_of (48 + n)] else dec_nat (n div 10) @ [char_of (48 + n mod 10)])"

declare dec_nat.simps [simp del]

definition dec_u64 :: "u64 \<Rightarrow> string" where
  "dec_u64 w = dec_nat (unat w)"

text \<open>\<open>to_string\<close> of a signed integer.\<close>

definition dec_int :: "int \<Rightarrow> string" where
  "dec_int i = (if i < 0 then CHR ''-'' # dec_nat (nat (- i)) else dec_nat (nat i))"

definition digits_value :: "string \<Rightarrow> nat" where
  "digits_value s = foldl (\<lambda>a c. a * 10 + (of_char c - 48)) 0 s"

definition is_digit :: "char \<Rightarrow> bool" where
  "is_digit c = (48 \<le> (of_char c :: nat) \<and> (of_char c :: nat) \<le> 57)"

lemma dec_nat_value: "digits_value (dec_nat n) = n"
proof (induction n rule: dec_nat.induct)
  case (1 n)
  then show ?case
    by (cases "n < 10") (simp_all add: dec_nat.simps [of n] digits_value_def of_char_of)
qed

lemma dec_nat_digits: "list_all is_digit (dec_nat n)"
proof (induction n rule: dec_nat.induct)
  case (1 n)
  have "n mod 10 < 10" by simp
  with 1 show ?case
    by (cases "n < 10") (simp_all add: dec_nat.simps [of n] is_digit_def of_char_of)
qed

lemma dec_nat_nonempty [simp]: "dec_nat n \<noteq> []"
  by (subst dec_nat.simps) simp

lemma dec_nat_inject [simp]: "dec_nat m = dec_nat n \<longleftrightarrow> m = n"
  by (metis dec_nat_value)

lemma dec_u64_inject [simp]: "dec_u64 a = dec_u64 b \<longleftrightarrow> a = b"
  by (simp add: dec_u64_def word_unat_eq_iff)

lemma dec_nat_not_in: "\<not> is_digit c \<Longrightarrow> c \<notin> set (dec_nat n)"
  using dec_nat_digits [of n] by (auto simp: list_all_iff)

text \<open>
  \<open>str::parse::<u64>\<close>: an optional plus sign, at least one digit and nothing else, and
  no overflow.
\<close>

definition strip_plus :: "string \<Rightarrow> string" where
  "strip_plus s = (if s \<noteq> [] \<and> hd s = CHR ''+'' then tl s else s)"

definition parse_u64 :: "string \<Rightarrow> u64 option" where
  "parse_u64 s =
     (let ds = strip_plus s
      in if ds \<noteq> [] \<and> list_all is_digit ds \<and> digits_value ds < 2 ^ 64
         then Some (of_nat (digits_value ds)) else None)"

lemma parse_dec_u64: "parse_u64 (dec_u64 w) = Some w"
proof -
  obtain c t where ct: "dec_nat (unat w) = c # t"
    by (cases "dec_nat (unat w)") simp_all
  then have "c \<noteq> CHR ''+''"
    using dec_nat_digits [of "unat w"] by (auto simp: is_digit_def)
  then have "strip_plus (dec_nat (unat w)) = dec_nat (unat w)"
    by (simp add: ct strip_plus_def)
  moreover have "unat w < 2 ^ 64" using unsigned_less [of w] by simp
  ultimately show ?thesis
    by (simp add: parse_u64_def dec_u64_def dec_nat_value dec_nat_digits Let_def del: One_nat_def)
qed

text \<open>Two-digit uppercase hexadecimal, \<open>{b:02X}\<close>, and lowercase, \<open>{b:02x}\<close>.\<close>

definition hex_digit :: "nat \<Rightarrow> nat \<Rightarrow> char" where
  "hex_digit base d = (if d < 10 then char_of (48 + d) else char_of (base + (d - 10)))"

definition hex_byte_upper :: "u8 \<Rightarrow> string" where
  "hex_byte_upper b = [hex_digit 65 (unat b div 16), hex_digit 65 (unat b mod 16)]"

definition hex_byte_lower :: "u8 \<Rightarrow> string" where
  "hex_byte_lower b = [hex_digit 97 (unat b div 16), hex_digit 97 (unat b mod 16)]"

subsection \<open>Text and bytes\<close>

definition crlf :: string where
  "crlf = [CHR 0x0D, CHR 0x0A]"

definition str_bytes :: "string \<Rightarrow> bytes" where
  "str_bytes s = map (\<lambda>c. of_nat (of_char c)) s"

definition bytes_str :: "bytes \<Rightarrow> string" where
  "bytes_str bs = map (\<lambda>b. char_of (unat b)) bs"

lemma bytes_str_str_bytes [simp]: "bytes_str (str_bytes s) = s"
proof -
  have "(of_char c :: nat) < 2 ^ 8" for c :: char by simp
  then have "char_of (unat (of_nat (of_char c) :: u8)) = c" for c :: char
    by (simp add: unat_of_nat take_bit_eq_mod)
  then show ?thesis by (simp add: bytes_str_def str_bytes_def o_def)
qed

lemma str_bytes_inject [simp]: "str_bytes s = str_bytes t \<longleftrightarrow> s = t"
  by (metis bytes_str_str_bytes)

lemma length_str_bytes [simp]: "length (str_bytes s) = length s"
  by (simp add: str_bytes_def)

lemma length_bytes_str [simp]: "length (bytes_str b) = length b"
  by (simp add: bytes_str_def)

subsection \<open>Guarded sequences\<close>

text \<open>
  \<open>guarded P Q seen xs\<close>: in \<open>xs\<close>, nothing with \<open>P\<close> comes before something
  with \<open>Q\<close> has (\<open>seen\<close> says whether one already has). The ordering properties of
  the run loop are of this form.
\<close>

fun guarded :: "('a \<Rightarrow> bool) \<Rightarrow> ('a \<Rightarrow> bool) \<Rightarrow> bool \<Rightarrow> 'a list \<Rightarrow> bool" where
  "guarded P Q seen [] = True"
| "guarded P Q seen (x # xs) = ((P x \<longrightarrow> seen) \<and> guarded P Q (seen \<or> Q x) xs)"

lemma guarded_append [simp]:
  "guarded P Q seen (xs @ ys) \<longleftrightarrow>
     guarded P Q seen xs \<and> guarded P Q (seen \<or> (\<exists>x \<in> set xs. Q x)) ys"
  by (induction xs arbitrary: seen) (auto simp: disj_assoc)

lemma guarded_quiet: "(\<And>x. x \<in> set xs \<Longrightarrow> \<not> P x) \<Longrightarrow> guarded P Q seen xs"
  by (induction xs arbitrary: seen) auto

lemma guarded_seen: "guarded P Q True xs"
  by (induction xs) auto

lemma guarded_mono: "guarded P Q a xs \<Longrightarrow> (a \<Longrightarrow> b) \<Longrightarrow> guarded P Q b xs"
proof (induction xs arbitrary: a b)
  case (Cons x xs)
  then show ?case using Cons.IH [of "a \<or> Q x" "b \<or> Q x"] by simp blast
qed simp

lemma guarded_weaken: "guarded P Q False xs \<Longrightarrow> guarded P Q seen xs"
  by (cases seen) (auto simp: guarded_seen)

lemma guarded_precedes:
  assumes "guarded P Q False (xs @ x # ys)" and "P x"
  shows "\<exists>y \<in> set xs. Q y"
  using assms by auto

subsection \<open>What every operation keeps\<close>

text \<open>
  A component whose operations are the steps of a machine, each of which keeps an invariant:
  then so does every sequence of them, in any order.
\<close>

locale preserved =
  fixes step :: "'op \<Rightarrow> 's \<Rightarrow> 's"
    and inv :: "'s \<Rightarrow> bool"
  assumes step_inv: "inv s \<Longrightarrow> inv (step op s)"
begin

lemma run_inv: "inv s \<Longrightarrow> inv (fold step ops s)"
  by (induction ops arbitrary: s) (simp_all add: step_inv)

end

end
