(* ===== verification/Errors.thy ===== *)
theory Errors
  imports Prelude
begin

text \<open>
  \<open>src/error.rs\<close>: the crate's error type, its constructors in the order the source has
  them, and the text it displays as, which is the reason NervesHub records with a failed update.
\<close>

datatype error =
    Error_Transport string
  | Error_Protocol string
  | Error_JoinRefused string
  | Error_Metadata string
  | Error_Identity string
  | Error_Download string
  | Error_DownloadStatus (err_status: u16) (err_retry_after_secs: "u64 option")
  | Error_Ota string
  | Error_ChecksumMismatch (err_expected: string) (err_actual: string)
  | Error_Console string

text \<open>\<open>impl From<core::fmt::Error> for Error\<close>.\<close>

definition error_from_fmt :: error where
  "error_from_fmt = Error_Console ''could not format output''"

text \<open>
  The serde errors of the three codecs become protocol errors that carry the library's text.
\<close>

definition error_from_serde :: "string \<Rightarrow> error" where
  "error_from_serde text = Error_Protocol text"

fun display_error :: "error \<Rightarrow> string" where
  "display_error (Error_Transport msg) = ''transport error: '' @ msg"
| "display_error (Error_Protocol msg) = ''protocol error: '' @ msg"
| "display_error (Error_JoinRefused msg) = ''join refused: '' @ msg"
| "display_error (Error_Metadata msg) = ''could not read firmware metadata: '' @ msg"
| "display_error (Error_Identity msg) = ''device identity unavailable: '' @ msg"
| "display_error (Error_Download msg) = ''download failed: '' @ msg"
| "display_error (Error_DownloadStatus status _) =
     ''download failed: firmware download returned HTTP '' @ dec_nat (unat status)"
| "display_error (Error_Ota msg) = ''ota failed: '' @ msg"
| "display_error (Error_ChecksumMismatch expected actual) =
     ''checksum mismatch: expected '' @ expected @ '', got '' @ actual"
| "display_error (Error_Console msg) = msg"

text \<open>The same text as \<open>write!\<close> hands it to a formatter, a piece at a time.\<close>

fun display_pieces :: "error \<Rightarrow> string list" where
  "display_pieces (Error_Transport msg) = [''transport error: '', msg]"
| "display_pieces (Error_Protocol msg) = [''protocol error: '', msg]"
| "display_pieces (Error_JoinRefused msg) = [''join refused: '', msg]"
| "display_pieces (Error_Metadata msg) = [''could not read firmware metadata: '', msg]"
| "display_pieces (Error_Identity msg) = [''device identity unavailable: '', msg]"
| "display_pieces (Error_Download msg) = [''download failed: '', msg]"
| "display_pieces (Error_DownloadStatus status _) =
     [''download failed: firmware download returned HTTP '', dec_nat (unat status)]"
| "display_pieces (Error_Ota msg) = [''ota failed: '', msg]"
| "display_pieces (Error_ChecksumMismatch expected actual) =
     [''checksum mismatch: expected '', expected, '', got '', actual]"
| "display_pieces (Error_Console msg) = [msg]"

lemma display_pieces_concat: "concat (display_pieces e) = display_error e"
  by (cases e) simp_all

definition status_reason :: "error \<Rightarrow> string" where
  "status_reason e = display_error e"

definition is_transport :: "error \<Rightarrow> bool" where
  "is_transport e = (case e of Error_Transport _ \<Rightarrow> True | _ \<Rightarrow> False)"

definition is_identity :: "error \<Rightarrow> bool" where
  "is_identity e = (case e of Error_Identity _ \<Rightarrow> True | _ \<Rightarrow> False)"

lemma is_transport_simps [simp]:
  "is_transport (Error_Transport m)" "\<not> is_transport (Error_Protocol m)"
  "\<not> is_transport (Error_JoinRefused m)" "\<not> is_transport (Error_Ota m)"
  "\<not> is_transport (Error_Identity m)" "\<not> is_transport (Error_Download m)"
  by (simp_all add: is_transport_def)

lemma is_identity_simps [simp]:
  "is_identity (Error_Identity m)" "\<not> is_identity (Error_Transport m)"
  by (simp_all add: is_identity_def)

end
