(* ===== verification/Prog.thy ===== *)
theory Prog
  imports Errors
begin

text \<open>
  How the code's functions run. A Rust function that takes \<open>&mut\<close> state and returns
  \<open>Result<a, Error>\<close> is a \<open>prog\<close>: a function from the state to \<open>None\<close> when
  it does not return, or to its result, \<open>Inl\<close> an error or \<open>Inr\<close> a value, with the
  state it leaves. \<open>andthen\<close> is the \<open>?\<close> operator followed by the rest of the
  function, \<open>attempt\<close> a \<open>match\<close> on the result, \<open>iterate\<close> Rust's
  \<open>loop\<close>: its body is given the loop's local variables, and says \<open>Inl\<close> with their new
  values to go round again and \<open>Inr\<close> to leave.
\<close>

type_synonym ('s, 'a) prog = "'s \<Rightarrow> ((error + 'a) \<times> 's) option"

definition ok :: "'a \<Rightarrow> ('s, 'a) prog" where
  "ok a = (\<lambda>s. Some (Inr a, s))"

definition fail :: "error \<Rightarrow> ('s, 'a) prog" where
  "fail e = (\<lambda>s. Some (Inl e, s))"

definition andthen :: "('s, 'a) prog \<Rightarrow> ('a \<Rightarrow> ('s, 'b) prog) \<Rightarrow> ('s, 'b) prog" where
  "andthen m f = (\<lambda>s. case m s of
      None \<Rightarrow> None
    | Some (r, s') \<Rightarrow> (case r of Inl e \<Rightarrow> Some (Inl e, s') | Inr a \<Rightarrow> f a s'))"

definition attempt :: "('s, 'a) prog \<Rightarrow> ('s, error + 'a) prog" where
  "attempt m = (\<lambda>s. case m s of None \<Rightarrow> None | Some (r, s') \<Rightarrow> Some (Inr r, s'))"

definition result :: "error + 'a \<Rightarrow> ('s, 'a) prog" where
  "result r = (\<lambda>s. Some (r, s))"

definition gets :: "('s \<Rightarrow> 'a) \<Rightarrow> ('s, 'a) prog" where
  "gets f = (\<lambda>s. Some (Inr (f s), s))"

definition modify :: "('s \<Rightarrow> 's) \<Rightarrow> ('s, unit) prog" where
  "modify f = (\<lambda>s. Some (Inr (), f s))"

definition only_if :: "bool \<Rightarrow> ('s, unit) prog \<Rightarrow> ('s, unit) prog" where
  "only_if c m = (if c then m else ok ())"

primrec for_each :: "'a list \<Rightarrow> ('a \<Rightarrow> ('s, unit) prog) \<Rightarrow> ('s, unit) prog" where
  "for_each [] f = ok ()"
| "for_each (x # xs) f = andthen (f x) (\<lambda>_. for_each xs f)"

partial_function (option) iterate ::
    "('l \<Rightarrow> ('s, 'l + 'a) prog) \<Rightarrow> 'l \<Rightarrow> ('s, 'a) prog" where
  "iterate body l s = (case body l s of
      None \<Rightarrow> None
    | Some (r, s') \<Rightarrow> (case r of
          Inl e \<Rightarrow> Some (Inl e, s')
        | Inr out \<Rightarrow> (case out of Inl l' \<Rightarrow> iterate body l' s' | Inr a \<Rightarrow> Some (Inr a, s'))))"

subsection \<open>How the combinators run\<close>

lemma prog_run [prog_simps]:
  "ok a s = Some (Inr a, s)"
  "fail e s = Some (Inl e, s)"
  "result r s = Some (r, s)"
  "gets f s = Some (Inr (f s), s)"
  "modify g s = Some (Inr (), g s)"
  by (simp_all add: ok_def fail_def result_def gets_def modify_def)

lemma andthen_run:
  "andthen m f s = (case m s of None \<Rightarrow> None
     | Some (Inl e, s') \<Rightarrow> Some (Inl e, s') | Some (Inr a, s') \<Rightarrow> f a s')"
  by (auto simp: andthen_def split: option.splits sum.splits)

lemma andthen_simps [simp]:
  "andthen (ok a) f = f a"
  "andthen (fail e) f = fail e"
  "andthen (andthen m g) f = andthen m (\<lambda>x. andthen (g x) f)"
  by (auto simp: fun_eq_iff andthen_def ok_def fail_def split: option.splits sum.splits)

lemma andthen_gets [prog_simps]: "andthen (gets f) g s = g (f s) s"
  by (simp add: andthen_def gets_def)

lemma andthen_modify [prog_simps]: "andthen (modify f) g s = g () (f s)"
  by (simp add: andthen_def modify_def)

lemma andthen_result [prog_simps]:
  "andthen (result (Inr a)) f s = f a s" "andthen (result (Inl e)) f s = Some (Inl e, s)"
  by (simp_all add: andthen_def result_def)

lemma andthen_cong [fundef_cong]:
  assumes "m s = m' s'" and "s = s'" and "\<And>a t. m' s' = Some (Inr a, t) \<Longrightarrow> f a t = f' a t"
  shows "andthen m f s = andthen m' f' s'"
  using assms by (auto simp: andthen_def split: option.splits sum.splits)

lemma andthen_Some:
  "andthen m f s = Some (r, t) \<longleftrightarrow>
     (\<exists>e. m s = Some (Inl e, t) \<and> r = Inl e) \<or> (\<exists>a u. m s = Some (Inr a, u) \<and> f a u = Some (r, t))"
  by (auto simp: andthen_def split: option.splits sum.splits)

lemma andthen_Inr:
  "andthen m f s = Some (Inr b, t) \<longleftrightarrow> (\<exists>a u. m s = Some (Inr a, u) \<and> f a u = Some (Inr b, t))"
  by (auto simp: andthen_Some)

lemma attempt_Some: "attempt m s = Some (r, t) \<longleftrightarrow> (\<exists>r'. m s = Some (r', t) \<and> r = Inr r')"
  by (auto simp: attempt_def split: option.splits)

lemma andthen_attempt [prog_simps]:
  "andthen (attempt m) f s = (case m s of None \<Rightarrow> None | Some (r, t) \<Rightarrow> f r t)"
  by (auto simp: andthen_def attempt_def split: option.splits)

lemma only_if_simps [simp]: "only_if True m = m" "only_if False m = ok ()"
  by (simp_all add: only_if_def)

subsection \<open>Every run stays in a relation\<close>

text \<open>
  \<open>stays R m\<close>: however \<open>m\<close> ends, the state it leaves is related by \<open>R\<close> to the
  one it started in. For a reflexive, transitive \<open>R\<close> this is closed under the
  combinators, the loop included, so it is proved once per basic operation and lifted.
\<close>

definition stays :: "('s \<Rightarrow> 's \<Rightarrow> bool) \<Rightarrow> ('s, 'a) prog \<Rightarrow> bool" where
  "stays R m = (\<forall>s r t. m s = Some (r, t) \<longrightarrow> R s t)"

lemma staysI: "(\<And>s r t. m s = Some (r, t) \<Longrightarrow> R s t) \<Longrightarrow> stays R m"
  by (simp add: stays_def)

lemma staysD: "stays R m \<Longrightarrow> m s = Some (r, t) \<Longrightarrow> R s t"
  by (simp add: stays_def)

lemma iterate_induct [consumes 1, case_names again leave error]:
  fixes body :: "'l \<Rightarrow> ('s, 'l + 'a) prog"
  assumes run: "iterate body l s = Some (r, t)"
    and again: "\<And>l s l' u r t. body l s = Some (Inr (Inl l'), u) \<Longrightarrow> iterate body l' u = Some (r, t) \<Longrightarrow>
      Q l' u r t \<Longrightarrow> Q l s r t"
    and leave: "\<And>l s a t. body l s = Some (Inr (Inr a), t) \<Longrightarrow> Q l s (Inr a) t"
    and error: "\<And>l s e t. body l s = Some (Inl e, t) \<Longrightarrow> Q l s (Inl e) t"
  shows "Q l s r t"
proof -
  have "iterate body l s = Some rt \<and> (\<forall>r t. rt = (r, t) \<longrightarrow> Q l s r t)"
    if "iterate body l s = Some rt" for l s rt
  proof (rule iterate.raw_induct [where P = "\<lambda>b l s rt. b = body \<longrightarrow>
          (iterate body l s = Some rt \<and> (\<forall>r t. rt = (r, t) \<longrightarrow> Q l s r t))", OF _ that,
          THEN mp, OF _ refl])
    fix f :: "('l \<Rightarrow> ('s, 'l + 'a) prog) \<Rightarrow> 'l \<Rightarrow> ('s, 'a) prog" and b l s rt
    assume IH: "\<And>b l s rt. f b l s = Some rt \<Longrightarrow> b = body \<longrightarrow>
          (iterate body l s = Some rt \<and> (\<forall>r t. rt = (r, t) \<longrightarrow> Q l s r t))"
      and eq: "(case b l s of None \<Rightarrow> None
        | Some (r, s') \<Rightarrow> (case r of Inl e \<Rightarrow> Some (Inl e, s')
          | Inr out \<Rightarrow> (case out of Inl l' \<Rightarrow> f b l' s' | Inr a \<Rightarrow> Some (Inr a, s')))) = Some rt"
    show "b = body \<longrightarrow> (iterate body l s = Some rt \<and> (\<forall>r t. rt = (r, t) \<longrightarrow> Q l s r t))"
    proof
      assume b: "b = body"
      obtain r' s' where run: "body l s = Some (r', s')" using eq b by (cases "body l s") auto
      show "iterate body l s = Some rt \<and> (\<forall>r t. rt = (r, t) \<longrightarrow> Q l s r t)"
      proof (cases r')
        case (Inl e)
        then show ?thesis using eq b run error by (subst iterate.simps) auto
      next
        case (Inr out)
        show ?thesis
        proof (cases out)
          case (Inr a)
          then show ?thesis using eq b run \<open>r' = Inr out\<close> leave by (subst iterate.simps) auto
        next
          case (Inl l')
          then have "f b l' s' = Some rt" using eq b run \<open>r' = Inr out\<close> by simp
          from IH [OF this] b have ih: "iterate body l' s' = Some rt" "\<forall>r t. rt = (r, t) \<longrightarrow> Q l' s' r t"
            by simp_all
          have turn: "body l s = Some (Inr (Inl l'), s')" using run Inl \<open>r' = Inr out\<close> by simp
          have "iterate body l s = Some rt" using ih(1) turn by (subst iterate.simps) simp
          moreover have "Q l s r t" if "rt = (r, t)" for r t
            using again [OF turn, of r t] ih that by simp
          ultimately show ?thesis by blast
        qed
      qed
    qed
  qed
  with run show ?thesis by blast
qed

locale run_relation =
  fixes R :: "'s \<Rightarrow> 's \<Rightarrow> bool"
  assumes rel_refl: "R s s"
    and rel_trans: "R s t \<Longrightarrow> R t u \<Longrightarrow> R s u"
begin

lemma stays_ok: "stays R (ok a)"
  by (simp add: stays_def ok_def rel_refl)

lemma stays_fail: "stays R (fail e)"
  by (simp add: stays_def fail_def rel_refl)

lemma stays_result: "stays R (result r)"
  by (simp add: stays_def result_def rel_refl)

lemma stays_gets: "stays R (gets f)"
  by (simp add: stays_def gets_def rel_refl)

lemma stays_andthen: "stays R m \<Longrightarrow> (\<And>a. stays R (f a)) \<Longrightarrow> stays R (andthen m f)"
  unfolding stays_def andthen_Some by (blast intro: rel_trans)

lemma stays_attempt: "stays R m \<Longrightarrow> stays R (attempt m)"
  by (auto simp: stays_def attempt_Some)

lemma stays_only_if: "(c \<Longrightarrow> stays R m) \<Longrightarrow> stays R (only_if c m)"
  by (cases c) (simp_all add: stays_ok)

lemma stays_for_each: "(\<And>x. x \<in> set xs \<Longrightarrow> stays R (f x)) \<Longrightarrow> stays R (for_each xs f)"
  by (induction xs) (auto intro: stays_ok stays_andthen)

lemma stays_iterate:
  assumes "\<And>l. stays R (body l)"
  shows "stays R (iterate body l)"
proof (rule staysI)
  fix s r t
  assume "iterate body l s = Some (r, t)"
  then show "R s t"
    by (induction rule: iterate_induct) (use assms in \<open>auto dest: staysD intro: rel_trans\<close>)
qed

lemmas stays_rules = stays_ok stays_fail stays_result stays_gets stays_andthen stays_attempt
  stays_only_if stays_for_each stays_iterate

end

subsection \<open>Loop heads, and when a loop returns\<close>

text \<open>
  The local variables and states a loop's body starts in, for what holds at every turn even of a
  loop that never ends.
\<close>

inductive loop_head :: "('l \<Rightarrow> ('s, 'l + 'a) prog) \<Rightarrow> 'l \<Rightarrow> 's \<Rightarrow> 'l \<Rightarrow> 's \<Rightarrow> bool"
  for body l s where
  head_start: "loop_head body l s l s"
| head_again: "loop_head body l s k t \<Longrightarrow> body k t = Some (Inr (Inl k'), u) \<Longrightarrow> loop_head body l s k' u"

inductive_cases loop_headE: "loop_head body l s k t"

lemma loop_head_invariant:
  assumes "loop_head body l s k t" and "I l s"
    and "\<And>k t k' u. I k t \<Longrightarrow> body k t = Some (Inr (Inl k'), u) \<Longrightarrow> I k' u"
  shows "I k t"
  using assms by (induction rule: loop_head.induct) blast+

lemma iterate_returns:
  assumes "I l s"
    and "\<And>l s. I l s \<Longrightarrow> body l s \<noteq> None"
    and "\<And>l s l' t. I l s \<Longrightarrow> body l s = Some (Inr (Inl l'), t) \<Longrightarrow> I l' t \<and> (\<mu> l' t :: nat) < \<mu> l s"
  shows "iterate body l s \<noteq> None"
  using assms(1)
proof (induction "\<mu> l s" arbitrary: l s rule: less_induct)
  case less
  show ?case
    using assms(2) [OF less.prems] assms(3) [OF less.prems] less.hyps
    by (subst iterate.simps) (auto split: option.splits sum.splits)
qed

text \<open>Programs that always return.\<close>

definition returns :: "('s, 'a) prog \<Rightarrow> bool" where
  "returns m \<longleftrightarrow> (\<forall>s. m s \<noteq> None)"

lemma returns_basic:
  "returns (ok a)" "returns (fail e)" "returns (result r)" "returns (gets f)" "returns (modify g)"
  by (simp_all add: returns_def prog_run)

lemma returns_andthen: "returns m \<Longrightarrow> (\<And>a. returns (f a)) \<Longrightarrow> returns (andthen m f)"
  by (auto simp: returns_def andthen_def split: option.split sum.split)

lemma returns_attempt: "returns m \<Longrightarrow> returns (attempt m)"
  by (auto simp: returns_def attempt_def split: option.split)

lemma returns_only_if: "(c \<Longrightarrow> returns m) \<Longrightarrow> returns (only_if c m)"
  by (cases c) (simp_all add: returns_basic)

lemma returns_for_each: "(\<And>x. x \<in> set xs \<Longrightarrow> returns (f x)) \<Longrightarrow> returns (for_each xs f)"
  by (induction xs) (auto intro: returns_basic returns_andthen)

lemmas returns_rules = returns_basic returns_andthen returns_attempt returns_only_if returns_for_each

subsection \<open>What a program establishes\<close>

text \<open>
  \<open>runs P m Q E\<close>: from a state with \<open>P\<close>, \<open>m\<close> returns, in a state with \<open>Q\<close>
  of its value or, after an error, one with \<open>E\<close>.
\<close>

definition runs ::
    "('s \<Rightarrow> bool) \<Rightarrow> ('s, 'a) prog \<Rightarrow> ('a \<Rightarrow> 's \<Rightarrow> bool) \<Rightarrow> ('s \<Rightarrow> bool) \<Rightarrow> bool" where
  "runs P m Q E \<longleftrightarrow> (\<forall>s. P s \<longrightarrow>
     (\<exists>r t. m s = Some (r, t) \<and> (case r of Inl _ \<Rightarrow> E t | Inr a \<Rightarrow> Q a t)))"

lemma runsI:
  "(\<And>s. P s \<Longrightarrow> \<exists>r t. m s = Some (r, t) \<and> (case r of Inl _ \<Rightarrow> E t | Inr a \<Rightarrow> Q a t)) \<Longrightarrow> runs P m Q E"
  by (simp add: runs_def)

lemma runsE:
  assumes "runs P m Q E" and "P s"
  obtains (error) e t where "m s = Some (Inl e, t)" and "E t"
    | (answered) a t where "m s = Some (Inr a, t)" and "Q a t"
proof -
  from assms obtain r t where "m s = Some (r, t)" "case r of Inl _ \<Rightarrow> E t | Inr a \<Rightarrow> Q a t"
    by (auto simp: runs_def)
  then show thesis using error answered by (cases r) auto
qed

lemma runs_andthen:
  assumes "runs P m Q E" and "\<And>a. runs (Q a) (f a) R E"
  shows "runs P (andthen m f) R E"
proof (rule runsI)
  fix s assume "P s"
  with assms(1) show "\<exists>r t. andthen m f s = Some (r, t) \<and> (case r of Inl _ \<Rightarrow> E t | Inr b \<Rightarrow> R b t)"
  proof (cases rule: runsE)
    case (error e t)
    then show ?thesis by (auto simp: andthen_run)
  next
    case (answered a t)
    from assms(2) [of a] answered(2) show ?thesis
      by (cases rule: runsE) (use answered(1) in \<open>auto simp: andthen_run\<close>)
  qed
qed

lemma runs_attempt:
  assumes "runs P m Q E"
  shows "runs P (attempt m) (\<lambda>r. case r of Inl _ \<Rightarrow> E | Inr a \<Rightarrow> Q a) E'"
proof (rule runsI)
  fix s assume "P s"
  with assms show "\<exists>r t. attempt m s = Some (r, t) \<and>
      (case r of Inl _ \<Rightarrow> E' t | Inr x \<Rightarrow> (case x of Inl _ \<Rightarrow> E | Inr a \<Rightarrow> Q a) t)"
    by (cases rule: runsE) (auto simp: attempt_def)
qed

lemma runs_ok: "(\<And>s. P s \<Longrightarrow> Q a s) \<Longrightarrow> runs P (ok a) Q E"
  by (auto simp: runs_def prog_run)

lemma runs_fail: "(\<And>s. P s \<Longrightarrow> E s) \<Longrightarrow> runs P (fail e) Q E"
  by (auto simp: runs_def prog_run)

lemma runs_modify: "(\<And>s. P s \<Longrightarrow> Q () (g s)) \<Longrightarrow> runs P (modify g) Q E"
  by (auto simp: runs_def prog_run)

lemma runs_gets: "(\<And>s. P s \<Longrightarrow> Q (f s) s) \<Longrightarrow> runs P (gets f) Q E"
  by (auto simp: runs_def prog_run)

lemma runs_weaken:
  assumes "runs P m Q E" and "\<And>s. P' s \<Longrightarrow> P s" and "\<And>a s. Q a s \<Longrightarrow> Q' a s" and "\<And>s. E s \<Longrightarrow> E' s"
  shows "runs P' m Q' E'"
proof (rule runsI)
  fix s assume "P' s"
  with assms(1,2) show "\<exists>r t. m s = Some (r, t) \<and> (case r of Inl _ \<Rightarrow> E' t | Inr a \<Rightarrow> Q' a t)"
    by (elim runsE [of P m Q E s]) (auto intro: assms(3,4))
qed

lemma runs_only_if: "(c \<Longrightarrow> runs P m Q E) \<Longrightarrow> (\<And>s. \<not> c \<Longrightarrow> P s \<Longrightarrow> Q () s) \<Longrightarrow> runs P (only_if c m) Q E"
  by (cases c) (auto simp: runs_ok)

lemma runs_iterate:
  assumes "\<And>l s. I l s \<Longrightarrow> \<exists>r t. body l s = Some (r, t) \<and> (case r of
      Inl _ \<Rightarrow> E t
    | Inr (Inl l') \<Rightarrow> I l' t \<and> (\<mu> l' t :: nat) < \<mu> l s
    | Inr (Inr a) \<Rightarrow> Q a t)"
  shows "runs (I l) (iterate body l) Q E"
proof (rule runsI)
  fix s assume "I l s"
  then show "\<exists>r t. iterate body l s = Some (r, t) \<and> (case r of Inl _ \<Rightarrow> E t | Inr a \<Rightarrow> Q a t)"
  proof (induction "\<mu> l s" arbitrary: l s rule: less_induct)
    case less
    from assms [OF less.prems] obtain r t where rt: "body l s = Some (r, t)" and
      post: "case r of Inl _ \<Rightarrow> E t | Inr (Inl l') \<Rightarrow> I l' t \<and> \<mu> l' t < \<mu> l s | Inr (Inr a) \<Rightarrow> Q a t"
      by blast
    show ?case
    proof (cases r)
      case (Inl e)
      then show ?thesis using rt post by (subst iterate.simps) auto
    next
      case (Inr x)
      then show ?thesis using rt post less.hyps by (cases x) (subst iterate.simps, auto)+
    qed
  qed
qed

end
