(* ===== verification/Json.thy ===== *)
theory Json
  imports Prelude
begin

text \<open>
  \<open>serde_json::Value\<close> as the code uses it. An object is serde's \<open>Map\<close>, a
  \<open>BTreeMap<String, Value>\<close>: an association list with its keys in strictly increasing
  order. A number keeps serde's three forms; an \<open>f64\<close> is its 64-bit pattern, which
  the code only carries.
\<close>

type_synonym f64 = "64 word"

datatype number = PosInt u64 | NegInt i64 | Float f64

datatype json =
    JNull
  | JBool bool
  | JNumber number
  | JString string
  | JArray "json list"
  | JObject "(string \<times> json) list"

type_synonym json_map = "(string \<times> json) list"

text \<open>\<open>Map::insert\<close>: replace the value of a key, or put it in its place.\<close>

fun obj_insert :: "string \<Rightarrow> 'v \<Rightarrow> (string \<times> 'v) list \<Rightarrow> (string \<times> 'v) list" where
  "obj_insert k v [] = [(k, v)]"
| "obj_insert k v ((k', v') # m) =
     (if k < k' then (k, v) # (k', v') # m
      else if k = k' then (k, v) # m
      else (k', v') # obj_insert k v m)"

text \<open>Collecting pairs into a \<open>Map\<close>, and the \<open>json!\<close> object literal: inserts in order.\<close>

definition obj_of :: "(string \<times> 'v) list \<Rightarrow> (string \<times> 'v) list" where
  "obj_of kvs = fold (\<lambda>(k, v). obj_insert k v) kvs []"

definition jobj :: "(string \<times> json) list \<Rightarrow> json" where
  "jobj kvs = JObject (obj_of kvs)"

definition jstr :: "string \<Rightarrow> json" where
  "jstr s = JString s"

definition jint :: "u64 \<Rightarrow> json" where
  "jint n = JNumber (PosInt n)"

text \<open>\<open>json!(x)\<close> of an \<open>f64\<close>: an infinity or a NaN has no JSON, and becomes null.\<close>

definition f64_is_finite :: "f64 \<Rightarrow> bool" where
  "f64_is_finite x = (drop_bit 52 (unat x) mod 2048 \<noteq> 2047)"

definition jfloat :: "f64 \<Rightarrow> json" where
  "jfloat x = (if f64_is_finite x then JNumber (Float x) else JNull)"

fun json_get :: "json \<Rightarrow> string \<Rightarrow> json option" where
  "json_get (JObject m) k = map_of m k"
| "json_get _ k = None"

fun as_str :: "json \<Rightarrow> string option" where
  "as_str (JString s) = Some s"
| "as_str _ = None"

fun as_array :: "json \<Rightarrow> json list option" where
  "as_array (JArray xs) = Some xs"
| "as_array _ = None"

fun as_object :: "json \<Rightarrow> json_map option" where
  "as_object (JObject m) = Some m"
| "as_object _ = None"

text \<open>\<open>value[key] = v\<close> on an object; serde turns a null into an object first, and panics on
  any other value, which the code never indexes.\<close>

fun json_set :: "json \<Rightarrow> string \<Rightarrow> json \<Rightarrow> json" where
  "json_set (JObject m) k v = JObject (obj_insert k v m)"
| "json_set JNull k v = JObject [(k, v)]"
| "json_set j k v = j"

subsection \<open>The map interface\<close>

text \<open>What a client of an ordered map relies on, and what it can conclude.\<close>

locale ordered_map =
  fixes empty :: "'m"
    and insert :: "string \<Rightarrow> 'v \<Rightarrow> 'm \<Rightarrow> 'm"
    and lookup :: "'m \<Rightarrow> string \<Rightarrow> 'v option"
    and keys :: "'m \<Rightarrow> string list"
    and inv :: "'m \<Rightarrow> bool"
  assumes inv_empty: "inv empty"
    and inv_insert: "inv m \<Longrightarrow> inv (insert k v m)"
    and lookup_empty: "lookup empty k = None"
    and lookup_insert: "inv m \<Longrightarrow> lookup (insert k v m) k' = (if k' = k then Some v else lookup m k')"
    and inv_sorted: "inv m \<Longrightarrow> sorted_wrt (<) (keys m)"
    and keys_lookup: "inv m \<Longrightarrow> k \<in> set (keys m) \<longleftrightarrow> lookup m k \<noteq> None"
begin

definition collect :: "(string \<times> 'v) list \<Rightarrow> 'm" where
  "collect kvs = fold (\<lambda>(k, v). insert k v) kvs empty"

lemma fold_insert:
  assumes "inv m"
  shows "inv (fold (\<lambda>(k, v). insert k v) kvs m) \<and>
    lookup (fold (\<lambda>(k, v). insert k v) kvs m) k =
      (case map_of (rev kvs) k of None \<Rightarrow> lookup m k | Some v \<Rightarrow> Some v)"
  using assms
proof (induction kvs arbitrary: m)
  case (Cons kv kvs)
  obtain k' v' where kv: "kv = (k', v')" by fastforce
  show ?case
    using Cons.IH [of "insert k' v' m"] Cons.prems
    by (auto simp: kv inv_insert lookup_insert map_add_def split: option.splits)
qed simp

lemma collect_lookup: "lookup (collect kvs) k = map_of (rev kvs) k"
  using fold_insert [OF inv_empty, of kvs k]
  by (auto simp: collect_def lookup_empty split: option.splits)

lemma collect_inv: "inv (collect kvs)"
  using fold_insert [OF inv_empty] by (simp add: collect_def)

lemma collect_keys: "set (keys (collect kvs)) = fst ` set kvs"
  using keys_lookup [OF collect_inv] by (auto simp: collect_lookup map_of_eq_None_iff)

lemma collect_sorted: "sorted_wrt (<) (keys (collect kvs))"
  by (rule inv_sorted [OF collect_inv])

end

definition obj_sorted :: "(string \<times> 'v) list \<Rightarrow> bool" where
  "obj_sorted m = sorted_wrt (<) (map fst m)"

lemma obj_insert_keys: "fst ` set (obj_insert k v m) = insert k (fst ` set m)"
  by (induction k v m rule: obj_insert.induct) auto

lemma obj_insert_sorted: "obj_sorted m \<Longrightarrow> obj_sorted (obj_insert k v m)"
proof (induction k v m rule: obj_insert.induct)
  case (2 k v k' v' m)
  have "x < y" if "x < k'" "k' < y" for x y using that by order
  moreover have "k' < k" if "\<not> k < k'" "k \<noteq> k'" using that by order
  moreover have "fst ` set (obj_insert k v m) = insert k (fst ` set m)" by (rule obj_insert_keys)
  ultimately show ?case
    using 2 by (auto simp: obj_sorted_def)
qed (simp add: obj_sorted_def)

lemma obj_insert_lookup: "obj_sorted m \<Longrightarrow> map_of (obj_insert k v m) k' = (if k' = k then Some v else map_of m k')"
proof (induction k v m rule: obj_insert.induct)
  case (2 k v k1 v1 m)
  then show ?case by (auto simp: obj_sorted_def)
qed simp

interpretation obj: ordered_map "[] :: (string \<times> 'v) list" obj_insert map_of "map fst" obj_sorted
proof
  fix m :: "(string \<times> 'v) list" and k
  show "k \<in> set (map fst m) \<longleftrightarrow> map_of m k \<noteq> None"
    by (simp add: map_of_eq_None_iff)
qed (auto simp: obj_insert_sorted obj_insert_lookup, auto simp: obj_sorted_def)

lemma obj_of_collect: "obj_of kvs = obj.collect kvs"
  by (simp add: obj_of_def obj.collect_def)

lemma obj_of_lookup: "map_of (obj_of kvs) k = map_of (rev kvs) k"
  unfolding obj_of_collect by (rule obj.collect_lookup)

lemma obj_of_sorted: "obj_sorted (obj_of kvs)"
  unfolding obj_of_collect by (rule obj.collect_inv)

lemma obj_of_keys: "fst ` set (obj_of kvs) = fst ` set kvs"
  using obj.collect_keys [of kvs] by (simp add: obj_of_collect)

lemma json_get_jobj [simp]: "json_get (jobj kvs) k = map_of (rev kvs) k"
  by (simp add: jobj_def obj_of_lookup)

text \<open>Two sorted maps with the same lookups are the same list.\<close>

lemma obj_sorted_distinct: "obj_sorted m \<Longrightarrow> distinct (map fst m)"
  by (auto simp: obj_sorted_def distinct_conv_nth sorted_wrt_iff_nth_less)
     (metis linorder_neqE_nat order_less_irrefl)

lemma obj_sorted_eq:
  assumes "obj_sorted m" and "obj_sorted n" and "\<And>k. map_of m k = map_of n k"
  shows "m = n"
proof -
  have dm: "distinct (map fst m)" and dn: "distinct (map fst n)"
    using assms(1,2) by (simp_all add: obj_sorted_distinct)
  have maps: "map_of m = map_of n" using assms(3) by (simp add: fun_eq_iff)
  then have "set m = set n"
    using dm dn by (metis map_of_eq_Some_iff subrelI subset_antisym)
  then have "map fst m = map fst n"
    using assms(1,2) dm dn
    by (intro sorted_distinct_set_unique)
       (auto simp: obj_sorted_def strict_sorted_iff)
  then show ?thesis
    using maps dm dn
  proof (induction m arbitrary: n)
    case (Cons p m)
    obtain k v where p: "p = (k, v)" by fastforce
    obtain w n' where n: "n = (k, w) # n'" using Cons.prems(1) p by (cases n) auto
    have "v = w" using fun_cong [OF Cons.prems(2), of k] by (simp add: p n)
    moreover have "map_of m = map_of n'"
    proof
      fix x
      show "map_of m x = map_of n' x"
        using fun_cong [OF Cons.prems(2), of x] Cons.prems(3,4)
        by (cases "x = k") (auto simp: p n map_of_eq_None_iff [THEN iffD2])
    qed
    ultimately show ?case using Cons.IH [of n'] Cons.prems by (simp add: p n)
  qed simp
qed

end
