(* ===== verification/Utf8.thy ===== *)
theory Utf8
  imports Prelude
begin

text \<open>
  The part of Rust's \<open>str\<close> the code uses. A \<open>char\<close> of a Rust string is the list
  of its UTF-8 bytes (\<open>rchar\<close>), so pushing one appends its bytes and \<open>len\<close> counts
  them. \<open>chars\<close> splits by the lead byte; \<open>valid_utf8\<close> is what
  \<open>String::from_utf8\<close> accepts (Unicode's table of well-formed sequences).
\<close>

type_synonym rchar = string

definition byte_of :: "char \<Rightarrow> nat" where
  "byte_of c = of_char c"

definition seq_len :: "char \<Rightarrow> nat" where
  "seq_len c = (let b = byte_of c in
     if b < 0xC2 then 1 else if b < 0xE0 then 2 else if b < 0xF0 then 3
     else if b < 0xF5 then 4 else 1)"

definition is_continuation :: "char \<Rightarrow> bool" where
  "is_continuation c = (0x80 \<le> byte_of c \<and> byte_of c < 0xC0)"

fun utf8_chars :: "string \<Rightarrow> rchar list" where
  "utf8_chars [] = []"
| "utf8_chars (c # cs) =
     (c # take (seq_len c - 1) cs) # utf8_chars (drop (seq_len c - 1) cs)"

fun valid_char :: "rchar \<Rightarrow> bool" where
  "valid_char [a] = (byte_of a < 0x80)"
| "valid_char [a, b] = (0xC2 \<le> byte_of a \<and> byte_of a < 0xE0 \<and> is_continuation b)"
| "valid_char [a, b, c] =
     (0xE0 \<le> byte_of a \<and> byte_of a < 0xF0 \<and> is_continuation b \<and> is_continuation c \<and>
      (byte_of a = 0xE0 \<longrightarrow> 0xA0 \<le> byte_of b) \<and> (byte_of a = 0xED \<longrightarrow> byte_of b < 0xA0))"
| "valid_char [a, b, c, d] =
     (0xF0 \<le> byte_of a \<and> byte_of a < 0xF5 \<and> is_continuation b \<and> is_continuation c \<and>
      is_continuation d \<and>
      (byte_of a = 0xF0 \<longrightarrow> 0x90 \<le> byte_of b) \<and> (byte_of a = 0xF4 \<longrightarrow> byte_of b < 0x90))"
| "valid_char _ = False"

definition valid_utf8 :: "string \<Rightarrow> bool" where
  "valid_utf8 s = list_all valid_char (utf8_chars s)"

text \<open>\<open>char::is_control\<close>: U+0000 to U+001F and U+007F to U+009F.\<close>

fun is_control :: "rchar \<Rightarrow> bool" where
  "is_control [a] = (byte_of a < 0x20 \<or> byte_of a = 0x7F)"
| "is_control [a, b] = (byte_of a = 0xC2 \<and> 0x80 \<le> byte_of b \<and> byte_of b < 0xA0)"
| "is_control _ = False"

text \<open>\<open>char::is_whitespace\<close>: Unicode's \<open>White_Space\<close>.\<close>

fun is_whitespace :: "rchar \<Rightarrow> bool" where
  "is_whitespace [a] = (byte_of a = 0x20 \<or> (9 \<le> byte_of a \<and> byte_of a \<le> 13))"
| "is_whitespace [a, b] = (byte_of a = 0xC2 \<and> (byte_of b = 0x85 \<or> byte_of b = 0xA0))"
| "is_whitespace [a, b, c] =
     ((byte_of a, byte_of b, byte_of c) \<in>
        {(0xE1, 0x9A, 0x80), (0xE2, 0x80, 0xA8), (0xE2, 0x80, 0xA9), (0xE2, 0x80, 0xAF),
         (0xE2, 0x81, 0x9F), (0xE3, 0x80, 0x80)} \<or>
      (byte_of a = 0xE2 \<and> byte_of b = 0x80 \<and> 0x80 \<le> byte_of c \<and> byte_of c \<le> 0x8A))"
| "is_whitespace _ = False"

text \<open>\<open>str::is_char_boundary\<close>.\<close>

definition is_char_boundary :: "string \<Rightarrow> nat \<Rightarrow> bool" where
  "is_char_boundary s i =
     (i = 0 \<or> i = length s \<or> (i < length s \<and> \<not> is_continuation (s ! i)))"

text \<open>\<open>str::split_whitespace\<close>: the maximal runs of non-whitespace.\<close>

fun words_of :: "rchar list \<Rightarrow> string \<Rightarrow> string list" where
  "words_of [] acc = (if acc = [] then [] else [acc])"
| "words_of (c # cs) acc =
     (if is_whitespace c then (if acc = [] then [] else [acc]) @ words_of cs []
      else words_of cs (acc @ c))"

definition split_whitespace :: "string \<Rightarrow> string list" where
  "split_whitespace s = words_of (utf8_chars s) []"

text \<open>\<open>str::trim\<close>.\<close>

definition trim :: "string \<Rightarrow> string" where
  "trim s = concat (rev (dropWhile is_whitespace (rev (dropWhile is_whitespace (utf8_chars s)))))"

text \<open>\<open>str::eq_ignore_ascii_case\<close> and \<open>to_lowercase\<close> on ASCII.\<close>

definition ascii_lower :: "char \<Rightarrow> char" where
  "ascii_lower c = (if 65 \<le> byte_of c \<and> byte_of c \<le> 90 then char_of (byte_of c + 32) else c)"

definition eq_ignore_ascii_case :: "string \<Rightarrow> string \<Rightarrow> bool" where
  "eq_ignore_ascii_case a b = (map ascii_lower a = map ascii_lower b)"

subsection \<open>Splitting into characters\<close>

lemma concat_utf8_chars [simp]: "concat (utf8_chars s) = s"
  by (induction s rule: utf8_chars.induct) simp_all

lemma valid_char_shape:
  assumes "valid_char x"
  obtains c cs where "x = c # cs" and "length cs = seq_len c - 1"
  using assms
proof (cases x rule: valid_char.cases)
  case (1 a)
  then show ?thesis using assms by (intro that [of a "[]"]) (auto simp: seq_len_def)
next
  case (2 a b)
  then show ?thesis using assms by (intro that [of a "[b]"]) (auto simp: seq_len_def)
next
  case (3 a b c)
  then show ?thesis using assms by (intro that [of a "[b, c]"]) (auto simp: seq_len_def)
next
  case (4 a b c d)
  then show ?thesis using assms by (intro that [of a "[b, c, d]"]) (auto simp: seq_len_def)
qed auto

lemma utf8_chars_valid_Cons:
  assumes "valid_char x"
  shows "utf8_chars (x @ s) = x # utf8_chars s"
  using assms by (elim valid_char_shape) simp

lemma utf8_chars_concat: "list_all valid_char cs \<Longrightarrow> utf8_chars (concat cs @ s) = cs @ utf8_chars s"
  by (induction cs) (simp_all add: utf8_chars_valid_Cons)

lemma utf8_chars_append: "valid_utf8 a \<Longrightarrow> utf8_chars (a @ b) = utf8_chars a @ utf8_chars b"
  using utf8_chars_concat [of "utf8_chars a" b] by (simp add: valid_utf8_def)

lemma valid_utf8_append: "valid_utf8 a \<Longrightarrow> valid_utf8 b \<Longrightarrow> valid_utf8 (a @ b)"
  by (simp add: valid_utf8_def utf8_chars_append)

lemma valid_utf8_concat: "list_all valid_char cs \<Longrightarrow> valid_utf8 (concat cs)"
  using utf8_chars_concat [of cs "[]"] by (simp add: valid_utf8_def)

lemma utf8_chars_of_concat: "list_all valid_char cs \<Longrightarrow> utf8_chars (concat cs) = cs"
  using utf8_chars_concat [of cs "[]"] by simp

lemma valid_utf8_Nil [simp]: "valid_utf8 []"
  by (simp add: valid_utf8_def)

lemma valid_char_length: "valid_char c \<Longrightarrow> 1 \<le> length c \<and> length c \<le> 4"
  by (cases c rule: valid_char.cases) auto

lemma ascii_valid: "list_all (\<lambda>c. byte_of c < 0x80) s \<Longrightarrow> valid_utf8 s"
proof (induction s)
  case (Cons c s)
  then have "valid_char [c]" by simp
  then show ?case
    using utf8_chars_valid_Cons [of "[c]" s] Cons by (simp add: valid_utf8_def seq_len_def)
qed simp

subsection \<open>Cutting at a boundary\<close>

text \<open>The byte after a whole number of characters is a boundary, and only there is one.\<close>

lemma valid_char_lead: "valid_char (c # cs) \<Longrightarrow> \<not> is_continuation c"
  by (cases "c # cs" rule: valid_char.cases) (auto simp: is_continuation_def)

lemma valid_char_tail: "valid_char (c # cs) \<Longrightarrow> x \<in> set cs \<Longrightarrow> is_continuation x"
  by (cases "c # cs" rule: valid_char.cases) auto

lemma boundary_prefix_valid:
  assumes "list_all valid_char cs" and "is_char_boundary (concat cs) n" and "n \<le> length (concat cs)"
  shows "\<exists>k. take n (concat cs) = concat (take k cs)"
  using assms
proof (induction cs arbitrary: n)
  case Nil
  then show ?case by simp
next
  case (Cons x cs)
  obtain c t where x: "x = c # t" using Cons.prems(1) by (cases x) auto
  consider "n = 0" | "0 < n" "n < length x" | "length x \<le> n" by linarith
  then show ?case
  proof cases
    case 1
    then show ?thesis by (intro exI [of _ 0]) simp
  next
    case 2
    then have "concat (x # cs) ! n = t ! (n - 1)"
      by (auto simp: x nth_append nth_Cons' )
    moreover have "t ! (n - 1) \<in> set t" using 2 x by simp
    ultimately have "is_continuation (concat (x # cs) ! n)"
      using Cons.prems(1) x valid_char_tail by auto
    with Cons.prems(2) 2 show ?thesis by (auto simp: is_char_boundary_def)
  next
    case 3
    let ?n = "n - length x"
    have "is_char_boundary (concat cs) ?n"
      using Cons.prems(2) 3 by (auto simp: is_char_boundary_def nth_append)
    moreover have "?n \<le> length (concat cs)" using Cons.prems(3) 3 by simp
    ultimately obtain k where "take ?n (concat cs) = concat (take k cs)"
      using Cons.IH Cons.prems(1) by auto
    then show ?thesis using 3 by (intro exI [of _ "Suc k"]) simp
  qed
qed

lemma boundary_take_valid:
  assumes "valid_utf8 s" and "is_char_boundary s n" and "n \<le> length s"
  shows "valid_utf8 (take n s)"
proof -
  obtain k where "take n s = concat (take k (utf8_chars s))"
    using boundary_prefix_valid [of "utf8_chars s" n] assms by (auto simp: valid_utf8_def)
  moreover have "list_all valid_char (take k (utf8_chars s))"
    using assms(1) by (auto simp: valid_utf8_def list_all_iff dest: in_set_takeD)
  ultimately show ?thesis by (simp add: valid_utf8_concat)
qed

text \<open>A character is at most four bytes, so there is a boundary within three of any place.\<close>

lemma lead_near:
  assumes "list_all valid_char cs" and "n < length (concat cs)"
  shows "\<exists>m \<le> n. n \<le> m + 3 \<and> \<not> is_continuation (concat cs ! m)"
  using assms
proof (induction cs arbitrary: n)
  case (Cons x cs)
  obtain c t where x: "x = c # t" using Cons.prems(1) by (cases x) auto
  show ?case
  proof (cases "n < length x")
    case True
    then show ?thesis
      using Cons.prems(1) valid_char_length [of x] valid_char_lead [of c t] x by (intro exI [of _ 0]) auto
  next
    case False
    have "n - length x < length (concat cs)" using Cons.prems(2) False by simp
    then obtain m where "m \<le> n - length x" "n - length x \<le> m + 3" "\<not> is_continuation (concat cs ! m)"
      using Cons.IH [of "n - length x"] Cons.prems(1) by auto
    then show ?thesis using False by (intro exI [of _ "length x + m"]) (auto simp: nth_append)
  qed
qed simp

lemma boundary_near:
  assumes "valid_utf8 s" and "n \<le> length s"
  shows "\<exists>m \<le> n. n \<le> m + 3 \<and> is_char_boundary s m"
proof (cases "n < length s")
  case True
  then show ?thesis
    using lead_near [of "utf8_chars s" n] assms(1) by (auto simp: valid_utf8_def is_char_boundary_def)
next
  case False
  then show ?thesis using assms(2) by (intro exI [of _ n]) (auto simp: is_char_boundary_def)
qed

subsection \<open>Lossy decoding\<close>

text \<open>
  \<open>String::from_utf8_lossy\<close>: each maximal run of bytes that starts a character and does not
  finish it becomes one U+FFFD. \<open>char_prefix\<close> is how many bytes the next character or run
  takes, and whether it is a character.
\<close>

definition second_ok :: "char \<Rightarrow> char \<Rightarrow> bool" where
  "second_ok a b =
     (is_continuation b \<and>
      (byte_of a = 0xE0 \<longrightarrow> 0xA0 \<le> byte_of b) \<and> (byte_of a = 0xED \<longrightarrow> byte_of b < 0xA0) \<and>
      (byte_of a = 0xF0 \<longrightarrow> 0x90 \<le> byte_of b) \<and> (byte_of a = 0xF4 \<longrightarrow> byte_of b < 0x90))"

definition char_prefix :: "string \<Rightarrow> nat \<times> bool" where
  "char_prefix s =
     (let n = seq_len (hd s) in
      if n = 1 then (1, byte_of (hd s) < 0x80)
      else if length s < 2 \<or> \<not> second_ok (hd s) (s ! 1) then (1, False)
      else if n = 2 then (2, True)
      else if length s < 3 \<or> \<not> is_continuation (s ! 2) then (2, False)
      else if n = 3 then (3, True)
      else if length s < 4 \<or> \<not> is_continuation (s ! 3) then (3, False)
      else (4, True))"

definition replacement :: string where
  "replacement = [CHR 0xEF, CHR 0xBF, CHR 0xBD]"

lemma char_prefix_pos: "0 < fst (char_prefix s)"
  by (auto simp: char_prefix_def Let_def)

function from_utf8_lossy :: "string \<Rightarrow> string" where
  "from_utf8_lossy s =
     (if s = [] then []
      else (if snd (char_prefix s) then take (fst (char_prefix s)) s else replacement)
        @ from_utf8_lossy (drop (fst (char_prefix s)) s))"
  by pat_completeness auto
termination
  by (relation "measure length") (simp_all add: char_prefix_pos)

declare from_utf8_lossy.simps [simp del]

lemma char_prefix_valid:
  assumes "s \<noteq> []" and "snd (char_prefix s)"
  shows "valid_char (take (fst (char_prefix s)) s)"
proof -
  obtain a t where s: "s = a # t" using assms(1) by (cases s) auto
  have bounds: "1 \<le> seq_len a \<and> seq_len a \<le> 4"
    by (auto simp: seq_len_def Let_def)
  show ?thesis
  proof (cases t)
    case Nil
    then show ?thesis using assms(2) by (auto simp: s char_prefix_def Let_def split: if_splits)
  next
    case (Cons b u)
    note t = this
    show ?thesis
    proof (cases u)
      case Nil
      then show ?thesis
        using assms(2) by (auto simp: s t char_prefix_def seq_len_def second_ok_def Let_def split: if_splits)
    next
      case u: (Cons c v)
      show ?thesis
      proof (cases v)
        case Nil
        then show ?thesis
          using assms(2)
          by (auto simp: s t u char_prefix_def seq_len_def second_ok_def Let_def split: if_splits)
      next
        case (Cons d w)
        then show ?thesis
          using assms(2)
          by (auto simp: s t u char_prefix_def seq_len_def second_ok_def Let_def split: if_splits)
      qed
    qed
  qed
qed

lemma from_utf8_lossy_valid: "valid_utf8 (from_utf8_lossy s)"
proof (induction s rule: from_utf8_lossy.induct)
  case (1 s)
  have repl: "valid_utf8 replacement" by code_simp
  have one: "valid_utf8 c" if "valid_char c" for c
    using valid_utf8_concat [of "[c]"] that by simp
  show ?case
  proof (cases "s = []")
    case True
    then show ?thesis by (subst from_utf8_lossy.simps) simp
  next
    case False
    then show ?thesis
      using 1 by (subst from_utf8_lossy.simps)
        (simp add: repl one char_prefix_valid valid_utf8_append)
  qed
qed

end
