(* ===== verification/Message.thy ===== *)
theory Message
  imports Errors Json Utf8
begin

text \<open>
  \<open>src/message.rs\<close>: the Phoenix v2 wire format. A message is the five-element array
  \<open>[join_ref, ref, topic, event, payload]\<close>, as JSON in a text frame or msgpack in a
  binary one. \<open>serde_json\<close> and \<open>rmp_serde\<close> are the parameter \<open>codec\<close>, at
  the tuple types the code gives them.
\<close>

definition DEVICE_TOPIC :: string where "DEVICE_TOPIC = ''device''"
definition CONSOLE_TOPIC :: string where "CONSOLE_TOPIC = ''console''"
definition CONSOLE_VERSION :: string where "CONSOLE_VERSION = ''1.0.0''"
definition CONTROL_TOPIC :: string where "CONTROL_TOPIC = ''phoenix''"
definition SERIALIZER_VSN :: string where "SERIALIZER_VSN = ''2.0.0''"
definition MSGPACK_SERIALIZER_VSN :: string where "MSGPACK_SERIALIZER_VSN = ''3.0.0''"
definition DEVICE_API_VERSION :: string where "DEVICE_API_VERSION = ''2.2.0''"

datatype serializer = Serializer_Json | Serializer_MsgPack

fun vsn :: "serializer \<Rightarrow> string" where
  "vsn Serializer_Json = SERIALIZER_VSN"
| "vsn Serializer_MsgPack = MSGPACK_SERIALIZER_VSN"

datatype frame = Text string | Binary bytes

fun frame_len :: "frame \<Rightarrow> nat" where
  "frame_len (Text text) = length text"
| "frame_len (Binary bytes) = length bytes"

definition frame_is_empty :: "frame \<Rightarrow> bool" where
  "frame_is_empty f = (frame_len f = 0)"

subsection \<open>Event names\<close>

definition EV_JOIN :: string where "EV_JOIN = ''phx_join''"
definition EV_REPLY :: string where "EV_REPLY = ''phx_reply''"
definition EV_CLOSE :: string where "EV_CLOSE = ''phx_close''"
definition EV_ERROR :: string where "EV_ERROR = ''phx_error''"
definition EV_HEARTBEAT :: string where "EV_HEARTBEAT = ''heartbeat''"
definition EV_UPDATE :: string where "EV_UPDATE = ''update''"
definition EV_UPDATE_PROGRESS :: string where "EV_UPDATE_PROGRESS = ''update_progress''"
definition EV_FIRMWARE_VALIDATED :: string where "EV_FIRMWARE_VALIDATED = ''firmware_validated''"
definition EV_STATUS_UPDATE :: string where "EV_STATUS_UPDATE = ''status_update''"
definition EV_REBOOTING :: string where "EV_REBOOTING = ''rebooting''"
definition EV_REBOOT :: string where "EV_REBOOT = ''reboot''"
definition EV_IDENTIFY :: string where "EV_IDENTIFY = ''identify''"
definition EV_EXTENSIONS_GET :: string where "EV_EXTENSIONS_GET = ''extensions:get''"
definition EV_UP :: string where "EV_UP = ''up''"
definition EV_DOWN :: string where "EV_DOWN = ''dn''"
definition EV_RESTART :: string where "EV_RESTART = ''restart''"
definition EV_FILE_DATA_START :: string where "EV_FILE_DATA_START = ''file-data/start''"
definition EV_FILE_DATA :: string where "EV_FILE_DATA = ''file-data''"
definition EV_FILE_DATA_STOP :: string where "EV_FILE_DATA_STOP = ''file-data/stop''"

lemmas event_names = EV_JOIN_def EV_REPLY_def EV_CLOSE_def EV_ERROR_def EV_HEARTBEAT_def
  EV_UPDATE_def EV_UPDATE_PROGRESS_def EV_FIRMWARE_VALIDATED_def EV_STATUS_UPDATE_def
  EV_REBOOTING_def EV_REBOOT_def EV_IDENTIFY_def EV_EXTENSIONS_GET_def EV_UP_def EV_DOWN_def
  EV_RESTART_def EV_FILE_DATA_START_def EV_FILE_DATA_def EV_FILE_DATA_STOP_def

lemmas topic_names = DEVICE_TOPIC_def CONSOLE_TOPIC_def CONTROL_TOPIC_def

subsection \<open>Messages\<close>

record message =
  msg_join_ref :: "string option"
  msg_reference :: "string option"
  msg_topic :: string
  msg_event :: string
  msg_payload :: json

definition new_message :: "string \<Rightarrow> string \<Rightarrow> json \<Rightarrow> message" where
  "new_message topic event payload =
     \<lparr>msg_join_ref = None, msg_reference = None, msg_topic = topic, msg_event = event,
      msg_payload = payload\<rparr>"

definition with_refs :: "message \<Rightarrow> string option \<Rightarrow> string option \<Rightarrow> message" where
  "with_refs m join_ref reference = m\<lparr>msg_join_ref := join_ref, msg_reference := reference\<rparr>"

type_synonym wire = "string option \<times> string option \<times> string \<times> string \<times> json"
type_synonym lenient_wire = "json \<times> json \<times> string \<times> string \<times> json"

text \<open>
  The libraries, at the types the code uses them: \<open>Inl\<close> carries the text of their error.
  \<open>value_text\<close> is \<open>Value::to_string\<close>, \<open>payload_error\<close> the text of the error
  for an update payload that does not deserialize.
\<close>

record codec =
  json_write :: "wire \<Rightarrow> string + string"
  json_read :: "string \<Rightarrow> string + wire"
  msgpack_write :: "wire \<Rightarrow> string + bytes"
  msgpack_read :: "bytes \<Rightarrow> string + lenient_wire"
  value_text :: "json \<Rightarrow> string"
  payload_error :: "json \<Rightarrow> string"

definition encode :: "codec \<Rightarrow> message \<Rightarrow> string + string" where
  "encode C m = json_write C (msg_join_ref m, msg_reference m, msg_topic m, msg_event m, msg_payload m)"

definition decode :: "codec \<Rightarrow> string \<Rightarrow> string + message" where
  "decode C raw = (case json_read C raw of
      Inl e \<Rightarrow> Inl e
    | Inr (join_ref, reference, topic, event, payload) \<Rightarrow>
        Inr \<lparr>msg_join_ref = join_ref, msg_reference = reference, msg_topic = topic,
             msg_event = event, msg_payload = payload\<rparr>)"

definition encode_msgpack :: "codec \<Rightarrow> message \<Rightarrow> string + bytes" where
  "encode_msgpack C m =
     msgpack_write C (msg_join_ref m, msg_reference m, msg_topic m, msg_event m, msg_payload m)"

fun reference_text :: "codec \<Rightarrow> json \<Rightarrow> string option" where
  "reference_text C JNull = None"
| "reference_text C (JString text) = Some text"
| "reference_text C other = Some (value_text C other)"

definition decode_msgpack :: "codec \<Rightarrow> bytes \<Rightarrow> string + message" where
  "decode_msgpack C raw = (case msgpack_read C raw of
      Inl e \<Rightarrow> Inl e
    | Inr (join_ref, reference, topic, event, payload) \<Rightarrow>
        Inr \<lparr>msg_join_ref = reference_text C join_ref, msg_reference = reference_text C reference,
             msg_topic = topic, msg_event = event, msg_payload = payload\<rparr>)"

text \<open>
  \<open>encode_frame\<close>: what the payload serializes as is a \<^typ>\<open>json\<close> here, whether the
  code hands it over as a \<open>Value\<close> or as something that serializes itself.
\<close>

definition encode_frame ::
  "codec \<Rightarrow> serializer \<Rightarrow> string option \<Rightarrow> string option \<Rightarrow> string \<Rightarrow> string \<Rightarrow> json \<Rightarrow> error + frame"
where
  "encode_frame C serializer join_ref reference topic event payload =
     (let message = (join_ref, reference, topic, event, payload)
      in case serializer of
          Serializer_Json \<Rightarrow> (case json_write C message of
              Inl e \<Rightarrow> Inl (error_from_serde e)
            | Inr text \<Rightarrow> if valid_utf8 text then Inr (Text text)
                           else Inl (Error_Protocol ''JSON that is not UTF-8''))
        | Serializer_MsgPack \<Rightarrow> (case msgpack_write C message of
              Inl e \<Rightarrow> Inl (error_from_serde e)
            | Inr bytes \<Rightarrow> Inr (Binary bytes)))"

definition encode_as :: "codec \<Rightarrow> message \<Rightarrow> serializer \<Rightarrow> error + frame" where
  "encode_as C m serializer =
     encode_frame C serializer (msg_join_ref m) (msg_reference m) (msg_topic m) (msg_event m)
       (msg_payload m)"

fun decode_frame :: "codec \<Rightarrow> frame \<Rightarrow> error + message" where
  "decode_frame C (Text text) =
     (case decode C text of Inl e \<Rightarrow> Inl (error_from_serde e) | Inr m \<Rightarrow> Inr m)"
| "decode_frame C (Binary bytes) =
     (case decode_msgpack C bytes of Inl e \<Rightarrow> Inl (error_from_serde e) | Inr m \<Rightarrow> Inr m)"

definition is_ok_reply_to :: "message \<Rightarrow> string \<Rightarrow> bool" where
  "is_ok_reply_to m reference =
     (msg_event m = EV_REPLY \<and> msg_reference m = Some reference \<and>
      Option.bind (json_get (msg_payload m) ''status'') as_str = Some ''ok'')"

definition reply_response :: "message \<Rightarrow> json option" where
  "reply_response m = json_get (msg_payload m) ''response''"

subsection \<open>References\<close>

text \<open>\<open>RefGenerator\<close> is its counter; \<open>next_ref\<close> wraps at 64 bits.\<close>

type_synonym ref_generator = u64

definition next_ref :: "ref_generator \<Rightarrow> string \<times> ref_generator" where
  "next_ref next = (let next' = next + 1 in (dec_u64 next', next'))"

text \<open>The first \<open>n\<close> references taken from a generator.\<close>

primrec take_refs :: "nat \<Rightarrow> ref_generator \<Rightarrow> string list" where
  "take_refs 0 g = []"
| "take_refs (Suc n) g = (let (r, g') = next_ref g in r # take_refs n g')"

lemma take_refs_eq: "take_refs n g = map (\<lambda>i. dec_u64 (g + of_nat (Suc i))) [0..<n]"
proof (induction n arbitrary: g)
  case (Suc n)
  have "map (\<lambda>i. dec_u64 (g + of_nat (Suc i))) [0..<Suc n]
      = dec_u64 (g + 1) # map (\<lambda>i. dec_u64 (g + 1 + of_nat (Suc i))) [0..<n]"
    by (simp add: upt_conv_Cons map_Suc_upt [symmetric] add.assoc del: upt_Suc)
  with Suc show ?case by (simp add: next_ref_def Let_def)
qed simp

lemma of_nat_u64_inject: "i < 2 ^ 64 \<Longrightarrow> j < 2 ^ 64 \<Longrightarrow> (of_nat i :: u64) = of_nat j \<Longrightarrow> i = j"
  by (simp add: word_of_nat_eq_iff take_bit_nat_eq_self)

text \<open>
  The references one session takes are distinct until its 64-bit counter has gone all the way
  round, so no reply is taken for another request's.
\<close>

lemma refs_distinct:
  assumes "n \<le> 2 ^ 64"
  shows "distinct (take_refs n g)"
proof -
  have "inj_on (\<lambda>i. dec_u64 (g + of_nat (Suc i))) {0..<n}"
  proof (rule inj_onI)
    fix i j
    assume "i \<in> {0..<n}" "j \<in> {0..<n}" "dec_u64 (g + of_nat (Suc i)) = dec_u64 (g + of_nat (Suc j))"
    then show "i = j" using assms of_nat_u64_inject [of i j] by simp
  qed
  then show ?thesis by (simp add: take_refs_eq distinct_map)
qed

subsection \<open>Codecs that read back\<close>

text \<open>
  A codec whose reader gives back what its writer wrote. Both libraries are one only up to the
  nesting their readers take, and \<open>serde_json\<close> reads a float back exactly only with a feature
  the crate does not turn on; so no property rests on it. JSON text is UTF-8.
\<close>

fun float_free :: "json \<Rightarrow> bool" where
  "float_free (JNumber (Float x)) = False"
| "float_free (JArray xs) = (\<forall>x \<in> set xs. float_free x)"
| "float_free (JObject m) = (\<forall>kv \<in> set m. float_free (snd kv))"
| "float_free _ = True"

definition ref_json :: "string option \<Rightarrow> json" where
  "ref_json r = (case r of None \<Rightarrow> JNull | Some s \<Rightarrow> JString s)"

definition json_reads_back :: "codec \<Rightarrow> bool" where
  "json_reads_back C = (\<forall>jr r t e p text. json_write C (jr, r, t, e, p) = Inr text \<longrightarrow>
     valid_utf8 text \<and> (float_free p \<longrightarrow> json_read C text = Inr (jr, r, t, e, p)))"

definition msgpack_reads_back :: "codec \<Rightarrow> bool" where
  "msgpack_reads_back C = (\<forall>jr r t e p bytes. msgpack_write C (jr, r, t, e, p) = Inr bytes \<longrightarrow>
     msgpack_read C bytes = Inr (ref_json jr, ref_json r, t, e, p))"

lemma reference_text_ref_json [simp]: "reference_text C (ref_json r) = r"
  by (cases r) (simp_all add: ref_json_def)

lemma decode_encode_json:
  assumes "json_reads_back C" and "encode_as C m Serializer_Json = Inr f" and "float_free (msg_payload m)"
  shows "decode_frame C f = Inr m"
  using assms
  by (auto simp: encode_as_def encode_frame_def json_reads_back_def decode_def
        split: sum.splits if_splits)

lemma decode_encode_msgpack:
  assumes "msgpack_reads_back C" and "encode_as C m Serializer_MsgPack = Inr f"
  shows "decode_frame C f = Inr m"
proof -
  obtain bytes where b: "msgpack_write C (msg_join_ref m, msg_reference m, msg_topic m,
      msg_event m, msg_payload m) = Inr bytes" and f: "f = Binary bytes"
    using assms(2) by (auto simp: encode_as_def encode_frame_def split: sum.splits)
  then have "msgpack_read C bytes = Inr (ref_json (msg_join_ref m), ref_json (msg_reference m),
      msg_topic m, msg_event m, msg_payload m)"
    using assms(1) unfolding msgpack_reads_back_def by blast
  then show ?thesis by (simp add: f decode_msgpack_def)
qed

text \<open>A codec that knows one message: the laws can hold.\<close>

definition one_message_codec :: "wire \<Rightarrow> string \<Rightarrow> bytes \<Rightarrow> codec" where
  "one_message_codec w text bin = \<lparr>
     json_write = (\<lambda>x. if x = w then Inr text else Inl ''unsupported''),
     json_read = (\<lambda>t. if t = text then Inr w else Inl ''expected value''),
     msgpack_write = (\<lambda>x. if x = w then Inr bin else Inl ''unsupported''),
     msgpack_read = (\<lambda>b. if b = bin then
         (case w of (jr, r, t, e, p) \<Rightarrow> Inr (ref_json jr, ref_json r, t, e, p)) else Inl ''invalid''),
     value_text = (\<lambda>_. []), payload_error = (\<lambda>_. ''invalid type'') \<rparr>"

lemma one_message_codec_lawful:
  "valid_utf8 text \<Longrightarrow> json_reads_back (one_message_codec w text bin)"
  "msgpack_reads_back (one_message_codec w text bin)"
  by (auto simp: json_reads_back_def msgpack_reads_back_def one_message_codec_def split: if_splits)

text \<open>
  With such a codec the crate's own part, the place of the references and the kind of frame,
  loses nothing: a message decodes to itself, whichever serializer the link uses.
\<close>

lemma frame_round_trip:
  assumes "json_reads_back C" and "msgpack_reads_back C"
    and "encode_as C m s = Inr f" and "s = Serializer_Json \<Longrightarrow> float_free (msg_payload m)"
  shows "decode_frame C f = Inr m"
  using assms by (cases s) (auto intro: decode_encode_json decode_encode_msgpack)

lemma frame_round_trip_example:
  "decode_frame (one_message_codec (Some ''1'', None, ''device'', ''identify'', JNull) ''x'' [7]) (Binary [7]) =
     Inr \<lparr>msg_join_ref = Some ''1'', msg_reference = None, msg_topic = ''device'', msg_event = ''identify'',
       msg_payload = JNull\<rparr>"
proof (rule frame_round_trip [where s = Serializer_MsgPack])
  show "json_reads_back (one_message_codec (Some ''1'', None, ''device'', ''identify'', JNull) ''x'' [7])"
    by (rule one_message_codec_lawful) code_simp
  show "msgpack_reads_back (one_message_codec (Some ''1'', None, ''device'', ''identify'', JNull) ''x'' [7])"
    by (rule one_message_codec_lawful)
qed (simp_all add: encode_as_def encode_msgpack_def encode_frame_def one_message_codec_def)

end
