(* ===== verification/Update.thy ===== *)
theory Update
  imports Errors Json Message
begin

text \<open>
  \<open>src/update.rs\<close>: the update payload and what may be done with it, and the throttle
  that decides when progress is worth a message.
\<close>

record firmware_meta =
  fm_uuid :: string
  fm_version :: "string option"
  fm_product :: "string option"
  fm_platform :: "string option"
  fm_architecture :: "string option"

record update_payload =
  update_available :: bool
  firmware_url :: "string option"
  firmware_meta :: "firmware_meta option"
  up_size :: "u64 option"
  up_checksum :: "string option"
  partials_checksums :: "string list option"
  deployment_id :: "i64 option"

subsection \<open>Deserializing\<close>

text \<open>
  \<open>#[derive(Deserialize)]\<close> over a \<open>Value\<close>: a struct is read from an object by name,
  unknown keys ignored, or from an array by position, no longer than the fields;
  \<open>#[serde(default)]\<close> supplies a field that is absent, and an \<open>Option\<close> also takes
  a null. \<open>None\<close> is a deserialization error.
\<close>

definition struct_field :: "json \<Rightarrow> nat \<Rightarrow> string \<Rightarrow> json option" where
  "struct_field j i name = (case j of
      JObject m \<Rightarrow> map_of m name
    | JArray xs \<Rightarrow> if i < length xs then Some (xs ! i) else None
    | _ \<Rightarrow> None)"

definition struct_shape :: "json \<Rightarrow> nat \<Rightarrow> bool" where
  "struct_shape j n = (case j of JObject _ \<Rightarrow> True | JArray xs \<Rightarrow> length xs \<le> n | _ \<Rightarrow> False)"

fun de_bool :: "json \<Rightarrow> bool option" where
  "de_bool (JBool b) = Some b" | "de_bool _ = None"

fun de_string :: "json \<Rightarrow> string option" where
  "de_string (JString s) = Some s" | "de_string _ = None"

fun de_u64 :: "json \<Rightarrow> u64 option" where
  "de_u64 (JNumber (PosInt n)) = Some n" | "de_u64 _ = None"

fun de_i64 :: "json \<Rightarrow> i64 option" where
  "de_i64 (JNumber (PosInt n)) = (if unat n < 2 ^ 63 then Some n else None)"
| "de_i64 (JNumber (NegInt n)) = Some n"
| "de_i64 _ = None"

fun de_seq :: "(json \<Rightarrow> 'a option) \<Rightarrow> json list \<Rightarrow> 'a list option" where
  "de_seq f [] = Some []"
| "de_seq f (x # xs) = (case f x of None \<Rightarrow> None
     | Some a \<Rightarrow> (case de_seq f xs of None \<Rightarrow> None | Some as \<Rightarrow> Some (a # as)))"

fun de_vec :: "(json \<Rightarrow> 'a option) \<Rightarrow> json \<Rightarrow> 'a list option" where
  "de_vec f (JArray xs) = de_seq f xs" | "de_vec f _ = None"

fun de_option :: "(json \<Rightarrow> 'a option) \<Rightarrow> json \<Rightarrow> 'a option option" where
  "de_option f JNull = Some None" | "de_option f j = map_option Some (f j)"

definition de_default :: "'a \<Rightarrow> (json \<Rightarrow> 'a option) \<Rightarrow> json option \<Rightarrow> 'a option" where
  "de_default d f field = (case field of None \<Rightarrow> Some d | Some j \<Rightarrow> f j)"

definition de_firmware_meta :: "json \<Rightarrow> firmware_meta option" where
  "de_firmware_meta j = (if \<not> struct_shape j 5 then None else
     case (Option.bind (struct_field j 0 ''uuid'') de_string,
           de_default None (de_option de_string) (struct_field j 1 ''version''),
           de_default None (de_option de_string) (struct_field j 2 ''product''),
           de_default None (de_option de_string) (struct_field j 3 ''platform''),
           de_default None (de_option de_string) (struct_field j 4 ''architecture'')) of
       (Some uuid, Some version, Some product, Some platform, Some architecture) \<Rightarrow>
         Some \<lparr>fm_uuid = uuid, fm_version = version, fm_product = product,
               fm_platform = platform, fm_architecture = architecture\<rparr>
     | _ \<Rightarrow> None)"

definition de_update_payload :: "json \<Rightarrow> update_payload option" where
  "de_update_payload j = (if \<not> struct_shape j 7 then None else
     case (de_default False de_bool (struct_field j 0 ''update_available''),
           de_default None (de_option de_string) (struct_field j 1 ''firmware_url''),
           de_default None (de_option de_firmware_meta) (struct_field j 2 ''firmware_meta''),
           de_default None (de_option de_u64) (struct_field j 3 ''size''),
           de_default None (de_option de_string) (struct_field j 4 ''checksum''),
           de_default None (de_option (de_vec de_string)) (struct_field j 5 ''partials_checksums''),
           de_default None (de_option de_i64) (struct_field j 6 ''deployment_id'')) of
       (Some available, Some url, Some meta, Some len, Some checksum, Some partials, Some deployment) \<Rightarrow>
         Some \<lparr>update_available = available, firmware_url = url, firmware_meta = meta,
               up_size = len, up_checksum = checksum, partials_checksums = partials,
               deployment_id = deployment\<rparr>
     | _ \<Rightarrow> None)"

definition parse_update :: "codec \<Rightarrow> json \<Rightarrow> error + update_payload" where
  "parse_update C payload = (case de_update_payload payload of
      None \<Rightarrow> Inl (error_from_serde (payload_error C payload)) | Some u \<Rightarrow> Inr u)"

definition actionable :: "update_payload \<Rightarrow> (string \<times> string) option" where
  "actionable u = (if \<not> update_available u then None
     else case (firmware_url u, firmware_meta u) of
         (Some url, Some meta) \<Rightarrow> Some (url, fm_uuid meta)
       | _ \<Rightarrow> None)"

text \<open>An update to evaluate on.\<close>

definition demo_update :: update_payload where
  "demo_update = \<lparr>update_available = True, firmware_url = Some ''http://a/b'',
     firmware_meta = Some \<lparr>fm_uuid = ''u-1'', fm_version = None, fm_product = None,
       fm_platform = None, fm_architecture = None\<rparr>,
     up_size = Some 3, up_checksum = None, partials_checksums = None, deployment_id = None\<rparr>"

datatype update_decision =
    Apply
  | Ignore (ignore_reason: string)
  | Reschedule (delay_ms: u64) (reschedule_reason: string)

datatype stage = Downloading | Updating

fun stage_str :: "stage \<Rightarrow> string" where
  "stage_str Downloading = ''downloading''"
| "stage_str Updating = ''updating''"

lemma actionable_Some:
  "actionable u = Some (url, uuid) \<longleftrightarrow> update_available u \<and> firmware_url u = Some url \<and>
     (\<exists>meta. firmware_meta u = Some meta \<and> fm_uuid meta = uuid)"
  by (auto simp: actionable_def split: option.splits)

subsection \<open>The progress throttle\<close>

record progress_throttle =
  last_reported :: "u8 option"
  step :: u8

definition new_throttle :: "u8 \<Rightarrow> progress_throttle" where
  "new_throttle s = \<lparr>last_reported = None, step = max s 1\<rparr>"

definition default_throttle :: progress_throttle where
  "default_throttle = new_throttle 5"

definition percent_of :: "u64 \<Rightarrow> u64 \<Rightarrow> u8" where
  "percent_of downloaded tot = of_nat (min (unat downloaded) (unat tot) * 100 div unat tot)"

definition throttle_take :: "progress_throttle \<Rightarrow> u64 \<Rightarrow> u64 \<Rightarrow> u8 option \<times> progress_throttle" where
  "throttle_take t downloaded tot =
     (if tot = 0 then (None, t)
      else let percent = percent_of downloaded tot;
               report = (case last_reported t of
                   None \<Rightarrow> True
                 | Some l0 \<Rightarrow> percent = 100 \<or> saturating_add l0 (step t) \<le> percent)
           in if report \<and> last_reported t \<noteq> Some percent
              then (Some percent, t\<lparr>last_reported := Some percent\<rparr>) else (None, t))"

text \<open>The reports of a download, one \<open>take\<close> per chunk.\<close>

primrec throttle_run :: "progress_throttle \<Rightarrow> u64 \<Rightarrow> u64 list \<Rightarrow> u8 list" where
  "throttle_run t tot [] = []"
| "throttle_run t tot (d # ds) =
     (case throttle_take t d tot of (r, t') \<Rightarrow>
        (case r of None \<Rightarrow> throttle_run t' tot ds | Some p \<Rightarrow> p # throttle_run t' tot ds))"

lemma percent_of_nat:
  assumes "tot \<noteq> 0"
  shows "unat (percent_of d tot) = min (unat d) (unat tot) * 100 div unat tot"
    and "unat (percent_of d tot) \<le> 100"
proof -
  have pos: "0 < unat tot" using assms by (simp add: unat_gt_0)
  have "min (unat d) (unat tot) * 100 div unat tot \<le> unat tot * 100 div unat tot"
    by (intro div_le_mono mult_le_mono1) simp
  also have "\<dots> = 100" using pos by simp
  finally have le: "min (unat d) (unat tot) * 100 div unat tot \<le> 100" .
  then show eq: "unat (percent_of d tot) = min (unat d) (unat tot) * 100 div unat tot"
    by (simp add: percent_of_def unat_of_nat take_bit_nat_eq_self)
  with le show "unat (percent_of d tot) \<le> 100" by simp
qed

lemma percent_of_mono:
  assumes "tot \<noteq> 0" and "d \<le> d'"
  shows "percent_of d tot \<le> percent_of d' tot"
  unfolding word_le_nat_alt percent_of_nat(1) [OF assms(1)]
  by (intro div_le_mono mult_le_mono1 min.mono) (use assms(2) in \<open>simp_all add: word_le_nat_alt\<close>)

lemma percent_of_complete: "tot \<noteq> 0 \<Longrightarrow> tot \<le> d \<Longrightarrow> percent_of d tot = 100"
  by (simp add: percent_of_def word_le_nat_alt min_absorb2 unat_eq_zero)

lemma throttle_take_step [simp]: "step (snd (throttle_take t d tot)) = step t"
  by (auto simp: throttle_take_def Let_def)

lemma throttle_take_Some:
  assumes "throttle_take t d tot = (Some p, t')"
  shows "tot \<noteq> 0 \<and> p = percent_of d tot \<and> last_reported t' = Some p \<and> step t' = step t \<and>
    last_reported t \<noteq> Some p \<and>
    (\<forall>l0. last_reported t = Some l0 \<longrightarrow> p = 100 \<or> saturating_add l0 (step t) \<le> p)"
  using assms by (auto simp: throttle_take_def Let_def split: if_splits option.splits)

lemma throttle_take_None: "throttle_take t d tot = (None, t') \<Longrightarrow> t' = t"
  by (auto simp: throttle_take_def Let_def split: if_splits)

lemma throttle_run_at_most: "p \<in> set (throttle_run t tot ds) \<Longrightarrow> unat p \<le> 100"
proof (induction ds arbitrary: t)
  case (Cons d ds)
  obtain r t' where take: "throttle_take t d tot = (r, t')" by fastforce
  then show ?case
    using Cons throttle_take_Some [of t d tot _ t'] percent_of_nat(2) [of tot d] by (auto split: option.splits)
qed simp

text \<open>What each report owes the one before it.\<close>

definition report_after :: "u8 \<Rightarrow> u8 \<Rightarrow> u8 \<Rightarrow> bool" where
  "report_after k p q = (unat p < unat q \<and> unat q \<le> 100 \<and> (q = 100 \<or> unat p + unat k \<le> unat q))"

lemma throttle_take_report_after:
  assumes "throttle_take t d tot = (Some p, t')" and "last_reported t = Some l"
    and "l \<le> percent_of d tot" and "1 \<le> unat (step t)"
  shows "report_after (step t) l p"
proof -
  have p: "tot \<noteq> 0" "p = percent_of d tot" "l \<noteq> p"
    "p = 100 \<or> saturating_add l (step t) \<le> p"
    using throttle_take_Some [OF assms(1)] assms(2) by auto
  have le: "unat p \<le> 100" using percent_of_nat(2) [OF p(1)] p(2) by simp
  have "unat l < unat p"
    using assms(3) p(2,3) unfolding word_le_nat_alt word_unat_eq_iff by linarith
  moreover have "p = 100 \<or> unat l + unat (step t) \<le> unat p"
    using p(4) le unfolding word_le_nat_alt unat_saturating_add by auto
  ultimately show ?thesis using le by (auto simp: report_after_def)
qed

lemma throttle_run_spaced:
  assumes "sorted ds" and "1 \<le> unat (step t)" and "last_reported t = Some l"
    and "\<forall>d \<in> set ds. tot \<noteq> 0 \<longrightarrow> l \<le> percent_of d tot"
  shows "successively (report_after (step t)) (l # throttle_run t tot ds)"
  using assms
proof (induction ds arbitrary: t l)
  case (Cons d ds)
  obtain r t' where take: "throttle_take t d tot = (r, t')" by fastforce
  show ?case
  proof (cases r)
    case None
    then have "t' = t" using take throttle_take_None by blast
    then show ?thesis using Cons None take by simp
  next
    case (Some p)
    then have p: "tot \<noteq> 0" "p = percent_of d tot" "last_reported t' = Some p" "step t' = step t"
      using throttle_take_Some take by auto
    have "report_after (step t) l p"
      using throttle_take_report_after [of t d tot p t' l] take Some Cons.prems p by auto
    moreover have "successively (report_after (step t')) (p # throttle_run t' tot ds)"
      using Cons.prems(1,2) p by (intro Cons.IH) (auto simp: percent_of_mono)
    ultimately show ?thesis using take Some p(4) by simp
  qed
qed simp

lemma throttle_run_from_new:
  assumes "sorted ds" and "1 \<le> unat (step t)" and "last_reported t = None"
  shows "successively (report_after (step t)) (throttle_run t tot ds)"
  using assms
proof (induction ds arbitrary: t)
  case (Cons d ds)
  obtain r t' where take: "throttle_take t d tot = (r, t')" by fastforce
  show ?case
  proof (cases r)
    case None
    then have "t' = t" using take throttle_take_None by blast
    then show ?thesis using Cons None take by simp
  next
    case (Some p)
    then have p: "tot \<noteq> 0" "p = percent_of d tot" "last_reported t' = Some p" "step t' = step t"
      using throttle_take_Some take by auto
    have "successively (report_after (step t')) (p # throttle_run t' tot ds)"
      using Cons.prems(1,2) p by (intro throttle_run_spaced) (auto simp: percent_of_mono)
    then show ?thesis using take Some p(4) by simp
  qed
qed simp

text \<open>A strictly growing sequence with such gaps is short.\<close>

lemma spaced_length:
  assumes "successively (report_after k) (p # ps)" and "1 \<le> unat k" and "unat p \<le> 100"
  shows "unat p + length ps * unat k \<le> 100 + unat k"
  using assms
proof (induction ps arbitrary: p)
  case (Cons q ps)
  then have q: "report_after k p q" "successively (report_after k) (q # ps)" by auto
  show ?case
  proof (cases "q = 100")
    case True
    then have "ps = []" using q(2) by (cases ps) (auto simp: report_after_def)
    then show ?thesis using Cons.prems q(1) by (auto simp: report_after_def)
  next
    case False
    then have "unat p + unat k \<le> unat q" using q(1) by (auto simp: report_after_def)
    moreover have "unat q + length ps * unat k \<le> 100 + unat k"
      using q Cons.prems(2) by (intro Cons.IH) (auto simp: report_after_def)
    ultimately show ?thesis by simp
  qed
qed simp

lemma throttle_take_complete:
  assumes "tot \<noteq> 0" and "tot \<le> d" and "throttle_take t d tot = (r, t')"
  shows "last_reported t' = Some 100 \<and> (r = None \<longrightarrow> last_reported t = Some 100) \<and> (\<forall>p. r = Some p \<longrightarrow> p = 100)"
  using assms percent_of_complete [OF assms(1,2)]
  by (auto simp: throttle_take_def Let_def split: if_splits option.splits)

lemma throttle_run_completes:
  assumes "tot \<noteq> 0" and "ds \<noteq> []" and "tot \<le> last ds"
  shows "throttle_run t tot ds \<noteq> [] \<and> last (throttle_run t tot ds) = 100 \<or>
    throttle_run t tot ds = [] \<and> last_reported t = Some 100"
  using assms(2,3)
proof (induction ds arbitrary: t)
  case (Cons d ds)
  obtain r t' where take: "throttle_take t d tot = (r, t')" by fastforce
  show ?case
  proof (cases "ds = []")
    case True
    then show ?thesis
      using throttle_take_complete [OF assms(1) _ take] Cons.prems take by (auto split: option.split)
  next
    case False
    then have IH: "throttle_run t' tot ds \<noteq> [] \<and> last (throttle_run t' tot ds) = 100 \<or>
        throttle_run t' tot ds = [] \<and> last_reported t' = Some 100"
      using Cons by simp
    show ?thesis
    proof (cases r)
      case None
      then have "t' = t" using take throttle_take_None by blast
      then show ?thesis using IH take None by simp
    next
      case (Some p)
      then have "last_reported t' = Some p" using take throttle_take_Some by blast
      then show ?thesis using IH take Some by auto
    qed
  qed
qed simp

subsection \<open>Properties\<close>

text \<open>
  C32: the progress reports of a download are each above the one before, by at least the
  configured step unless it is the last at 100; so there are at most \<open>100 / step + 2\<close> of them,
  and a download that reaches its size ends on 100.
\<close>

theorem throttle_reports:
  assumes "sorted ds"
  shows "successively (report_after (max s 1)) (throttle_run (new_throttle s) tot ds) \<and>
    (length (throttle_run (new_throttle s) tot ds) - 1) * unat (max s 1) \<le> 100 + unat (max s 1) \<and>
    (tot \<noteq> 0 \<and> ds \<noteq> [] \<and> tot \<le> last ds \<longrightarrow>
      throttle_run (new_throttle s) tot ds \<noteq> [] \<and> last (throttle_run (new_throttle s) tot ds) = 100)"
proof (intro conjI)
  have one: "1 \<le> unat (max s 1)" by (simp add: max_def word_le_nat_alt)
  show run: "successively (report_after (max s 1)) (throttle_run (new_throttle s) tot ds)"
    using throttle_run_from_new [OF assms, of "new_throttle s" tot] one by (simp add: new_throttle_def)
  show "(length (throttle_run (new_throttle s) tot ds) - 1) * unat (max s 1) \<le> 100 + unat (max s 1)"
  proof (cases "throttle_run (new_throttle s) tot ds")
    case (Cons p ps)
    then have "unat p \<le> 100" using throttle_run_at_most [of p "new_throttle s" tot ds] by simp
    then show ?thesis using spaced_length [OF run [unfolded Cons] one] Cons by simp
  qed simp
  show "tot \<noteq> 0 \<and> ds \<noteq> [] \<and> tot \<le> last ds \<longrightarrow>
      throttle_run (new_throttle s) tot ds \<noteq> [] \<and> last (throttle_run (new_throttle s) tot ds) = 100"
    using throttle_run_completes [of tot ds "new_throttle s"] by (auto simp: new_throttle_def)
qed

theorem throttle_reports_witness:
  "throttle_run (new_throttle 40) 200 [10, 50, 90, 150, 200] = [5, 45, 100] \<and>
   successively (report_after 40) [5, 45, 100]"
proof -
  have run: "throttle_run (new_throttle 40) 200 [10, 50, 90, 150, 200] = [5, 45, 100]"
    by (simp add: new_throttle_def throttle_take_def percent_of_def saturating_add_def)
  moreover have "successively (report_after (max 40 1)) (throttle_run (new_throttle 40) 200 [10, 50, 90, 150, 200])"
    using throttle_reports [of "[10, 50, 90, 150, 200]" 40 200] by simp
  ultimately show ?thesis by simp
qed

end
