(* ===== verification/Extensions.thy ===== *)
theory Extensions
  imports Message
begin

text \<open>
  \<open>src/extensions.rs\<close>: geo, health and logging as a state machine over the extensions
  channel, without transport, clock or providers: the payloads, the version negotiation, what
  is attached, and what an event or a reading becomes.
\<close>

definition EXTENSIONS_TOPIC :: string where "EXTENSIONS_TOPIC = ''extensions''"
definition EXTENSION_VERSION :: string where "EXTENSION_VERSION = ''0.0.1''"
definition LOGGING_BATCHED_VERSION :: string where "LOGGING_BATCHED_VERSION = ''0.1.0''"
definition GEO :: string where "GEO = ''geo''"
definition HEALTH :: string where "HEALTH = ''health''"
definition LOGGING :: string where "LOGGING = ''logging''"

lemmas extension_names = EXTENSIONS_TOPIC_def GEO_def HEALTH_def LOGGING_def
  EXTENSION_VERSION_def LOGGING_BATCHED_VERSION_def

definition implemented :: "string \<Rightarrow> string list" where
  "implemented key = (if key = LOGGING then [LOGGING_BATCHED_VERSION, EXTENSION_VERSION]
                      else [EXTENSION_VERSION])"

subsection \<open>Readings and their payloads\<close>

record location =
  latitude :: f64
  longitude :: f64
  loc_source :: string
  accuracy :: "f64 option"

definition location_payload :: "location \<Rightarrow> json" where
  "location_payload l = jobj ([(''latitude'', jfloat (latitude l)),
      (''longitude'', jfloat (longitude l)), (''source'', jstr (loc_source l))]
    @ (case accuracy l of None \<Rightarrow> [] | Some a \<Rightarrow> [(''accuracy'', jfloat a)]))"

record health_report =
  metrics :: "(string \<times> f64) list"
  hr_metadata :: "(string \<times> string) list"

definition empty_report :: health_report where
  "empty_report = \<lparr>metrics = [], hr_metadata = []\<rparr>"

definition add_metric :: "string \<Rightarrow> f64 \<Rightarrow> health_report \<Rightarrow> health_report" where
  "add_metric name v r = r\<lparr>metrics := metrics r @ [(name, v)]\<rparr>"

definition add_meta :: "string \<Rightarrow> string \<Rightarrow> health_report \<Rightarrow> health_report" where
  "add_meta name v r = r\<lparr>hr_metadata := hr_metadata r @ [(name, v)]\<rparr>"

definition health_payload :: "health_report \<Rightarrow> json" where
  "health_payload r =
     jobj [(''value'', jobj [(''metrics'', jobj (map (\<lambda>(k, v). (k, jfloat v)) (metrics r))),
                             (''metadata'', jobj (map (\<lambda>(k, v). (k, jstr v)) (hr_metadata r)))])]"

subsection \<open>Log lines\<close>

record log_line =
  ll_level :: string
  ll_message :: string
  ll_timestamp :: "string option"
  ll_meta :: "(string \<times> string) list"

definition new_line :: "string \<Rightarrow> string \<Rightarrow> log_line" where
  "new_line level msg = \<lparr>ll_level = level, ll_message = msg, ll_timestamp = None, ll_meta = []\<rparr>"

definition line_at :: "string \<Rightarrow> log_line \<Rightarrow> log_line" where
  "line_at timestamp l = l\<lparr>ll_timestamp := Some timestamp\<rparr>"

definition line_meta :: "string \<Rightarrow> string \<Rightarrow> log_line \<Rightarrow> log_line" where
  "line_meta k v l = l\<lparr>ll_meta := ll_meta l @ [(k, v)]\<rparr>"

definition with_time :: "u64 \<Rightarrow> log_line \<Rightarrow> log_line" where
  "with_time unix_micros l = line_meta ''time'' (dec_u64 unix_micros) l"

definition has_time :: "log_line \<Rightarrow> bool" where
  "has_time l = list_ex (\<lambda>(k, _). k = ''time'') (ll_meta l)"

text \<open>
  \<open>Meta::next_after\<close>: the smallest key after \<open>after\<close>, with its last value, in one
  pass over the pairs.
\<close>

definition next_after_step ::
  "string option \<Rightarrow> (string \<times> string) option \<Rightarrow> string \<times> string \<Rightarrow> (string \<times> string) option"
where
  "next_after_step after nxt kv = (case kv of (key, v) \<Rightarrow>
     if (case after of None \<Rightarrow> False | Some a \<Rightarrow> key \<le> a) then nxt
     else (case nxt of
         Some (smallest, w) \<Rightarrow> if key > smallest then nxt else Some (key, v)
       | None \<Rightarrow> Some (key, v)))"

definition next_after :: "(string \<times> string) list \<Rightarrow> string option \<Rightarrow> (string \<times> string) option" where
  "next_after kvs after = foldl (next_after_step after) None kvs"

definition beyond :: "string option \<Rightarrow> string \<Rightarrow> bool" where
  "beyond after key = (case after of None \<Rightarrow> True | Some a \<Rightarrow> a < key)"

lemma next_after_append: "next_after (kvs @ [kv]) after = next_after_step after (next_after kvs after) kv"
  by (simp add: next_after_def)

lemma next_after_spec:
  "(case next_after kvs after of
      None \<Rightarrow> (\<forall>k \<in> fst ` set kvs. \<not> beyond after k)
    | Some (k, v) \<Rightarrow> beyond after k \<and> map_of (rev kvs) k = Some v \<and>
        (\<forall>k' \<in> fst ` set kvs. beyond after k' \<longrightarrow> k \<le> k'))"
proof (induction kvs rule: rev_induct)
  case Nil
  then show ?case by (simp add: next_after_def)
next
  case (snoc kv kvs)
  obtain key v where kv: "kv = (key, v)" by fastforce
  show ?case
    using snoc.IH
    by (auto simp: next_after_append next_after_step_def kv beyond_def not_le not_less
          split: option.splits if_splits) (force+)?
qed

lemma next_after_Some:
  assumes "next_after kvs after = Some (k, v)"
  shows "beyond after k" "map_of (rev kvs) k = Some v" "k \<in> fst ` set kvs"
    "\<And>k'. k' \<in> fst ` set kvs \<Longrightarrow> beyond after k' \<Longrightarrow> k \<le> k'"
  using next_after_spec [of kvs after] assms
  by (auto dest!: map_of_SomeD intro: rev_image_eqI)

lemma next_after_None: "next_after kvs after = None \<Longrightarrow> k \<in> fst ` set kvs \<Longrightarrow> \<not> beyond after k"
  using next_after_spec [of kvs after] by auto

text \<open>The loop that writes a line's \<open>meta\<close>: one entry per turn, the key after the last.\<close>

function meta_entries :: "(string \<times> string) list \<Rightarrow> string option \<Rightarrow> (string \<times> string) list" where
  "meta_entries kvs after = (case next_after kvs after of
      None \<Rightarrow> []
    | Some (k, v) \<Rightarrow> (k, v) # meta_entries kvs (Some k))"
  by pat_completeness auto
termination
proof (relation "measure (\<lambda>(kvs, after). card {k \<in> fst ` set kvs. beyond after k})", goal_cases)
  case (2 kvs after kv k v)
  then have n: "next_after kvs after = Some (k, v)" by simp
  have "{k' \<in> fst ` set kvs. beyond (Some k) k'} \<subset> {k' \<in> fst ` set kvs. beyond after k'}"
    using next_after_Some [OF n] by (auto simp: beyond_def split: option.splits)
  then show ?case by (simp add: psubset_card_mono)
qed simp

declare meta_entries.simps [simp del]

definition meta_distinct :: "(string \<times> string) list \<Rightarrow> nat" where
  "meta_distinct kvs =
     length (filter (\<lambda>i. fst (kvs ! i) \<notin> set (map fst (take i kvs))) [0..<length kvs])"

definition line_json :: "log_line \<Rightarrow> json" where
  "line_json l = JObject
     ([(''level'', JString (ll_level l)), (''message'', JString (ll_message l))]
      @ (if ll_meta l = [] then []
         else [(''meta'', JObject (map (\<lambda>(k, v). (k, JString v)) (meta_entries (ll_meta l) None)))])
      @ (case ll_timestamp l of None \<Rightarrow> [] | Some t \<Rightarrow> [(''timestamp'', JString t)]))"

definition batch_json :: "log_line list \<Rightarrow> json" where
  "batch_json lines = JObject [(''lines'', JArray (map line_json lines))]"

text \<open>\<open>logging::approximate_json_len\<close>, and the batch's estimate from it.\<close>

definition approximate_json_len :: "log_line \<Rightarrow> nat" where
  "approximate_json_len l =
     length (ll_level l) + length (ll_message l)
     + (case ll_timestamp l of None \<Rightarrow> 0 | Some t \<Rightarrow> length t + 16)
     + sum_list (map (\<lambda>(k, v). length k + length v + 6) (ll_meta l)) + 40"

definition len_estimate :: "log_line list \<Rightarrow> nat" where
  "len_estimate lines = sum_list (map approximate_json_len lines) + 16"

text \<open>The keys come in order, each once, and of a key given twice the later value.\<close>

lemma meta_entries_sorted:
  "obj_sorted (meta_entries kvs after) \<and> (\<forall>k \<in> fst ` set (meta_entries kvs after). beyond after k)"
proof (induction kvs after rule: meta_entries.induct)
  case (1 kvs after)
  show ?case
  proof (cases "next_after kvs after")
    case None
    then show ?thesis by (simp add: meta_entries.simps [of kvs after] obj_sorted_def)
  next
    case (Some kv)
    obtain k v where kv: "kv = (k, v)" by fastforce
    have k: "beyond after k" using next_after_Some(1) Some kv by blast
    note ih = 1 [OF Some kv [symmetric]]
    have "beyond after k'" if "beyond (Some k) k'" for k'
      using that k by (auto simp: beyond_def split: option.splits)
    with ih k show ?thesis
      by (auto simp: meta_entries.simps [of kvs after] Some kv obj_sorted_def beyond_def)
  qed
qed

lemma meta_entries_lookup:
  "map_of (meta_entries kvs after) k = (if beyond after k then map_of (rev kvs) k else None)"
proof (induction kvs after rule: meta_entries.induct)
  case (1 kvs after)
  show ?case
  proof (cases "next_after kvs after")
    case None
    then have "beyond after k \<Longrightarrow> k \<notin> fst ` set kvs" using next_after_None by blast
    then have "beyond after k \<Longrightarrow> map_of (rev kvs) k = None" by (simp add: map_of_eq_None_iff)
    then show ?thesis
      using None by (simp add: meta_entries.simps [of kvs after])
  next
    case (Some kv)
    obtain k1 v where kv: "kv = (k1, v)" by fastforce
    note n = next_after_Some [OF Some [unfolded kv]]
    have ih: "map_of (meta_entries kvs (Some k1)) k = (if k1 < k then map_of (rev kvs) k else None)"
      using 1 [OF Some kv [symmetric]] by (simp add: beyond_def)
    have "k \<in> fst ` set kvs \<Longrightarrow> beyond after k \<Longrightarrow> k1 \<le> k" by (rule n(4))
    moreover have "beyond after k" if "k1 < k" using that n(1) by (auto simp: beyond_def split: option.splits)
    moreover have "map_of (rev kvs) k = None" if "k \<notin> fst ` set kvs"
      using that by (simp add: map_of_eq_None_iff)
    ultimately show ?thesis
      using n(1,2) ih
      by (cases "k \<in> fst ` set kvs") (auto simp: meta_entries.simps [of kvs after] Some kv order.order_iff_strict)
  qed
qed

lemma meta_entries_collects: "meta_entries kvs None = obj_of kvs"
  using meta_entries_sorted [of kvs None] obj_of_sorted [of kvs]
  by (intro obj_sorted_eq) (auto simp: meta_entries_lookup obj_of_lookup beyond_def)

lemma meta_distinct_snoc:
  "meta_distinct (kvs @ [kv]) = meta_distinct kvs + (if fst kv \<in> fst ` set kvs then 0 else 1)"
proof -
  have "filter (\<lambda>i. fst ((kvs @ [kv]) ! i) \<notin> set (map fst (take i (kvs @ [kv])))) [0..<length kvs]
      = filter (\<lambda>i. fst (kvs ! i) \<notin> set (map fst (take i kvs))) [0..<length kvs]"
    by (rule filter_cong) (auto simp: nth_append)
  then show ?thesis by (simp add: meta_distinct_def nth_append)
qed

lemma meta_distinct_card: "meta_distinct kvs = card (fst ` set kvs)"
proof (induction kvs rule: rev_induct)
  case (snoc kv kvs)
  then show ?case by (simp add: meta_distinct_snoc card_insert_if)
qed (simp add: meta_distinct_def)

lemma meta_distinct_entries: "meta_distinct kvs = length (meta_entries kvs None)"
proof -
  have "distinct (map fst (meta_entries kvs None))"
    using meta_entries_sorted [of kvs None] by (simp add: obj_sorted_distinct)
  then have "card (fst ` set (meta_entries kvs None)) = length (meta_entries kvs None)"
    by (metis distinct_card length_map list.set_map)
  then show ?thesis by (simp add: meta_distinct_card meta_entries_collects obj_of_keys)
qed

text \<open>A line written out directly is the map it used to be built as.\<close>

definition line_map :: "log_line \<Rightarrow> json" where
  "line_map l = jobj
     ([(''level'', JString (ll_level l)), (''message'', JString (ll_message l))]
      @ (if ll_meta l = [] then []
         else [(''meta'', jobj (map (\<lambda>(k, v). (k, JString v)) (ll_meta l)))])
      @ (case ll_timestamp l of None \<Rightarrow> [] | Some t \<Rightarrow> [(''timestamp'', JString t)]))"

lemma obj_of_map: "obj_of (map (\<lambda>(k, v). (k, f v)) kvs) = map (\<lambda>(k, v). (k, f v)) (obj_of kvs)"
proof (rule obj_sorted_eq)
  show "obj_sorted (map (\<lambda>(k, v). (k, f v)) (obj_of kvs))"
    using obj_of_sorted [of kvs] by (simp add: obj_sorted_def o_def case_prod_unfold)
  have m: "map_of (map (\<lambda>(k, v). (k, f v)) xs) k = map_option f (map_of xs k)" for xs k
    by (induction xs) auto
  show "map_of (obj_of (map (\<lambda>(k, v). (k, f v)) kvs)) k = map_of (map (\<lambda>(k, v). (k, f v)) (obj_of kvs)) k" for k
    by (simp add: obj_of_lookup m rev_map)
qed (rule obj_of_sorted)

lemma line_json_line_map: "line_json l = line_map l"
proof -
  have "''level'' < ''message''" "''message'' < ''meta''" "''meta'' < ''timestamp''"
    "''message'' < ''timestamp''" "''level'' < ''meta''" "''level'' < ''timestamp''"
    by (simp_all add: less_char_def)
  then show ?thesis
    by (auto simp: line_json_def line_map_def jobj_def obj_of_map meta_entries_collects
          split: option.splits) (auto simp: obj_of_def)
qed

subsection \<open>Which extensions are wanted\<close>

record enabled =
  en_geo :: bool
  en_health :: bool
  en_logging :: bool

definition none_enabled :: enabled where
  "none_enabled = \<lparr>en_geo = False, en_health = False, en_logging = False\<rparr>"

definition enable_geo :: "enabled \<Rightarrow> enabled" where
  "enable_geo e = e\<lparr>en_geo := True\<rparr>"

definition enable_health :: "enabled \<Rightarrow> enabled" where
  "enable_health e = e\<lparr>en_health := True\<rparr>"

definition enable_logging :: "enabled \<Rightarrow> enabled" where
  "enable_logging e = e\<lparr>en_logging := True\<rparr>"

definition any_enabled :: "enabled \<Rightarrow> bool" where
  "any_enabled e = (en_geo e \<or> en_health e \<or> en_logging e)"

definition offered :: "enabled \<Rightarrow> string list" where
  "offered e = (if en_geo e then [GEO] else []) @ (if en_health e then [HEALTH] else [])
     @ (if en_logging e then [LOGGING] else [])"

text \<open>What the caller does next: a frame to write, or a reading to supply.\<close>

datatype outgoing =
    Send (out_event: string) (out_payload: json)
  | NeedLocation
  | NeedHealth

subsection \<open>The state machine\<close>

record extensions =
  ext_enabled :: enabled
  attached :: "string list"
  ext_joined :: bool
  invited :: bool
  advertised :: "json_map option"

definition new_extensions :: "enabled \<Rightarrow> extensions" where
  "new_extensions e = \<lparr>ext_enabled = e, attached = [], ext_joined = False, invited = False,
     advertised = None\<rparr>"

definition on_invitation :: "json \<Rightarrow> extensions \<Rightarrow> extensions" where
  "on_invitation pl x = x\<lparr>invited := True,
     advertised := Option.bind (json_get pl ''extensions'') as_object\<rparr>"

definition version :: "extensions \<Rightarrow> string \<Rightarrow> string option" where
  "version x key =
     (let ours = implemented key
      in case advertised x of
          Some m \<Rightarrow> Option.bind (Option.bind (map_of m key) as_array)
            (\<lambda>theirs. List.find (\<lambda>v. JString v \<in> set theirs) ours)
        | None \<Rightarrow> (if ours = [] then None else Some (last ours)))"

definition is_attached :: "extensions \<Rightarrow> string \<Rightarrow> bool" where
  "is_attached x key = (key \<in> set (attached x))"

definition logging_batched :: "extensions \<Rightarrow> bool" where
  "logging_batched x = (is_attached x LOGGING \<and> version x LOGGING = Some LOGGING_BATCHED_VERSION)"

definition wanted :: "extensions \<Rightarrow> bool" where
  "wanted x = any_enabled (ext_enabled x)"

definition ext_join_params :: "extensions \<Rightarrow> json" where
  "ext_join_params x = jobj (List.map_filter
     (\<lambda>key. map_option (\<lambda>v. (key, jstr v)) (version x key)) (offered (ext_enabled x)))"

definition join_message :: "extensions \<Rightarrow> ref_generator \<Rightarrow> (string \<times> message) \<times> ref_generator" where
  "join_message x refs = (let (reference, refs') = next_ref refs
     in ((reference, new_message EXTENSIONS_TOPIC ''phx_join'' (ext_join_params x)), refs'))"

definition on_join_reply :: "json \<Rightarrow> extensions \<Rightarrow> outgoing list \<times> extensions" where
  "on_join_reply response x =
     (let keys = (case as_array response of
            None \<Rightarrow> [] | Some ks \<Rightarrow> List.map_filter as_str ks)
      in (map (\<lambda>key. Send (key @ '':attached'') (jobj [])) keys,
          x\<lparr>ext_joined := True, attached := keys\<rparr>))"

definition disconnected :: "extensions \<Rightarrow> extensions" where
  "disconnected x = x\<lparr>ext_joined := False, attached := [], invited := False, advertised := None\<rparr>"

definition on_event :: "extensions \<Rightarrow> string \<Rightarrow> outgoing list" where
  "on_event x ev =
     (if ev = ''geo:location:request'' \<and> is_attached x GEO then [NeedLocation]
      else if ev = ''health:check'' \<and> is_attached x HEALTH then [NeedHealth]
      else [])"

definition location_out :: "location option \<Rightarrow> outgoing list" where
  "location_out l = (case l of
      Some l \<Rightarrow> [Send ''geo:location:update'' (location_payload l)] | None \<Rightarrow> [])"

definition health_out :: "health_report \<Rightarrow> outgoing list" where
  "health_out r = [Send ''health:report'' (health_payload r)]"

definition log_out :: "extensions \<Rightarrow> log_line \<Rightarrow> outgoing list" where
  "log_out x l = (if \<not> is_attached x LOGGING then [] else [Send ''logging:send'' (line_json l)])"

definition logs_out :: "extensions \<Rightarrow> log_line list \<Rightarrow> outgoing list" where
  "logs_out x lines =
     (if lines = [] \<or> \<not> is_attached x LOGGING then []
      else if \<not> logging_batched x then concat (map (log_out x) lines)
      else [Send ''logging:send'' (batch_json lines)])"

definition log_batch :: "extensions \<Rightarrow> log_line list \<Rightarrow> log_line list option" where
  "log_batch x lines = (if lines \<noteq> [] \<and> logging_batched x then Some lines else None)"

lemma implemented_nonempty [simp]: "implemented key \<noteq> []"
  by (simp add: implemented_def)

lemma last_implemented [simp]: "last (implemented key) = EXTENSION_VERSION"
  by (simp add: implemented_def)

lemma version_advertised:
  assumes "advertised x = Some m"
  shows "version x key = Some v \<longleftrightarrow>
    (\<exists>theirs i. map_of m key = Some (JArray theirs) \<and> i < length (implemented key) \<and>
       v = implemented key ! i \<and> JString v \<in> set theirs \<and>
       (\<forall>j < i. JString (implemented key ! j) \<notin> set theirs))"
proof -
  have arr: "as_array j = Some ts \<longleftrightarrow> j = JArray ts" for j ts by (cases j) auto
  show ?thesis
    by (auto simp: version_def assms Let_def bind_eq_Some_conv find_Some_iff arr)
qed

lemma version_unadvertised: "advertised x = None \<Longrightarrow> version x key = Some EXTENSION_VERSION"
  by (simp add: version_def Let_def)

lemma ext_join_params_get:
  "json_get (ext_join_params x) key =
     (if key \<in> set (offered (ext_enabled x)) then map_option jstr (version x key) else None)"
proof -
  have dist: "distinct (offered e)" for e
    by (auto simp: offered_def extension_names)
  have "map_of (rev (List.map_filter (\<lambda>key. map_option (\<lambda>v. (key, jstr v)) (version x key)) ks)) key
      = (if key \<in> set ks then map_option jstr (version x key) else None)" if "distinct ks" for ks
    using that by (induction ks) (auto simp: List.map_filter_simps map_add_def split: option.splits)
  then show ?thesis using dist by (simp add: ext_join_params_def)
qed

lemma logs_out_unattached: "\<not> is_attached x LOGGING \<Longrightarrow> logs_out x lines = []"
  by (simp add: logs_out_def)

subsection \<open>Properties\<close>

text \<open>
  C33: a line written by the serializer that keeps no map, the next key found at each step by a
  pass over the pairs, is the line written from a sorted map of them in which the last value of a
  key wins, and its entry count is the map's size.
\<close>

theorem line_json_equivalent:
  "line_json l = line_map l \<and> meta_entries kvs None = obj_of kvs \<and>
   meta_distinct kvs = length (obj_of kvs)"
  by (simp add: line_json_line_map meta_entries_collects meta_distinct_entries)

text \<open>
  C36: what the extensions join asks for. It names only extensions the application enabled. To a
  server that advertised versions it offers, for each, the first of ours that the server listed
  too, and leaves the extension out when there is none; to one that did not, the version every
  server has.
\<close>

theorem join_offers:
  "json_get (ext_join_params x) key = Some v \<longleftrightarrow>
    key \<in> set (offered (ext_enabled x)) \<and>
    (case advertised x of
       None \<Rightarrow> v = jstr EXTENSION_VERSION
     | Some m \<Rightarrow> \<exists>theirs i. map_of m key = Some (JArray theirs) \<and> i < length (implemented key) \<and>
         v = jstr (implemented key ! i) \<and> JString (implemented key ! i) \<in> set theirs \<and>
         (\<nexists>j. j < i \<and> JString (implemented key ! j) \<in> set theirs))"
proof (cases "advertised x")
  case None
  then show ?thesis by (auto simp: ext_join_params_get version_unadvertised)
next
  case (Some m)
  have "map_option jstr (version x key) = Some v \<longleftrightarrow>
      (\<exists>theirs i. map_of m key = Some (JArray theirs) \<and> i < length (implemented key) \<and>
         v = jstr (implemented key ! i) \<and> JString (implemented key ! i) \<in> set theirs \<and>
         (\<nexists>j. j < i \<and> JString (implemented key ! j) \<in> set theirs))"
    using version_advertised [OF Some, of key] by (auto simp: jstr_def)
  then show ?thesis using Some by (simp add: ext_join_params_get)
qed

end
