(* ===== verification/Logging.thy ===== *)
theory Logging
  imports Extensions
begin

text \<open>
  \<open>src/logging.rs\<close>: the bounded queue between whatever logs and the agent that sends it.
  The queue is behind a lock, so each operation is one step, except \<open>take_stamped\<close>, which
  takes the lock twice: what other threads do in between is an argument of it. \<open>lb_poisoned\<close>
  says a thread panicked while holding the lock. The drop counter is a \<open>usize\<close> of the
  target, 32 bits, and wraps; lengths and byte counts are natural numbers.
\<close>

datatype level = Level_Error | Level_Warn | Level_Info | Level_Debug | Level_Trace

text \<open>\<open>log::Level as usize\<close>.\<close>

fun level_number :: "level \<Rightarrow> nat" where
  "level_number Level_Error = 1"
| "level_number Level_Warn = 2"
| "level_number Level_Info = 3"
| "level_number Level_Debug = 4"
| "level_number Level_Trace = 5"

text \<open>\<open>log::Level\<close>'s order: the more verbose is the greater.\<close>

instantiation level :: linorder
begin

definition less_eq_level :: "level \<Rightarrow> level \<Rightarrow> bool" where
  "less_eq_level a b \<longleftrightarrow> level_number a \<le> level_number b"

definition less_level :: "level \<Rightarrow> level \<Rightarrow> bool" where
  "less_level a b \<longleftrightarrow> level_number a < level_number b"

instance
proof
  fix a b :: level
  show "a = b" if "a \<le> b" and "b \<le> a"
    using that by (cases a; cases b; simp add: less_eq_level_def)
qed (auto simp: less_eq_level_def less_level_def)

end

fun level_name :: "level \<Rightarrow> string" where
  "level_name Level_Error = ''error''"
| "level_name Level_Warn = ''warning''"
| "level_name Level_Info = ''info''"
| "level_name Level_Debug = ''debug''"
| "level_name Level_Trace = ''debug''"

definition DEFAULT_CAPACITY :: nat where "DEFAULT_CAPACITY = 64"
definition DEFAULT_MAX_BYTES :: nat where "DEFAULT_MAX_BYTES = 8 * 1024"
definition PLAUSIBLE :: u64 where "PLAUSIBLE = 1577836800000000"

text \<open>\<open>since_epoch\<close> is what the system clock reads, \<open>None\<close> when before the epoch.\<close>

definition unix_micros :: "nat option \<Rightarrow> u64 option" where
  "unix_micros since_epoch = (case since_epoch of
      None \<Rightarrow> None
    | Some t \<Rightarrow> let micros = of_nat t in if PLAUSIBLE \<le> micros then Some micros else None)"

text \<open>
  A line as the queue holds it: what it says, the capacity of its strings together, and the
  capacity of its metadata, in pairs. The sizes of the two types are the compiler's.
\<close>

record held =
  held_line :: log_line
  held_strings :: nat
  held_slots :: nat

record layout =
  size_of_line :: nat
  size_of_pair :: nat

record log_buffer =
  lb_lines :: "held list"
  lb_bytes :: nat
  lb_poisoned :: bool
  lb_capacity :: nat
  lb_max_bytes :: nat
  lb_dropped :: usize
  lb_threshold :: nat

definition with_threshold :: "nat \<Rightarrow> level \<Rightarrow> log_buffer" where
  "with_threshold capacity threshold =
     \<lparr>lb_lines = [], lb_bytes = 0, lb_poisoned = False, lb_capacity = capacity,
      lb_max_bytes = DEFAULT_MAX_BYTES, lb_dropped = 0, lb_threshold = level_number threshold\<rparr>"

definition log_buffer_new :: "nat \<Rightarrow> log_buffer" where
  "log_buffer_new capacity = with_threshold capacity Level_Info"

definition set_max_bytes :: "nat \<Rightarrow> log_buffer \<Rightarrow> log_buffer" where
  "set_max_bytes n b = b\<lparr>lb_max_bytes := n\<rparr>"

definition buffer_level :: "log_buffer \<Rightarrow> level" where
  "buffer_level b =
     (if lb_threshold b = level_number Level_Error then Level_Error
      else if lb_threshold b = level_number Level_Warn then Level_Warn
      else if lb_threshold b = level_number Level_Info then Level_Info
      else if lb_threshold b = level_number Level_Debug then Level_Debug
      else Level_Trace)"

definition set_level :: "level \<Rightarrow> log_buffer \<Rightarrow> log_buffer" where
  "set_level l b = b\<lparr>lb_threshold := level_number l\<rparr>"

definition heap_cost :: "layout \<Rightarrow> held \<Rightarrow> nat" where
  "heap_cost L h = size_of_line L + held_slots h * size_of_pair L + held_strings h"

definition count_drop :: "log_buffer \<Rightarrow> log_buffer" where
  "count_drop b = b\<lparr>lb_dropped := lb_dropped b + 1\<rparr>"

definition push :: "layout \<Rightarrow> held \<Rightarrow> log_buffer \<Rightarrow> log_buffer" where
  "push L line b =
     (if lb_poisoned b then count_drop b
      else let cost = heap_cost L line in
        if lb_capacity b \<le> length (lb_lines b) \<or> lb_max_bytes b < lb_bytes b + cost
        then count_drop b
        else b\<lparr>lb_bytes := lb_bytes b + cost, lb_lines := lb_lines b @ [line]\<rparr>)"

definition has_room :: "layout \<Rightarrow> log_buffer \<Rightarrow> bool \<times> log_buffer" where
  "has_room L b =
     (let room = \<not> lb_poisoned b \<and> length (lb_lines b) < lb_capacity b \<and>
                 lb_bytes b + size_of_line L \<le> lb_max_bytes b
      in (room, if room then b else count_drop b))"

text \<open>\<open>Backlog::pop_front\<close>.\<close>

definition pop_front :: "layout \<Rightarrow> log_buffer \<Rightarrow> log_line option \<times> log_buffer" where
  "pop_front L b = (case lb_lines b of
      [] \<Rightarrow> (None, b)
    | h # rest \<Rightarrow> (Some (held_line h), b\<lparr>lb_lines := rest, lb_bytes := lb_bytes b - heap_cost L h\<rparr>))"

definition drop_note :: "usize \<Rightarrow> log_line" where
  "drop_note n = new_line ''warning''
     (dec_nat (unat n) @
      '' log lines were dropped: the device logged more than it keeps waiting to send'')"

definition pop :: "layout \<Rightarrow> log_buffer \<Rightarrow> log_line option \<times> log_buffer" where
  "pop L b =
     (if lb_poisoned b then (None, b)
      else (case pop_front L b of
          (Some line, b') \<Rightarrow> (Some line, b')
        | (None, b') \<Rightarrow>
            (if lb_dropped b' = 0 then None else Some (drop_note (lb_dropped b')),
             b'\<lparr>lb_dropped := 0\<rparr>)))"

definition stamp :: "log_line \<Rightarrow> u64 option \<Rightarrow> log_line" where
  "stamp line now_micros = (case (has_time line, now_micros) of
      (False, Some micros) \<Rightarrow> with_time micros line
    | _ \<Rightarrow> line)"

definition pop_stamped :: "layout \<Rightarrow> u64 option \<Rightarrow> log_buffer \<Rightarrow> log_line option \<times> log_buffer" where
  "pop_stamped L now_micros b = (case pop L b of
      (None, b') \<Rightarrow> (None, b')
    | (Some line, b') \<Rightarrow> (Some (stamp line now_micros), b'))"

text \<open>The time of the next line of a batch that holds \<open>n\<close> already.\<close>

definition batch_time :: "u64 option \<Rightarrow> nat \<Rightarrow> u64 option" where
  "batch_time now_micros n = map_option (\<lambda>t. t + of_nat n) now_micros"

text \<open>
  The \<open>while\<close> loop under the first lock. The flag is the early \<open>return\<close> at the byte
  budget, after which no note follows.
\<close>

fun take_lines ::
  "layout \<Rightarrow> nat \<Rightarrow> nat \<Rightarrow> u64 option \<Rightarrow> log_line list \<Rightarrow> nat \<Rightarrow> held list \<Rightarrow> nat
     \<Rightarrow> log_line list \<times> held list \<times> nat \<times> bool" where
  "take_lines L max_lines max_bytes now batch bytes [] held_bytes = (batch, [], held_bytes, False)"
| "take_lines L max_lines max_bytes now batch bytes (nxt # rest) held_bytes =
     (if length batch < max_lines then
        let size' = approximate_json_len (held_line nxt) in
        if batch \<noteq> [] \<and> max_bytes < bytes + size' then (batch, nxt # rest, held_bytes, True)
        else take_lines L max_lines max_bytes now
               (batch @ [stamp (held_line nxt) (batch_time now (length batch))])
               (bytes + size') rest (held_bytes - heap_cost L nxt)
      else (batch, nxt # rest, held_bytes, False))"

definition take_stamped ::
  "layout \<Rightarrow> nat \<Rightarrow> nat \<Rightarrow> u64 option \<Rightarrow> (log_buffer \<Rightarrow> log_buffer) \<Rightarrow> log_buffer
     \<Rightarrow> log_line list \<times> log_buffer" where
  "take_stamped L max_lines max_bytes now_micros between b =
     (if lb_poisoned b then ([], b)
      else (case take_lines L max_lines max_bytes now_micros [] 0 (lb_lines b) (lb_bytes b) of
        (batch, lines, bytes, full) \<Rightarrow>
          let b = b\<lparr>lb_lines := lines, lb_bytes := bytes\<rparr> in
          if full then (batch, b)
          else if length batch < max_lines then
            (case pop L (between b) of
                (Some nt, b') \<Rightarrow> (batch @ [stamp nt (batch_time now_micros (length batch))], b')
              | (None, b') \<Rightarrow> (batch, b'))
          else (batch, b)))"

definition buffer_len :: "log_buffer \<Rightarrow> nat" where
  "buffer_len b = (if lb_poisoned b then 0 else length (lb_lines b))"

definition buffer_bytes :: "log_buffer \<Rightarrow> nat" where
  "buffer_bytes b = (if lb_poisoned b then 0 else lb_bytes b)"

definition buffer_is_empty :: "log_buffer \<Rightarrow> bool" where
  "buffer_is_empty b = (buffer_len b = 0)"

definition dropped :: "log_buffer \<Rightarrow> usize" where
  "dropped b = lb_dropped b"

text \<open>
  \<open>Capture::log\<close>, after the console has its copy: \<open>record\<close> as its level, text and
  target, \<open>clock\<close> the system clock and \<open>alloc\<close> the capacities the new line is built
  with. \<open>between\<close> is what other threads do between the question and the push.
\<close>

definition capture_log ::
  "layout \<Rightarrow> nat option \<Rightarrow> (log_line \<Rightarrow> held) \<Rightarrow> (log_buffer \<Rightarrow> log_buffer)
     \<Rightarrow> level \<Rightarrow> string \<Rightarrow> string \<Rightarrow> log_buffer \<Rightarrow> log_buffer" where
  "capture_log L clock alloc between lvl text target b =
     (if buffer_level b < lvl then b
      else case has_room L b of
          (False, b') \<Rightarrow> b'
        | (True, b') \<Rightarrow>
            let line = line_meta ''target'' target (new_line (level_name lvl) text);
                line = (case unix_micros clock of Some micros \<Rightarrow> with_time micros line | None \<Rightarrow> line)
            in push L (alloc line) (between b'))"

subsection \<open>A batch\<close>

text \<open>What the lock's first holding takes: \<open>k\<close> lines from the front, stamped in order.\<close>

definition json_lens :: "held list \<Rightarrow> nat" where
  "json_lens hs = sum_list (map (approximate_json_len \<circ> held_line) hs)"

definition heap_costs :: "layout \<Rightarrow> held list \<Rightarrow> nat" where
  "heap_costs L hs = sum_list (map (heap_cost L) hs)"

definition stamped_from :: "u64 option \<Rightarrow> nat \<Rightarrow> log_line list \<Rightarrow> log_line list" where
  "stamped_from now n ls = map (\<lambda>i. stamp (ls ! i) (batch_time now (n + i))) [0..<length ls]"

lemma stamped_from_Nil [simp]: "stamped_from now n [] = []"
  by (simp add: stamped_from_def)

lemma stamped_from_Cons [simp]:
  "stamped_from now n (l # ls) = stamp l (batch_time now n) # stamped_from now (Suc n) ls"
  by (simp add: stamped_from_def upt_conv_Cons map_Suc_upt [symmetric] del: upt_Suc)

lemma length_stamped_from [simp]: "length (stamped_from now n ls) = length ls"
  by (simp add: stamped_from_def)

lemma take_lines_takes:
  assumes "take_lines L ml mb now batch bytes lines hb = (batch', lines', hb', full)"
  shows "\<exists>k \<le> length lines. lines' = drop k lines
    \<and> batch' = batch @ stamped_from now (length batch) (map held_line (take k lines))
    \<and> hb' = hb - heap_costs L (take k lines)
    \<and> (full \<longrightarrow> k < length lines \<and> length batch' < ml \<and> batch' \<noteq> []
          \<and> mb < bytes + json_lens (take (Suc k) lines))
    \<and> (\<not> full \<longrightarrow> ml \<le> length batch' \<or> k = length lines)
    \<and> (0 < k \<longrightarrow> length batch' \<le> ml)
    \<and> (0 < k \<longrightarrow> \<not> (batch = [] \<and> k = 1) \<longrightarrow> bytes + json_lens (take k lines) \<le> mb)"
  using assms
proof (induction L ml mb now batch bytes lines hb rule: take_lines.induct)
  case (1 L ml mb now batch bytes hb)
  then show ?case by (simp add: heap_costs_def)
next
  case (2 L ml mb now batch bytes nxt rest hb)
  let ?size = "approximate_json_len (held_line nxt)"
  let ?l = "stamp (held_line nxt) (batch_time now (length batch))"
  consider "\<not> length batch < ml"
    | "length batch < ml" "batch \<noteq> []" "mb < bytes + ?size"
    | "length batch < ml" "\<not> (batch \<noteq> [] \<and> mb < bytes + ?size)" by blast
  then show ?case
  proof cases
    case 1
    then show ?thesis using 2(2) by (intro exI [of _ 0]) (auto simp: heap_costs_def)
  next
    case 2
    then show ?thesis using "2.prems"
      by (intro exI [of _ 0]) (auto simp: heap_costs_def json_lens_def)
  next
    case 3
    then have rest: "take_lines L ml mb now (batch @ [?l]) (bytes + ?size) rest (hb - heap_cost L nxt)
        = (batch', lines', hb', full)"
      using "2.prems" by (simp add: Let_def split: if_splits)
    from "2.IH" [OF 3(1) refl 3(2) rest]
    obtain k where k: "k \<le> length rest" "lines' = drop k rest"
        "batch' = (batch @ [?l]) @ stamped_from now (length (batch @ [?l])) (map held_line (take k rest))"
        "hb' = hb - heap_cost L nxt - heap_costs L (take k rest)"
      and full: "full \<longrightarrow> k < length rest \<and> length batch' < ml \<and> batch' \<noteq> []
          \<and> mb < bytes + ?size + json_lens (take (Suc k) rest)"
      and more: "\<not> full \<longrightarrow> ml \<le> length batch' \<or> k = length rest"
      and len: "0 < k \<longrightarrow> length batch' \<le> ml"
      and fits0: "0 < k \<longrightarrow> \<not> (batch @ [?l] = [] \<and> k = 1) \<longrightarrow>
          bytes + ?size + json_lens (take k rest) \<le> mb"
      by (elim exE conjE) (rule that)
    have fits: "0 < k \<Longrightarrow> bytes + ?size + json_lens (take k rest) \<le> mb" using fits0 by simp
    have "length batch' \<le> ml"
      using len k(3) 3(1) by (cases "k = 0") simp_all
    moreover have "bytes + json_lens (take (Suc k) (nxt # rest)) \<le> mb" if "\<not> (batch = [] \<and> Suc k = 1)"
    proof (cases "k = 0")
      case True
      then have "batch \<noteq> []" using that by simp
      then show ?thesis using True 3(2) by (simp add: json_lens_def)
    next
      case False
      then show ?thesis using fits by (simp add: json_lens_def)
    qed
    ultimately show ?thesis
      using k full more
      by (intro exI [of _ "Suc k"] conjI) (simp_all add: heap_costs_def json_lens_def add.assoc)
  qed
qed

text \<open>The note follows only the lines that empty the backlog.\<close>

definition note_lines :: "log_line option \<Rightarrow> log_line list" where
  "note_lines nt = (case nt of None \<Rightarrow> [] | Some l \<Rightarrow> [l])"

lemma stamped_from_append:
  "stamped_from now n (xs @ ys) = stamped_from now n xs @ stamped_from now (n + length xs) ys"
  by (induction xs arbitrary: n) simp_all

lemma pop_run:
  "pop L c = (if lb_poisoned c then (None, c) else case lb_lines c of
      h # rest \<Rightarrow> (Some (held_line h), c\<lparr>lb_lines := rest, lb_bytes := lb_bytes c - heap_cost L h\<rparr>)
    | [] \<Rightarrow> (if lb_dropped c = 0 then None else Some (drop_note (lb_dropped c)), c\<lparr>lb_dropped := 0\<rparr>))"
  by (simp add: pop_def pop_front_def split: list.split)

lemma take_stamped_batch:
  assumes "take_stamped L ml mb now between b = (batch, b')" and "\<not> lb_poisoned b"
  shows "\<exists>k nt. let b0 = b\<lparr>lb_lines := drop k (lb_lines b), lb_bytes := lb_bytes b - heap_costs L (take k (lb_lines b))\<rparr> in
    k \<le> length (lb_lines b)
    \<and> batch = stamped_from now 0 (map held_line (take k (lb_lines b)) @ note_lines nt)
    \<and> length batch \<le> ml
    \<and> (1 < k \<longrightarrow> json_lens (take k (lb_lines b)) \<le> mb)
    \<and> (k < length (lb_lines b) \<longrightarrow> k = ml \<or> (0 < k \<and> mb < json_lens (take (Suc k) (lb_lines b))))
    \<and> (if k = length (lb_lines b) \<and> k < ml then pop L (between b0) = (nt, b') else nt = None \<and> b' = b0)"
proof -
  obtain batch0 lines bytes full where
    take: "take_lines L ml mb now [] 0 (lb_lines b) (lb_bytes b) = (batch0, lines, bytes, full)"
    by (metis prod_cases4)
  from take_lines_takes [OF take]
  obtain k where K: "k \<le> length (lb_lines b)" "lines = drop k (lb_lines b)"
      "batch0 = [] @ stamped_from now (length ([] :: log_line list)) (map held_line (take k (lb_lines b)))"
      "bytes = lb_bytes b - heap_costs L (take k (lb_lines b))"
    and full: "full \<longrightarrow> k < length (lb_lines b) \<and> length batch0 < ml \<and> batch0 \<noteq> []
          \<and> mb < 0 + json_lens (take (Suc k) (lb_lines b))"
    and more: "\<not> full \<longrightarrow> ml \<le> length batch0 \<or> k = length (lb_lines b)"
    and len: "0 < k \<longrightarrow> length batch0 \<le> ml"
    and fits: "0 < k \<longrightarrow> \<not> (([] :: log_line list) = [] \<and> k = 1) \<longrightarrow> 0 + json_lens (take k (lb_lines b)) \<le> mb"
    by (elim exE conjE) (rule that)
  let ?b = "b\<lparr>lb_lines := drop k (lb_lines b), lb_bytes := lb_bytes b - heap_costs L (take k (lb_lines b))\<rparr>"
  have batch0: "batch0 = stamped_from now 0 (map held_line (take k (lb_lines b)))" using K(3) by simp
  have k: "length batch0 = k" "k \<le> ml" "k \<le> length (lb_lines b)" using batch0 K(1) len by (cases "k = 0"; simp)+
  have second: "\<not> full \<and> k < ml \<longleftrightarrow> k = length (lb_lines b) \<and> k < ml" using full more k by auto
  have stops: "k < length (lb_lines b) \<longrightarrow> k = ml \<or> (0 < k \<and> mb < json_lens (take (Suc k) (lb_lines b)))"
    using full more k batch0 by (cases full; cases "k = 0") auto
  have fits1: "1 < k \<longrightarrow> json_lens (take k (lb_lines b)) \<le> mb" using fits by simp
  have run: "take_stamped L ml mb now between b =
      (if k = length (lb_lines b) \<and> k < ml
       then (case pop L (between ?b) of
           (Some nt, b') \<Rightarrow> (batch0 @ [stamp nt (batch_time now k)], b')
         | (None, b') \<Rightarrow> (batch0, b'))
       else (batch0, ?b))"
    using assms(2) take K k second by (auto simp: take_stamped_def Let_def split: prod.split option.split)
  show ?thesis
  proof (cases "k = length (lb_lines b) \<and> k < ml")
    case True
    obtain nt b1 where pop: "pop L (between ?b) = (nt, b1)" by fastforce
    have "batch = stamped_from now 0 (map held_line (take k (lb_lines b)) @ note_lines nt) \<and> b' = b1 \<and> length batch \<le> ml"
      using run assms(1) True pop batch0 k by (cases nt) (auto simp: stamped_from_append note_lines_def)
    then show ?thesis
      using True pop fits1 by (intro exI [of _ k] exI [of _ nt]) (auto simp: Let_def)
  next
    case False
    then have "batch = batch0 \<and> b' = ?b" using assms(1) unfolding run by (simp only: if_False) simp
    then show ?thesis
      using False batch0 k stops fits1 by (intro exI [of _ k] exI [of _ None]) (auto simp: Let_def note_lines_def)
  qed
qed

text \<open>The times a batch stamps are strictly increasing, short of the year 586912.\<close>

lemma batch_time_less:
  assumes "i < j" and "unat t + j < 2 ^ 64"
  shows "\<exists>a c. batch_time (Some t) i = Some a \<and> batch_time (Some t) j = Some c \<and> a < c"
proof -
  have "unat (t + of_nat n) = unat t + n" if "unat t + n < 2 ^ 64" for n
    using that by (simp add: unat_word_ariths unat_of_nat take_bit_eq_mod)
  then show ?thesis using assms by (simp add: batch_time_def word_less_nat_alt)
qed

lemma nth_stamped_from:
  "i < length ls \<Longrightarrow> stamped_from now n ls ! i = stamp (ls ! i) (batch_time now (n + i))"
  by (simp add: stamped_from_def)

lemma stamped_times_increase:
  assumes "i < j" and "j < length ls" and "unat t + j < 2 ^ 64" and "\<not> has_time (ls ! i)" and "\<not> has_time (ls ! j)"
  shows "\<exists>x y. x < y \<and> stamped_from (Some t) 0 ls ! i = with_time x (ls ! i) \<and>
    stamped_from (Some t) 0 ls ! j = with_time y (ls ! j)"
proof -
  from batch_time_less [OF assms(1,3)] obtain x y where
    "batch_time (Some t) i = Some x" "batch_time (Some t) j = Some y" "x < y" by blast
  then show ?thesis using assms by (intro exI [of _ x] exI [of _ y]) (simp add: nth_stamped_from stamp_def)
qed

subsection \<open>What the buffer never exceeds\<close>

text \<open>
  The operations of the shared buffer, as any thread may interleave them; \<open>Op_Take\<close> has the
  operations of the other threads between its two holdings of the lock.
\<close>

datatype log_op =
    Op_Push held
  | Op_HasRoom
  | Op_Pop
  | Op_Take nat nat "u64 option" "log_op list"
  | Op_SetLevel level
  | Op_Poison

fun log_step :: "layout \<Rightarrow> log_op \<Rightarrow> log_buffer \<Rightarrow> log_buffer"
  and log_steps :: "layout \<Rightarrow> log_op list \<Rightarrow> log_buffer \<Rightarrow> log_buffer" where
  "log_step L (Op_Push h) b = push L h b"
| "log_step L Op_HasRoom b = snd (has_room L b)"
| "log_step L Op_Pop b = snd (pop L b)"
| "log_step L (Op_Take ml mb now ops) b = snd (take_stamped L ml mb now (\<lambda>c. log_steps L ops c) b)"
| "log_step L (Op_SetLevel l) b = set_level l b"
| "log_step L Op_Poison b = b\<lparr>lb_poisoned := True\<rparr>"
| "log_steps L [] b = b"
| "log_steps L (op # ops) b = log_steps L ops (log_step L op b)"

text \<open>The bound, and that the byte count is what the held lines cost.\<close>

definition buffer_ok :: "layout \<Rightarrow> log_buffer \<Rightarrow> bool" where
  "buffer_ok L b \<longleftrightarrow>
     length (lb_lines b) \<le> lb_capacity b \<and> lb_bytes b \<le> lb_max_bytes b \<and>
     lb_bytes b = heap_costs L (lb_lines b)"

lemma buffer_ok_new: "buffer_ok L (with_threshold capacity threshold)"
  by (simp add: buffer_ok_def with_threshold_def heap_costs_def)

lemma buffer_ok_count_drop [simp]: "buffer_ok L (count_drop b) = buffer_ok L b"
  by (simp add: buffer_ok_def count_drop_def)

lemma buffer_ok_push: "buffer_ok L b \<Longrightarrow> buffer_ok L (push L h b)"
  by (auto simp: buffer_ok_def push_def Let_def count_drop_def heap_costs_def)

lemma buffer_ok_pop: "buffer_ok L b \<Longrightarrow> buffer_ok L (snd (pop L b))"
  by (auto simp: buffer_ok_def pop_def pop_front_def heap_costs_def split: list.splits)

lemma heap_costs_drop: "heap_costs L hs - heap_costs L (take k hs) = heap_costs L (drop k hs)"
proof -
  have "heap_costs L hs = heap_costs L (take k hs @ drop k hs)" by simp
  then show ?thesis
    unfolding heap_costs_def map_append sum_list_append by (simp only: diff_add_inverse)
qed

lemma buffer_ok_take:
  assumes "buffer_ok L b" and between: "\<And>b. buffer_ok L b \<Longrightarrow> buffer_ok L (between b)"
  shows "buffer_ok L (snd (take_stamped L ml mb now between b))"
proof -
  obtain batch lines bytes full where
    take: "take_lines L ml mb now [] 0 (lb_lines b) (lb_bytes b) = (batch, lines, bytes, full)"
    by (metis prod_cases4)
  from take_lines_takes [OF take] obtain k where
    "lines = drop k (lb_lines b)" "bytes = lb_bytes b - heap_costs L (take k (lb_lines b))"
    by (elim exE conjE) (rule that)
  moreover have "heap_costs L (lb_lines b) - heap_costs L (take k (lb_lines b)) \<le> heap_costs L (lb_lines b)"
    by simp
  ultimately have "buffer_ok L (b\<lparr>lb_lines := lines, lb_bytes := bytes\<rparr>)"
    using assms(1) unfolding buffer_ok_def
    by (simp add: heap_costs_drop) linarith
  then show ?thesis
    using assms(1) between take buffer_ok_pop [OF between]
    by (auto simp: take_stamped_def Let_def split: option.splits prod.splits) (metis snd_conv)+
qed

lemma buffer_ok_steps:
  "buffer_ok L b \<Longrightarrow> buffer_ok L (log_step L op b)"
  "buffer_ok L b \<Longrightarrow> buffer_ok L (log_steps L ops b)"
proof (induction L op b and L ops b rule: log_step_log_steps.induct)
  case (4 L ml mb now ops b)
  then show ?case by (simp add: buffer_ok_take)
next
  case (5 L l b)
  then show ?case by (simp add: buffer_ok_def set_level_def)
next
  case (6 L b)
  then show ?case by (simp add: buffer_ok_def)
qed (simp_all add: buffer_ok_push buffer_ok_pop has_room_def Let_def)

interpretation log_ops: preserved "log_step L" "buffer_ok L"
  by unfold_locales (rule buffer_ok_steps)

subsection \<open>What becomes of every line\<close>

text \<open>
  The operations as they are under the lock, a batch's two holdings apart, with a ledger kept beside
  the buffer: how many lines were offered, a line \<open>has_room\<close> refused before it was formatted
  included; how many came out; and the notes of lines lost.
\<close>

datatype queue_op = Q_HasRoom | Q_Push held | Q_Lines nat nat "u64 option" | Q_Pop | Q_Poison

record ledger =
  lg_buffer :: log_buffer
  lg_offered :: nat
  lg_delivered :: nat
  lg_notes :: "log_line list"

definition ledger_start :: "nat \<Rightarrow> level \<Rightarrow> ledger" where
  "ledger_start capacity threshold =
     \<lparr>lg_buffer = with_threshold capacity threshold, lg_offered = 0, lg_delivered = 0, lg_notes = []\<rparr>"

fun ledger_step :: "layout \<Rightarrow> queue_op \<Rightarrow> ledger \<Rightarrow> ledger" where
  "ledger_step L Q_HasRoom g = (case has_room L (lg_buffer g) of (room, b) \<Rightarrow>
     g\<lparr>lg_buffer := b, lg_offered := lg_offered g + (if room then 0 else 1)\<rparr>)"
| "ledger_step L (Q_Push h) g = g\<lparr>lg_buffer := push L h (lg_buffer g), lg_offered := lg_offered g + 1\<rparr>"
| "ledger_step L (Q_Lines ml mb now) g = (let b = lg_buffer g in
     if lb_poisoned b then g
     else case take_lines L ml mb now [] 0 (lb_lines b) (lb_bytes b) of (batch, lines, bytes, full) \<Rightarrow>
       g\<lparr>lg_buffer := b\<lparr>lb_lines := lines, lb_bytes := bytes\<rparr>, lg_delivered := lg_delivered g + length batch\<rparr>)"
| "ledger_step L Q_Pop g = (case pop L (lg_buffer g) of
     (None, b) \<Rightarrow> g\<lparr>lg_buffer := b\<rparr>
   | (Some l, b) \<Rightarrow> if lb_lines (lg_buffer g) = [] then g\<lparr>lg_buffer := b, lg_notes := lg_notes g @ [l]\<rparr>
       else g\<lparr>lg_buffer := b, lg_delivered := lg_delivered g + 1\<rparr>)"
| "ledger_step L Q_Poison g = g\<lparr>lg_buffer := (lg_buffer g)\<lparr>lb_poisoned := True\<rparr>\<rparr>"

text \<open>The books balance: each line offered came out, waits, or is in one count. The counter wraps.\<close>

definition balanced :: "ledger \<Rightarrow> bool" where
  "balanced g \<longleftrightarrow> (\<exists>ns. lg_notes g = map drop_note ns \<and>
     of_nat (lg_offered g) =
       of_nat (lg_delivered g + length (lb_lines (lg_buffer g))) + sum_list ns + lb_dropped (lg_buffer g))"

lemma balanced_step: "balanced g \<Longrightarrow> balanced (ledger_step L op g)"
proof -
  assume "balanced g"
  then obtain ns where ns: "lg_notes g = map drop_note ns"
    "of_nat (lg_offered g) =
       of_nat (lg_delivered g + length (lb_lines (lg_buffer g))) + sum_list ns + lb_dropped (lg_buffer g)"
    by (auto simp: balanced_def)
  let ?b = "lg_buffer g"
  show "balanced (ledger_step L op g)"
  proof (cases op)
    case Q_HasRoom
    then show ?thesis using ns by (auto simp: balanced_def has_room_def count_drop_def Let_def ac_simps)
  next
    case (Q_Push h)
    then show ?thesis using ns by (auto simp: balanced_def push_def count_drop_def Let_def ac_simps)
  next
    case (Q_Lines ml mb now)
    obtain batch lines bytes full where
      take: "take_lines L ml mb now [] 0 (lb_lines ?b) (lb_bytes ?b) = (batch, lines, bytes, full)"
      by (metis prod_cases4)
    from take_lines_takes [OF take] have "length batch + length lines = length (lb_lines ?b)" by auto
    then show ?thesis
      using ns Q_Lines take by (auto simp: balanced_def Let_def simp flip: of_nat_add intro!: exI [of _ ns]) (simp add: ac_simps)
  next
    case Q_Pop
    have "sum_list (ns @ [n]) = sum_list ns + n" for n by simp
    then show ?thesis
      using ns Q_Pop
      by (cases "lb_poisoned ?b"; cases "lb_lines ?b"; cases "lb_dropped ?b = 0")
        (auto simp: balanced_def pop_run ac_simps intro: exI [of _ ns] exI [of _ "ns @ [lb_dropped ?b]"])
  next
    case Q_Poison
    then show ?thesis using ns by (auto simp: balanced_def)
  qed
qed

interpretation books: preserved "ledger_step L" balanced
  by unfold_locales (rule balanced_step)

lemma balanced_start: "balanced (ledger_start capacity threshold)"
  by (simp add: balanced_def ledger_start_def with_threshold_def)

text \<open>What has room, and that \<open>has_room\<close> never refuses what \<open>push\<close> would take.\<close>

definition fits :: "layout \<Rightarrow> held \<Rightarrow> log_buffer \<Rightarrow> bool" where
  "fits L h b \<longleftrightarrow> \<not> lb_poisoned b \<and> length (lb_lines b) < lb_capacity b \<and>
     lb_bytes b + heap_cost L h \<le> lb_max_bytes b"

lemma push_fits: "lb_lines (push L h b) = (if fits L h b then lb_lines b @ [h] else lb_lines b)"
  by (auto simp: push_def fits_def count_drop_def Let_def)

lemma fits_has_room: "fits L h b \<Longrightarrow> fst (has_room L b)"
  by (auto simp: has_room_def fits_def Let_def heap_cost_def)

subsection \<open>Properties\<close>

text \<open>
  C25: whatever the threads that log and the agent do to the shared buffer, in any order, also
  between a batch's two holdings of the lock, it never holds more lines than its capacity nor more
  bytes than its limit, and its byte count is exactly what the lines it holds cost.
\<close>

theorem log_buffer_bounded:
  "buffer_ok L (fold (log_step L) ops (with_threshold capacity threshold))"
  by (rule log_ops.run_inv [OF buffer_ok_new])


text \<open>Three lines offered to a buffer of two; then all is taken, and the note says one was lost.\<close>

definition demo_line :: held where
  "demo_line = \<lparr>held_line = new_line ''info'' ''up'', held_strings = 9, held_slots = 0\<rparr>"


text \<open>
  C26: a batch for the link is the oldest lines of the buffer in their order, as many as its limits
  allow and no more: at most so many lines, and so many bytes by the library's estimate, unless the
  first is over that by itself. Those lines, and nothing else, are gone from the buffer. Only a batch
  that emptied the buffer and has room is followed by one thing more, from the buffer as the other
  threads have left it then: the oldest line that came in, or, when none did, the note with the
  number of lines lost, whose count starts again. Of the lines that had no time of their own, each is
  stamped with a later one than those before it.
\<close>

theorem batch_is_oldest_lines:
  assumes "take_stamped L ml mb now between b = (batch, b')" and "\<not> lb_poisoned b"
  shows "\<exists>k nt src b0 c.
    b0 = b\<lparr>lb_lines := drop k (lb_lines b), lb_bytes := lb_bytes b - heap_costs L (take k (lb_lines b))\<rparr> \<and>
    c = between b0 \<and> src = map held_line (take k (lb_lines b)) @ note_lines nt \<and>
    batch = stamped_from now 0 src \<and> length batch \<le> ml \<and> k \<le> length (lb_lines b) \<and>
    (1 < k \<longrightarrow> json_lens (take k (lb_lines b)) \<le> mb) \<and>
    (k < length (lb_lines b) \<longrightarrow> k = ml \<or> (0 < k \<and> mb < json_lens (take (Suc k) (lb_lines b)))) \<and>
    (if k = length (lb_lines b) \<and> k < ml
     then (nt, b') = (if lb_poisoned c then (None, c) else case lb_lines c of
         h # rest \<Rightarrow> (Some (held_line h), c\<lparr>lb_lines := rest, lb_bytes := lb_bytes c - heap_cost L h\<rparr>)
       | [] \<Rightarrow> (if lb_dropped c = 0 then None else Some (drop_note (lb_dropped c)), c\<lparr>lb_dropped := 0\<rparr>))
     else nt = None \<and> b' = b0) \<and>
    (\<forall>t i j. now = Some t \<and> i < j \<and> j < length batch \<and> unat t + j < 2 ^ 64 \<and>
        \<not> has_time (src ! i) \<and> \<not> has_time (src ! j) \<longrightarrow>
      (\<exists>x y. x < y \<and> batch ! i = with_time x (src ! i) \<and> batch ! j = with_time y (src ! j)))"
proof -
  from take_stamped_batch [OF assms] obtain k nt where
    k: "k \<le> length (lb_lines b)"
      "batch = stamped_from now 0 (map held_line (take k (lb_lines b)) @ note_lines nt)"
      "length batch \<le> ml" "1 < k \<longrightarrow> json_lens (take k (lb_lines b)) \<le> mb"
      "k < length (lb_lines b) \<longrightarrow> k = ml \<or> (0 < k \<and> mb < json_lens (take (Suc k) (lb_lines b)))"
    and rest0: "if k = length (lb_lines b) \<and> k < ml
      then pop L (between (b\<lparr>lb_lines := drop k (lb_lines b), lb_bytes := lb_bytes b - heap_costs L (take k (lb_lines b))\<rparr>)) = (nt, b')
      else nt = None \<and> b' = b\<lparr>lb_lines := drop k (lb_lines b), lb_bytes := lb_bytes b - heap_costs L (take k (lb_lines b))\<rparr>"
    unfolding Let_def by blast
  let ?src = "map held_line (take k (lb_lines b)) @ note_lines nt"
  note rest = rest0 [unfolded eq_commute [of "pop _ _"], unfolded pop_run]
  have times: "\<forall>t i j. now = Some t \<and> i < j \<and> j < length batch \<and> unat t + j < 2 ^ 64 \<and>
        \<not> has_time (?src ! i) \<and> \<not> has_time (?src ! j) \<longrightarrow>
      (\<exists>x y. x < y \<and> batch ! i = with_time x (?src ! i) \<and> batch ! j = with_time y (?src ! j))"
    using stamped_times_increase [of _ _ ?src] unfolding k(2) length_stamped_from by blast
  show ?thesis
    by (rule exI [of _ k], rule exI [of _ nt], intro exI conjI)
      (rule refl, rule refl, rule refl, rule k(2), rule k(3), rule k(1), rule k(4), rule k(5), rule rest, rule times)
qed

definition demo_buffer :: log_buffer where
  "demo_buffer = (with_threshold 4 Level_Info)\<lparr>lb_lines := map (\<lambda>m.
     \<lparr>held_line = new_line ''info'' m, held_strings = 9, held_slots = 0\<rparr>) [''up'', ''on'', ''ok'']\<rparr>"

theorem batch_is_oldest_lines_witness:
  "length (fst (take_stamped \<lparr>size_of_line = 80, size_of_pair = 24\<rparr> 2 3000 (Some 5) id demo_buffer)) = 2"
proof -
  let ?L = "\<lparr>size_of_line = 80, size_of_pair = 24\<rparr>"
  have run: "fst (take_stamped ?L 2 3000 (Some 5) id demo_buffer) =
      stamped_from (Some 5) 0 (map held_line (take 2 (lb_lines demo_buffer)))"
    by (simp add: take_stamped_def demo_buffer_def with_threshold_def Let_def approximate_json_len_def
        new_line_def meta_distinct_card numeral_2_eq_2 json_lens_def)
  obtain b' where "take_stamped ?L 2 3000 (Some 5) id demo_buffer =
      (stamped_from (Some 5) 0 (map held_line (take 2 (lb_lines demo_buffer))), b')"
    using run by (metis prod.collapse)
  then obtain k where "length (fst (take_stamped ?L 2 3000 (Some 5) id demo_buffer)) \<le> 2"
    using batch_is_oldest_lines [of ?L 2 3000 "Some 5" id demo_buffer] by (force simp: demo_buffer_def with_threshold_def)
  then show ?thesis unfolding run by (simp add: demo_buffer_def)
qed

end
