(* ===== verification/Metadata.thy ===== *)
theory Metadata
  imports Json Utf8 Errors
begin

text \<open>
  \<open>src/metadata.rs\<close>: what the device tells NervesHub about the firmware it runs, and
  \<open>src/checksum.rs\<close>: the SHA-256 an update is checked against. The hash itself (the
  \<open>sha2\<close> crate) is a parameter, and so are the three ESP-IDF calls the running image is read
  through.
\<close>

record firmware_metadata =
  fm_project_name :: string
  fm_version :: string
  fm_app_elf_sha256 :: string
  fm_idf_ver :: string
  fm_chip_id :: u16

definition chip_name :: "u16 \<Rightarrow> string option" where
  "chip_name chip_id =
     (if chip_id = 0x0000 then Some ''esp32''
      else if chip_id = 0x0002 then Some ''esp32s2''
      else if chip_id = 0x0005 then Some ''esp32c3''
      else if chip_id = 0x0009 then Some ''esp32s3''
      else if chip_id = 0x000C then Some ''esp32c2''
      else if chip_id = 0x000D then Some ''esp32c6''
      else if chip_id = 0x0010 then Some ''esp32h2''
      else if chip_id = 0x0012 then Some ''esp32p4''
      else if chip_id = 0x0017 then Some ''esp32c5''
      else None)"

record boot_report =
  firmware_validated :: bool
  firmware_auto_revert_detected :: bool

definition boot_report_payload :: "boot_report \<Rightarrow> json" where
  "boot_report_payload boot = jobj
     [(''firmware_validated'', JBool (firmware_validated boot)),
      (''firmware_auto_revert_detected'', JBool (firmware_auto_revert_detected boot))]"

definition join_params ::
    "firmware_metadata \<Rightarrow> string \<Rightarrow> string option \<Rightarrow> boot_report \<Rightarrow> json" where
  "join_params fm device_api_version currently_downloading_uuid boot =
     (let params = jobj
        [(''device_api_version'', jstr device_api_version),
         (''update_tool'', jstr ''esp-idf''),
         (''esp_idf_project_name'', jstr (fm_project_name fm)),
         (''esp_idf_version'', jstr (fm_version fm)),
         (''esp_idf_app_elf_sha256'', jstr (fm_app_elf_sha256 fm)),
         (''esp_idf_ver'', jstr (fm_idf_ver fm)),
         (''esp_idf_chip_id'', jint (ucast (fm_chip_id fm)))];
        params = (case currently_downloading_uuid of
            Some uuid \<Rightarrow> json_set params ''currently_downloading_uuid'' (jstr uuid)
          | None \<Rightarrow> params)
      in json_set params ''meta'' (boot_report_payload boot))"

subsection \<open>The running image\<close>

text \<open>\<open>esp_app_desc_t\<close>, as fixed byte arrays, and the calls that reach it.\<close>

record app_desc =
  desc_project_name :: string
  desc_version :: string
  desc_app_elf_sha256 :: bytes
  desc_idf_ver :: string

record 'partition image_calls =
  esp_app_get_description :: "app_desc option"
  esp_ota_get_running_partition :: "'partition option"
  esp_partition_read :: "'partition \<Rightarrow> nat \<Rightarrow> nat \<Rightarrow> bytes option"

text \<open>\<open>u16::from_le_bytes\<close>.\<close>

definition u16_from_le_bytes :: "u8 \<Rightarrow> u8 \<Rightarrow> u16" where
  "u16_from_le_bytes lo hi = of_nat (unat lo + 256 * unat hi)"

definition running_chip_id :: "'p image_calls \<Rightarrow> error + u16" where
  "running_chip_id idf = (case esp_ota_get_running_partition idf of
      None \<Rightarrow> Inl (Error_Metadata ''no running partition'')
    | Some part \<Rightarrow> (case esp_partition_read idf part 0 24 of
        None \<Rightarrow> Inl (Error_Metadata ''could not read image header'')
      | Some header \<Rightarrow> Inr (u16_from_le_bytes (header ! 12) (header ! 13))))"

definition cstr :: "string \<Rightarrow> string" where
  "cstr bs = trim (from_utf8_lossy (takeWhile (\<lambda>c. c \<noteq> CHR 0x00) bs))"

definition hex :: "bytes \<Rightarrow> string" where
  "hex bs = concat (map hex_byte_lower bs)"

definition running_firmware :: "'p image_calls \<Rightarrow> error + firmware_metadata" where
  "running_firmware idf = (case esp_app_get_description idf of
      None \<Rightarrow> Inl (Error_Metadata ''no app description'')
    | Some desc \<Rightarrow> (case running_chip_id idf of
        Inl e \<Rightarrow> Inl e
      | Inr chip_id \<Rightarrow> Inr
          \<lparr>fm_project_name = cstr (desc_project_name desc), fm_version = cstr (desc_version desc),
           fm_app_elf_sha256 = hex (desc_app_elf_sha256 desc), fm_idf_ver = cstr (desc_idf_ver desc),
           fm_chip_id = chip_id\<rparr>))"

subsection \<open>Checksums\<close>

text \<open>
  \<open>Sha256\<close> takes its input in chunks. The hash is a parameter on the whole input, so the
  state is the bytes taken so far.
\<close>

record sha256 =
  sha_inner :: bytes

definition sha256_new :: sha256 where
  "sha256_new = \<lparr>sha_inner = []\<rparr>"

definition sha256_update :: "sha256 \<Rightarrow> bytes \<Rightarrow> sha256" where
  "sha256_update h chunk = h\<lparr>sha_inner := sha_inner h @ chunk\<rparr>"

definition hex_upper :: "bytes \<Rightarrow> string" where
  "hex_upper bs = concat (map hex_byte_upper bs)"

definition finalize_hex_upper :: "(bytes \<Rightarrow> bytes) \<Rightarrow> sha256 \<Rightarrow> string" where
  "finalize_hex_upper digest h = hex_upper (digest (sha_inner h))"

definition checksum_matches :: "string \<Rightarrow> string \<Rightarrow> bool" where
  "checksum_matches expected actual = eq_ignore_ascii_case expected actual"

subsection \<open>Facts\<close>

lemma cstr_no_nul: "CHR 0x00 \<notin> set (takeWhile (\<lambda>c. c \<noteq> CHR 0x00) bs)"
  by (auto dest: set_takeWhileD)

lemma json_set_jobj_get:
  "json_get (json_set (jobj kvs) k v) k' = (if k' = k then Some v else json_get (jobj kvs) k')"
  by (simp add: jobj_def obj_insert_lookup obj_of_sorted)

lemma json_set_set_jobj_get:
  "json_get (json_set (json_set (jobj kvs) k v) l w) k' =
     (if k' = l then Some w else if k' = k then Some v else json_get (jobj kvs) k')"
  by (simp add: jobj_def obj_insert_lookup obj_insert_sorted obj_of_sorted)

text \<open>The two cases of a hash differ only in case, and its text determines it.\<close>

lemma hex_digit_lower: "d < 16 \<Longrightarrow> ascii_lower (hex_digit 65 d) = hex_digit 97 d"
  by (auto simp: hex_digit_def ascii_lower_def byte_of_def of_char_of)

lemma hex_digit_same: "d < 16 \<Longrightarrow> ascii_lower (hex_digit 97 d) = hex_digit 97 d"
  by (auto simp: hex_digit_def ascii_lower_def byte_of_def of_char_of)

lemma unat_u8_less: "unat (b :: u8) < 256"
  using unsigned_less [of b] by simp

lemma hex_upper_lower: "map ascii_lower (hex_upper bs) = hex bs"
proof (induction bs)
  case (Cons b bs)
  have "unat b div 16 < 16" "unat b mod 16 < 16" using unat_u8_less [of b] by simp_all
  then show ?case using Cons
    by (simp add: hex_upper_def hex_def hex_byte_upper_def hex_byte_lower_def hex_digit_lower)
qed (simp add: hex_upper_def hex_def)

lemma hex_lower_lower: "map ascii_lower (hex bs) = hex bs"
proof (induction bs)
  case (Cons b bs)
  have "unat b div 16 < 16" "unat b mod 16 < 16" using unat_u8_less [of b] by simp_all
  then show ?case using Cons
    by (simp add: hex_def hex_byte_lower_def hex_digit_same)
qed (simp add: hex_def)

lemma hex_digit_inject: "a < 16 \<Longrightarrow> b < 16 \<Longrightarrow> hex_digit 97 a = hex_digit 97 b \<Longrightarrow> a = b"
  by (auto simp: hex_digit_def of_char_of split: if_splits
      dest!: arg_cong [where f = "of_char :: char \<Rightarrow> nat"])

lemma hex_byte_inject: "hex_byte_lower a = hex_byte_lower b \<longleftrightarrow> a = b"
proof
  assume eq: "hex_byte_lower a = hex_byte_lower b"
  have "unat a div 16 < 16" "unat a mod 16 < 16" "unat b div 16 < 16" "unat b mod 16 < 16"
    using unat_u8_less [of a] unat_u8_less [of b] by simp_all
  then have "unat a div 16 = unat b div 16" "unat a mod 16 = unat b mod 16"
    using eq by (simp_all add: hex_byte_lower_def hex_digit_inject)
  then have "unat a = unat b" by (metis div_mult_mod_eq)
  then show "a = b" by (simp add: word_unat_eq_iff)
qed simp

lemma hex_inject: "hex as = hex bs \<longleftrightarrow> as = bs"
proof (induction as arbitrary: bs)
  case Nil
  then show ?case by (cases bs) (simp_all add: hex_def hex_byte_lower_def)
next
  case (Cons a as)
  show ?case
  proof (cases bs)
    case Nil
    then show ?thesis by (simp add: hex_def hex_byte_lower_def)
  next
    case (Cons b cs)
    have "length (hex_byte_lower x) = 2" for x by (simp add: hex_byte_lower_def)
    then show ?thesis
      using Cons.IH [of cs] hex_byte_inject [of a b] by (simp add: Cons hex_def)
  qed
qed

lemma matches_hex:
  "checksum_matches (hex_upper a) (hex_upper b) \<longleftrightarrow> a = b"
  "checksum_matches (hex a) (hex_upper b) \<longleftrightarrow> a = b"
  by (simp_all add: checksum_matches_def eq_ignore_ascii_case_def hex_upper_lower hex_lower_lower hex_inject)

text \<open>However the input is cut into chunks, the hash is that of the whole.\<close>

lemma sha256_chunks: "sha_inner (fold (\<lambda>c h. sha256_update h c) chunks h) = sha_inner h @ concat chunks"
  by (induction chunks arbitrary: h) (simp_all add: sha256_update_def)

subsection \<open>Properties\<close>

text \<open>
  However a download's bytes are cut into chunks, the checksum it ends with matches an
  advertised hash in either case of hexadecimal exactly when the hash of the whole is that one.
\<close>

theorem checksum_of_whole:
  "(checksum_matches (hex expected)
      (finalize_hex_upper digest (fold (\<lambda>c h. sha256_update h c) chunks sha256_new)) \<longleftrightarrow>
    digest (concat chunks) = expected) \<and>
   (checksum_matches (hex_upper expected)
      (finalize_hex_upper digest (fold (\<lambda>c h. sha256_update h c) chunks sha256_new)) \<longleftrightarrow>
    digest (concat chunks) = expected)"
  using sha256_chunks [of chunks sha256_new]
  by (auto simp: finalize_hex_upper_def matches_hex sha256_new_def)

end
