(* ===== verification/World.thy ===== *)
theory World
  imports Prog Message Update Extensions Logging Metadata
begin

text \<open>
  The world outside the run loop: \<open>Platform\<close>, \<open>Transport\<close>, \<open>HttpStream\<close>,
  \<open>ImageSink\<close>, \<open>UpdateHandler\<close> and the application's providers (the traits of
  \<open>src/agent.rs\<close>, \<open>src/link.rs\<close>, \<open>src/install.rs\<close> and
  \<open>src/extensions.rs\<close>). Every call is an event of the history, with its answer; what the
  world answers is a function of the whole history before, so it may be anything. A theorem about
  every environment is one about every transport, platform and application. \<open>Ev_Others\<close> is
  what the threads that log do to the log buffer before the agent's next use of it,
  \<open>e_debug\<close> the pieces \<open>{:?}\<close> writes for a string, and \<open>Ev_Wait\<close> marks a call of
  \<open>Progress::wait\<close>.
\<close>

datatype pending_verify = PendingVerify_Yes | PendingVerify_No

datatype control = Stay | ReportHealth | Leave

text \<open>Durations, in milliseconds.\<close>

type_synonym duration = nat

datatype event =
    Ev_Connect "error + unit"
  | Ev_Sent frame "error + unit"
  | Ev_Received "error + frame option"
  | Ev_Http "error + unit"
  | Ev_Open string "error + u64 option"
  | Ev_Read "error + bytes"
  | Ev_Begin "error + unit"
  | Ev_Write bytes "error + unit"
  | Ev_Commit "error + unit"
  | Ev_Abort
  | Ev_PendingVerify pending_verify
  | Ev_AutoRevert bool
  | Ev_MarkValid "error + unit"
  | Ev_Restart
  | Ev_Slept duration
  | Ev_Now u64
  | Ev_Offered update_payload update_decision
  | Ev_Progress stage u8
  | Ev_Wait duration
  | Ev_Identified
  | Ev_Location "location option"
  | Ev_Health health_report
  | Ev_Command string "string list" "string list" "error option"
  | Ev_Control control
  | Ev_Clock "nat option"
  | Ev_Logged level string
  | Ev_Others "log_op list"

type_synonym history = "event list"

record env =
  e_codec :: codec
  e_digest :: "bytes \<Rightarrow> bytes"
  e_layout :: layout
  e_connect :: "history \<Rightarrow> error + unit"
  e_send :: "history \<Rightarrow> frame \<Rightarrow> error + unit"
  e_recv :: "history \<Rightarrow> error + frame option"
  e_http :: "history \<Rightarrow> error + unit"
  e_open :: "history \<Rightarrow> string \<Rightarrow> error + u64 option"
  e_read :: "history \<Rightarrow> nat \<Rightarrow> error + bytes"
  e_begin :: "history \<Rightarrow> error + unit"
  e_write :: "history \<Rightarrow> bytes \<Rightarrow> error + unit"
  e_commit :: "history \<Rightarrow> error + unit"
  e_pending_verify :: "history \<Rightarrow> pending_verify"
  e_auto_revert :: "history \<Rightarrow> bool"
  e_mark_valid :: "history \<Rightarrow> error + unit"
  e_now :: "history \<Rightarrow> u64"
  e_decide :: "history \<Rightarrow> update_payload \<Rightarrow> update_decision"
  e_location :: "history \<Rightarrow> location option"
  e_health :: "history \<Rightarrow> health_report"
  e_command :: "history \<Rightarrow> string \<Rightarrow> string list \<Rightarrow> string list \<times> error option"
  e_control :: "history \<Rightarrow> control"
  e_clock :: "history \<Rightarrow> nat option"
  e_others :: "history \<Rightarrow> log_op list"
  e_debug :: "string \<Rightarrow> string list"

record world =
  w_env :: env
  w_hist :: history

text \<open>A call: the world answers from the history, and both go on record.\<close>

definition call :: "(env \<Rightarrow> history \<Rightarrow> 'a) \<Rightarrow> ('a \<Rightarrow> event) \<Rightarrow> ('s world_scheme, 'a) prog" where
  "call f ev = (\<lambda>s. let a = f (w_env s) (w_hist s) in Some (Inr a, s\<lparr>w_hist := w_hist s @ [ev a]\<rparr>))"

text \<open>A call whose answer is itself a result.\<close>

definition fallible_call ::
    "(env \<Rightarrow> history \<Rightarrow> error + 'a) \<Rightarrow> (error + 'a \<Rightarrow> event) \<Rightarrow> ('s world_scheme, 'a) prog" where
  "fallible_call f ev = andthen (call f ev) result"

definition tell :: "event \<Rightarrow> ('s world_scheme, unit) prog" where
  "tell ev = call (\<lambda>_ _. ()) (\<lambda>_. ev)"

subsection \<open>The calls\<close>

definition do_connect :: "('s world_scheme, unit) prog" where
  "do_connect = fallible_call e_connect Ev_Connect"

text \<open>\<open>send_frame\<close>: \<open>send\<close> for a text frame and \<open>send_binary\<close> for a binary one.\<close>

definition send_frame :: "frame \<Rightarrow> ('s world_scheme, unit) prog" where
  "send_frame f = fallible_call (\<lambda>E h. e_send E h f) (Ev_Sent f)"

definition recv_frame :: "('s world_scheme, frame option) prog" where
  "recv_frame = fallible_call e_recv Ev_Received"

definition do_http :: "('s world_scheme, unit) prog" where
  "do_http = fallible_call e_http Ev_Http"

definition do_open :: "string \<Rightarrow> ('s world_scheme, u64 option) prog" where
  "do_open url = fallible_call (\<lambda>E h. e_open E h url) (Ev_Open url)"

definition do_read :: "nat \<Rightarrow> ('s world_scheme, bytes) prog" where
  "do_read n = fallible_call (\<lambda>E h. e_read E h n) Ev_Read"

definition do_begin :: "('s world_scheme, unit) prog" where
  "do_begin = fallible_call e_begin Ev_Begin"

definition do_write :: "bytes \<Rightarrow> ('s world_scheme, unit) prog" where
  "do_write c = fallible_call (\<lambda>E h. e_write E h c) (Ev_Write c)"

definition do_commit :: "('s world_scheme, unit) prog" where
  "do_commit = fallible_call e_commit Ev_Commit"

definition do_abort :: "('s world_scheme, unit) prog" where
  "do_abort = tell Ev_Abort"

definition do_pending_verify :: "('s world_scheme, pending_verify) prog" where
  "do_pending_verify = call e_pending_verify Ev_PendingVerify"

definition do_auto_revert :: "('s world_scheme, bool) prog" where
  "do_auto_revert = call e_auto_revert Ev_AutoRevert"

definition do_mark_valid :: "('s world_scheme, unit) prog" where
  "do_mark_valid = fallible_call e_mark_valid Ev_MarkValid"

definition do_restart :: "('s world_scheme, unit) prog" where
  "do_restart = tell Ev_Restart"

definition do_sleep :: "duration \<Rightarrow> ('s world_scheme, unit) prog" where
  "do_sleep d = tell (Ev_Slept d)"

definition now_ms :: "('s world_scheme, u64) prog" where
  "now_ms = call e_now Ev_Now"

definition do_decide :: "update_payload \<Rightarrow> ('s world_scheme, update_decision) prog" where
  "do_decide u = call (\<lambda>E h. e_decide E h u) (Ev_Offered u)"

definition handler_progress :: "stage \<Rightarrow> u8 \<Rightarrow> ('s world_scheme, unit) prog" where
  "handler_progress st percent = tell (Ev_Progress st percent)"

definition do_identify :: "('s world_scheme, unit) prog" where
  "do_identify = tell Ev_Identified"

definition ask_location :: "('s world_scheme, location option) prog" where
  "ask_location = call e_location Ev_Location"

definition ask_health :: "('s world_scheme, health_report) prog" where
  "ask_health = call e_health Ev_Health"

definition ask_command :: "string \<Rightarrow> string list \<Rightarrow> ('s world_scheme, string list \<times> error option) prog" where
  "ask_command name args =
     call (\<lambda>E h. e_command E h name args) (\<lambda>(out, err). Ev_Command name args out err)"

definition ask_control :: "('s world_scheme, control) prog" where
  "ask_control = call e_control Ev_Control"

definition read_clock :: "('s world_scheme, nat option) prog" where
  "read_clock = call e_clock Ev_Clock"

definition other_threads :: "('s world_scheme, log_op list) prog" where
  "other_threads = call e_others Ev_Others"

definition log_text :: "level \<Rightarrow> string \<Rightarrow> ('s world_scheme, unit) prog" where
  "log_text l text = tell (Ev_Logged l text)"

subsection \<open>What a run emits\<close>

text \<open>\<open>emits P s t\<close>: from \<open>s\<close> to \<open>t\<close> only events with \<open>P\<close> were recorded.\<close>

definition emits :: "(event \<Rightarrow> bool) \<Rightarrow> 's world_scheme \<Rightarrow> 's world_scheme \<Rightarrow> bool" where
  "emits P s t \<longleftrightarrow> w_env t = w_env s \<and> (\<exists>evs. w_hist t = w_hist s @ evs \<and> list_all P evs)"

interpretation emits: run_relation "emits P"
proof
  fix s t u :: "'a world_scheme"
  show "emits P s s" by (simp add: emits_def)
  assume "emits P s t" and "emits P t u"
  then show "emits P s u" by (auto simp: emits_def)
qed

lemma emits_weaken: "emits P s t \<Longrightarrow> (\<And>e. P e \<Longrightarrow> Q e) \<Longrightarrow> emits Q s t"
  by (auto simp: emits_def list_all_iff)

lemma stays_emits_weaken: "stays (emits P) m \<Longrightarrow> (\<And>e. P e \<Longrightarrow> Q e) \<Longrightarrow> stays (emits Q) m"
  unfolding stays_def by (meson emits_weaken)

lemma call_run: "call f ev s = Some (Inr (f (w_env s) (w_hist s)),
    s\<lparr>w_hist := w_hist s @ [ev (f (w_env s) (w_hist s))]\<rparr>)"
  by (simp add: call_def Let_def)

lemma fallible_call_run: "fallible_call f ev s = Some (f (w_env s) (w_hist s),
    s\<lparr>w_hist := w_hist s @ [ev (f (w_env s) (w_hist s))]\<rparr>)"
  by (simp add: fallible_call_def andthen_run call_run result_def)

lemma tell_run: "tell ev s = Some (Inr (), s\<lparr>w_hist := w_hist s @ [ev]\<rparr>)"
  by (simp add: tell_def call_run)

lemma world_steps:
  "andthen (call f ev) g s = g (f (w_env s) (w_hist s)) (s\<lparr>w_hist := w_hist s @ [ev (f (w_env s) (w_hist s))]\<rparr>)"
  "andthen (fallible_call f' ev') g' s =
     (case f' (w_env s) (w_hist s) of
        Inl e \<Rightarrow> Some (Inl e, s\<lparr>w_hist := w_hist s @ [ev' (Inl e)]\<rparr>)
      | Inr a \<Rightarrow> g' a (s\<lparr>w_hist := w_hist s @ [ev' (Inr a)]\<rparr>))"
  "andthen (tell e) g'' s = g'' () (s\<lparr>w_hist := w_hist s @ [e]\<rparr>)"
  by (simp_all add: andthen_run call_run fallible_call_run tell_run split: sum.split)

lemmas world_calls = do_connect_def send_frame_def recv_frame_def do_http_def do_open_def
  do_read_def do_begin_def do_write_def do_commit_def do_abort_def do_pending_verify_def
  do_auto_revert_def do_mark_valid_def do_restart_def do_sleep_def now_ms_def do_decide_def
  handler_progress_def do_identify_def ask_location_def ask_health_def ask_command_def
  ask_control_def read_clock_def other_threads_def log_text_def

lemmas world_runs = world_calls call_run fallible_call_run tell_run

lemma stays_call: "(\<And>a. P (ev a)) \<Longrightarrow> stays (emits P) (call f ev)"
  by (auto simp: stays_def call_run emits_def)

lemma stays_fallible_call: "(\<And>a. P (ev a)) \<Longrightarrow> stays (emits P) (fallible_call f ev)"
  by (auto simp: stays_def fallible_call_run emits_def)

lemma stays_tell: "P ev \<Longrightarrow> stays (emits P) (tell ev)"
  by (auto simp: stays_def tell_run emits_def)

text \<open>The classes of events the components are said to emit.\<close>

fun sends :: "event \<Rightarrow> bool" where
  "sends (Ev_Sent f r) = True" | "sends _ = False"

fun is_mark_valid :: "event \<Rightarrow> bool" where
  "is_mark_valid (Ev_MarkValid r) = True" | "is_mark_valid _ = False"

fun is_restart :: "event \<Rightarrow> bool" where
  "is_restart Ev_Restart = True" | "is_restart _ = False"

fun is_slot_event :: "event \<Rightarrow> bool" where
  "is_slot_event (Ev_Write c r) = True"
| "is_slot_event (Ev_Commit r) = True"
| "is_slot_event Ev_Abort = True"
| "is_slot_event (Ev_Begin r) = True"
| "is_slot_event _ = False"

subsection \<open>Restarting\<close>

text \<open>
  \<open>restarts sig m\<close>: however \<open>m\<close> ends, it restarted the device as its last act when its
  value has \<open>sig\<close>, and not at all otherwise.
\<close>

definition not_restarting :: "event \<Rightarrow> bool" where
  "not_restarting e \<longleftrightarrow> \<not> is_restart e"

definition restarted :: "bool \<Rightarrow> 's world_scheme \<Rightarrow> 's world_scheme \<Rightarrow> bool" where
  "restarted b s t \<longleftrightarrow> (\<exists>evs. w_hist t = w_hist s @ evs \<and>
     (if b then \<exists>pre. evs = pre @ [Ev_Restart] \<and> list_all not_restarting pre
      else list_all not_restarting evs))"

definition restarts :: "('a \<Rightarrow> bool) \<Rightarrow> ('s world_scheme, 'a) prog \<Rightarrow> bool" where
  "restarts sig m \<longleftrightarrow> (\<forall>s r t. m s = Some (r, t) \<longrightarrow>
     restarted (case r of Inr a \<Rightarrow> sig a | Inl _ \<Rightarrow> False) s t)"

lemma restarted_after: "emits not_restarting s u \<Longrightarrow> restarted b u t \<Longrightarrow> restarted b s t"
proof -
  assume "emits not_restarting s u" and "restarted b u t"
  then obtain xs ys where "w_hist u = w_hist s @ xs" "list_all not_restarting xs" "w_hist t = w_hist u @ ys"
    "if b then \<exists>pre. ys = pre @ [Ev_Restart] \<and> list_all not_restarting pre else list_all not_restarting ys"
    unfolding emits_def restarted_def by blast
  then show ?thesis
    unfolding restarted_def by (intro exI [of _ "xs @ ys"]) (auto split: if_splits)
qed

lemma restarted_refl [simp]: "restarted False s s"
  by (simp add: restarted_def)

lemma emits_restarted: "emits not_restarting s t \<Longrightarrow> restarted False s t"
  by (auto simp: emits_def restarted_def)

lemma restarts_ok: "\<not> sig a \<Longrightarrow> restarts sig (ok a)"
  by (simp add: restarts_def ok_def)

lemma restarts_fail: "restarts sig (fail e)"
  by (simp add: restarts_def fail_def)

lemma restarts_restart: "sig a \<Longrightarrow> restarts sig (andthen do_restart (\<lambda>_. ok a))"
  by (auto simp: restarts_def andthen_run do_restart_def tell_run ok_def restarted_def)

lemma restarts_andthen:
  "stays (emits not_restarting) m \<Longrightarrow> (\<And>a. restarts sig (f a)) \<Longrightarrow> restarts sig (andthen m f)"
  unfolding restarts_def andthen_Some stays_def
  by (fastforce intro: restarted_after emits_restarted)

lemma restarts_then:
  assumes "restarts sig' m" and "\<And>a. \<not> sig' a \<Longrightarrow> restarts sig (f a)"
    and "\<And>a. sig' a \<Longrightarrow> \<exists>b. f a = ok b \<and> sig b"
  shows "restarts sig (andthen m f)"
  unfolding restarts_def
proof (intro allI impI)
  fix s r t
  assume "andthen m f s = Some (r, t)"
  then consider (err) e where "m s = Some (Inl e, t)" "r = Inl e"
    | (val) a u where "m s = Some (Inr a, u)" "f a u = Some (r, t)"
    by (auto simp: andthen_Some)
  then show "restarted (case r of Inr a \<Rightarrow> sig a | Inl _ \<Rightarrow> False) s t"
  proof cases
    case err
    then show ?thesis using assms(1) by (fastforce simp: restarts_def)
  next
    case val
    have u: "restarted (sig' a) s u" using assms(1) val(1) by (fastforce simp: restarts_def)
    show ?thesis
    proof (cases "sig' a")
      case True
      then obtain b where "f a = ok b" "sig b" using assms(3) by blast
      then show ?thesis using val(2) u True by (simp add: ok_def) (metis sum.simps(6))
    next
      case False
      then have "restarted (case r of Inr a \<Rightarrow> sig a | Inl _ \<Rightarrow> False) u t"
        using assms(2) val(2) by (simp add: restarts_def)
      then show ?thesis using u False
        by (auto simp: restarted_def split: if_splits)
    qed
  qed
qed

lemma restarts_iterate:
  assumes "\<And>l. restarts (\<lambda>out. case out of Inl _ \<Rightarrow> False | Inr a \<Rightarrow> sig a) (body l)"
  shows "restarts sig (iterate body l)"
  unfolding restarts_def
proof (intro allI impI)
  fix s r t
  assume "iterate body l s = Some (r, t)"
  then show "restarted (case r of Inr a \<Rightarrow> sig a | Inl _ \<Rightarrow> False) s t"
  proof (induction rule: iterate_induct)
    case (again l s l' u r t)
    then have "restarted False s u" using assms [of l] by (fastforce simp: restarts_def)
    then show ?case using again.IH by (auto simp: restarted_def split: if_splits)
  qed (use assms in \<open>fastforce simp: restarts_def\<close>)+
qed

end
