(* ===== verification/SharedSecret.thy ===== *)
theory SharedSecret
  imports Prelude
begin

text \<open>
  \<open>src/shared_secret.rs\<close>: the signed headers of shared-secret authentication: Erlang's
  external term format for the payload, URL-safe base64, and \<open>Plug.Crypto\<close>'s token.
  PBKDF2 and HMAC are the crates' and come in as the parameter \<open>crypto\<close>.
\<close>

record crypto =
  pbkdf2_hmac_sha256 :: "bytes \<Rightarrow> bytes \<Rightarrow> nat \<Rightarrow> nat \<Rightarrow> bytes"
  hmac_sha256 :: "bytes \<Rightarrow> bytes \<Rightarrow> bytes"

definition PROTECTED :: string where "PROTECTED = ''SFMyNTY''"
definition DEFAULT_ITERATIONS :: nat where "DEFAULT_ITERATIONS = 1000"
definition DEFAULT_KEY_LENGTH :: nat where "DEFAULT_KEY_LENGTH = 32"
definition DEFAULT_MAX_AGE_SECS :: i64 where "DEFAULT_MAX_AGE_SECS = 86400"

record shared_secret =
  ss_key :: string
  ss_secret :: string

definition salt :: "string \<Rightarrow> string \<Rightarrow> i64 \<Rightarrow> string" where
  "salt alg key signed_at =
     ''NH1:device-socket:shared-secret:connect'' @ [CHR 0x0A, CHR 0x0A] @
     ''x-nh-alg=NH1-HMAC-'' @ alg @ [CHR 0x0A] @ ''x-nh-key='' @ key @ [CHR 0x0A] @
     ''x-nh-time='' @ dec_int (sint signed_at) @ [CHR 0x0A]"

subsection \<open>Erlang's external term format\<close>

definition be32 :: "nat \<Rightarrow> bytes" where
  "be32 n = [of_nat (n div 2 ^ 24), of_nat (n div 2 ^ 16), of_nat (n div 2 ^ 8), of_nat n]"

fun le_digits :: "nat \<Rightarrow> bytes" where
  "le_digits n = (if n = 0 then [] else of_nat (n mod 256) # le_digits (n div 256))"

declare le_digits.simps [simp del]

definition encode_integer :: "i64 \<Rightarrow> bytes" where
  "encode_integer v =
     (let value = sint v in
      if 0 \<le> value \<and> value \<le> 255 then [97, of_int value]
      else if - (2 ^ 31) \<le> value \<and> value \<le> 2 ^ 31 - 1 then 98 # be32 (nat (value mod 2 ^ 32))
      else let digits = le_digits (nat \<bar>value\<bar>)
           in [110, of_nat (length digits), (if value < 0 then 1 else 0)] @ digits)"

definition payload :: "string \<Rightarrow> i64 \<Rightarrow> i64 \<Rightarrow> bytes" where
  "payload identifier signed_at_ms max_age =
     [131, 104, 3, 109] @ be32 (length identifier mod 2 ^ 32) @ str_bytes identifier @
     encode_integer signed_at_ms @ encode_integer max_age"

subsection \<open>URL-safe base64\<close>

definition ALPHABET :: string where
  "ALPHABET = ''ABCDEFGHIJKLMNOPQRSTUVWXYZabcdefghijklmnopqrstuvwxyz0123456789-_''"

definition sextet :: "nat \<Rightarrow> char" where
  "sextet n = ALPHABET ! (n mod 64)"

text \<open>One round of the loop: up to three bytes become up to four characters.\<close>

definition base64_chunk :: "u8 \<Rightarrow> u8 option \<Rightarrow> u8 option \<Rightarrow> string" where
  "base64_chunk b0 b1 b2 =
     (let byte = (\<lambda>b. case b of None \<Rightarrow> 0 | Some x \<Rightarrow> unat x);
          n = unat b0 * 2 ^ 16 + byte b1 * 2 ^ 8 + byte b2
      in [sextet (n div 2 ^ 18), sextet (n div 2 ^ 12)]
         @ (if b1 = None then [] else [sextet (n div 2 ^ 6)])
         @ (if b2 = None then [] else [sextet n]))"

fun base64url :: "bytes \<Rightarrow> string" where
  "base64url [] = []"
| "base64url [a] = base64_chunk a None None"
| "base64url [a, b] = base64_chunk a (Some b) None"
| "base64url (a # b # c # rest) = base64_chunk a (Some b) (Some c) @ base64url rest"

definition token :: "crypto \<Rightarrow> bytes \<Rightarrow> bytes \<Rightarrow> string" where
  "token K signing_key pl =
     (let plain_text = PROTECTED @ ''.'' @ base64url pl;
          signature = hmac_sha256 K signing_key (str_bytes plain_text)
      in plain_text @ ''.'' @ base64url signature)"

definition headers :: "crypto \<Rightarrow> shared_secret \<Rightarrow> string \<Rightarrow> i64 \<Rightarrow> (string \<times> string) list" where
  "headers K s identifier signed_at =
     (let alg = ''SHA256-'' @ dec_nat DEFAULT_ITERATIONS @ ''-'' @ dec_nat DEFAULT_KEY_LENGTH;
          slt = salt alg (ss_key s) signed_at;
          derived = pbkdf2_hmac_sha256 K (str_bytes (ss_secret s)) (str_bytes slt)
                      DEFAULT_ITERATIONS DEFAULT_KEY_LENGTH;
          pl = payload identifier (signed_at * 1000) DEFAULT_MAX_AGE_SECS
      in [(''x-nh-alg'', ''NH1-HMAC-'' @ alg),
          (''x-nh-key'', ss_key s),
          (''x-nh-time'', dec_int (sint signed_at)),
          (''x-nh-signature'', token K derived pl)])"

text \<open>\<open>now_secs\<close>: the clock, or zero when it reads before the epoch.\<close>

definition now_secs :: "u64 option \<Rightarrow> i64" where
  "now_secs since_epoch = (case since_epoch of None \<Rightarrow> 0 | Some s \<Rightarrow> s)"

subsection \<open>Reading the term back\<close>

text \<open>A decoder for the three integer forms and the payload, written from Erlang's format.\<close>

definition from_be :: "bytes \<Rightarrow> nat" where
  "from_be bs = foldl (\<lambda>a b. a * 256 + unat b) 0 bs"

fun from_le :: "bytes \<Rightarrow> nat" where
  "from_le [] = 0"
| "from_le (b # bs) = unat b + 256 * from_le bs"

definition decode_integer :: "bytes \<Rightarrow> (int \<times> bytes) option" where
  "decode_integer bs = (case bs of
      [] \<Rightarrow> None
    | tag # rest \<Rightarrow>
        if tag = 97 then (case rest of [] \<Rightarrow> None | b # r \<Rightarrow> Some (uint b, r))
        else if tag = 98 then
          (if length rest < 4 then None
           else let n = from_be (take 4 rest)
                in Some (if n < 2 ^ 31 then int n else int n - 2 ^ 32, drop 4 rest))
        else if tag = 110 then
          (case rest of n # sign # r \<Rightarrow>
             if length r < unat n then None
             else Some ((if sign = 0 then 1 else - 1) * int (from_le (take (unat n) r)),
                        drop (unat n) r)
           | _ \<Rightarrow> None)
        else None)"

definition decode_payload :: "bytes \<Rightarrow> (bytes \<times> int \<times> int) option" where
  "decode_payload bs =
     (if take 4 bs \<noteq> [131, 104, 3, 109] \<or> length bs < 8 then None
      else let n = from_be (take 4 (drop 4 bs)); r = drop 8 bs
           in if length r < n then None
              else case decode_integer (drop n r) of
                  None \<Rightarrow> None
                | Some (at, r') \<Rightarrow> (case decode_integer r' of
                      Some (age, []) \<Rightarrow> Some (take n r, at, age)
                    | _ \<Rightarrow> None))"

lemma length_be32 [simp]: "length (be32 n) = 4"
  by (simp add: be32_def)

lemma unat_of_nat_u8: "unat (of_nat n :: u8) = n mod 256"
  by (simp add: unat_of_nat take_bit_eq_mod)

text \<open>Splitting a number into digits of a base and joining them again.\<close>

lemma four_digits:
  fixes n B :: nat
  assumes "n < B * B * B * B"
  shows "((n div (B * B * B) mod B * B + n div (B * B) mod B) * B + n div B mod B) * B + n mod B = n"
proof -
  have top: "n div (B * B * B) < B"
    using assms by (simp add: less_mult_imp_div_less mult.commute mult.left_commute)
  have "n div (B * B * B) = n div (B * B) div B" "n div (B * B) = n div B div B"
    by (simp_all add: div_mult2_eq)
  then show ?thesis using top
    by (metis div_mult_mod_eq mod_less)
qed

lemma from_be_be32: "n < 2 ^ 32 \<Longrightarrow> from_be (be32 n) = n"
  using four_digits [of n 256] by (simp add: from_be_def be32_def unat_of_nat_u8)

lemma from_le_le_digits: "from_le (le_digits n) = n"
  by (induction n rule: le_digits.induct) (subst le_digits.simps, simp add: unat_of_nat_u8)

lemma length_le_digits: "n < 256 ^ k \<Longrightarrow> length (le_digits n) \<le> k"
proof (induction k arbitrary: n)
  case 0
  then show ?case by (simp add: le_digits.simps)
next
  case (Suc k)
  then have "n div 256 < 256 ^ k" by (simp add: less_mult_imp_div_less mult.commute)
  then show ?case using Suc.IH by (subst le_digits.simps) simp
qed

lemma decode_encode_integer: "decode_integer (encode_integer v @ r) = Some (sint v, r)"
proof -
  let ?x = "sint v"
  have range: "- (2 ^ 63) \<le> ?x" "?x < 2 ^ 63"
    using sint_greater_eq [of v] sint_less [of v] by simp_all
  consider (small) "0 \<le> ?x" "?x \<le> 255"
    | (medium) "\<not> (0 \<le> ?x \<and> ?x \<le> 255)" "- (2 ^ 31) \<le> ?x" "?x \<le> 2 ^ 31 - 1"
    | (big) "\<not> (0 \<le> ?x \<and> ?x \<le> 255)" "\<not> (- (2 ^ 31) \<le> ?x \<and> ?x \<le> 2 ^ 31 - 1)"
    by blast
  then show ?thesis
  proof cases
    case small
    then have "uint (of_int ?x :: u8) = ?x"
      unfolding uint_word_of_int_eq by (subst take_bit_int_eq_self) simp_all
    with small show ?thesis
      by (simp add: encode_integer_def decode_integer_def Let_def del: of_int_sint)
  next
    case medium
    let ?n = "nat (?x mod 2 ^ 32)"
    have "?n < 2 ^ 32" by (simp add: nat_less_iff)
    moreover have "(if ?n < 2 ^ 31 then int ?n else int ?n - 2 ^ 32) = ?x"
    proof (cases "0 \<le> ?x")
      case True
      then have "?x mod 2 ^ 32 = ?x" using medium by (intro mod_pos_pos_trivial) simp_all
      with True medium show ?thesis by simp
    next
      case False
      have "?x mod 2 ^ 32 = (?x + 2 ^ 32) mod 2 ^ 32" by simp
      also have "\<dots> = ?x + 2 ^ 32" using False medium by (intro mod_pos_pos_trivial) simp_all
      finally have "?x mod 2 ^ 32 = ?x + 2 ^ 32" .
      with False medium show ?thesis by simp
    qed
    moreover have "encode_integer v = 98 # be32 ?n"
      using medium by (auto simp: encode_integer_def Let_def)
    ultimately obtain n where "n < 2 ^ 32" "(if n < 2 ^ 31 then int n else int n - 2 ^ 32) = ?x"
      "encode_integer v = 98 # be32 n"
      by blast
    then show ?thesis
      by (simp add: decode_integer_def Let_def from_be_be32)
  next
    case big
    let ?d = "le_digits (nat \<bar>?x\<bar>)"
    have "nat \<bar>?x\<bar> < 256 ^ 8" using range by simp
    then have "length ?d \<le> 8" by (rule length_le_digits)
    then have "unat (of_nat (length ?d) :: u8) = length ?d" by (simp add: unat_of_nat_u8)
    moreover have "encode_integer v = [110, of_nat (length ?d), (if ?x < 0 then 1 else 0)] @ ?d"
      using big by (auto simp: encode_integer_def Let_def)
    ultimately show ?thesis
      by (auto simp: decode_integer_def from_le_le_digits)
  qed
qed

lemma decode_payload_payload:
  assumes "length identifier < 2 ^ 32"
  shows "decode_payload (payload identifier at age) = Some (str_bytes identifier, sint at, sint age)"
proof -
  have "from_be (be32 (length identifier)) = length identifier"
    using assms by (rule from_be_be32)
  moreover have "decode_integer (encode_integer age) = Some (sint age, [])"
    using decode_encode_integer [of age "[]"] by simp
  ultimately show ?thesis
    using assms decode_encode_integer [of at "encode_integer age"]
    by (simp add: decode_payload_def payload_def Let_def)
qed

subsection \<open>Base64 is faithful\<close>

definition sextet_value :: "char \<Rightarrow> nat" where
  "sextet_value c = length (takeWhile (\<lambda>x. x \<noteq> c) ALPHABET)"

fun base64url_decode :: "string \<Rightarrow> bytes" where
  "base64url_decode (a # b # c # d # rest) =
     (let n = sextet_value a * 2 ^ 18 + sextet_value b * 2 ^ 12 + sextet_value c * 2 ^ 6 + sextet_value d
      in [of_nat (n div 2 ^ 16), of_nat (n div 2 ^ 8), of_nat n]) @ base64url_decode rest"
| "base64url_decode [a, b, c] =
     (let n = sextet_value a * 2 ^ 18 + sextet_value b * 2 ^ 12 + sextet_value c * 2 ^ 6
      in [of_nat (n div 2 ^ 16), of_nat (n div 2 ^ 8)])"
| "base64url_decode [a, b] =
     (let n = sextet_value a * 2 ^ 18 + sextet_value b * 2 ^ 12 in [of_nat (n div 2 ^ 16)])"
| "base64url_decode _ = []"

lemma length_ALPHABET [simp]: "length ALPHABET = 64"
  by (simp add: ALPHABET_def)

lemma distinct_ALPHABET: "distinct ALPHABET"
  by (simp add: ALPHABET_def)

lemma sextet_value_sextet [simp]: "sextet_value (sextet n) = n mod 64"
proof -
  have lt: "n mod 64 < length ALPHABET" by simp
  have "takeWhile (\<lambda>x. x \<noteq> ALPHABET ! (n mod 64)) ALPHABET = take (n mod 64) ALPHABET"
  proof (rule takeWhile_eq_take_P_nth)
    fix i assume "i < n mod 64" "i < length ALPHABET"
    then show "ALPHABET ! i \<noteq> ALPHABET ! (n mod 64)"
      using distinct_ALPHABET lt by (simp add: nth_eq_iff_index_eq)
  qed simp
  then show ?thesis by (simp add: sextet_value_def sextet_def)
qed

lemma sextets_join: "n < 2 ^ 24 \<Longrightarrow>
  n div 2 ^ 18 mod 64 * 2 ^ 18 + n div 2 ^ 12 mod 64 * 2 ^ 12 + n div 2 ^ 6 mod 64 * 2 ^ 6 + n mod 64 = (n :: nat)"
  using four_digits [of n 64] by (simp add: algebra_simps)

lemma u8_bound: "unat (b :: u8) < 256"
  using unsigned_less [of b] by simp

lemma u8_of_nat_eq: "n mod 256 = unat b \<Longrightarrow> of_nat n = (b :: u8)"
  by (simp add: word_unat_eq_iff unat_of_nat_u8)

lemma three_bytes:
  fixes a b c :: u8
  defines "n \<equiv> unat a * 65536 + unat b * 256 + unat c"
  shows "n < 2 ^ 24" "of_nat (n div 65536) = a" "of_nat (n div 256) = b" "of_nat n = c"
proof -
  note bounds = u8_bound [of a] u8_bound [of b] u8_bound [of c]
  show "n < 2 ^ 24" using bounds by (simp add: n_def)
  have "n div 65536 = unat a" using bounds by (simp add: n_def)
  then show "of_nat (n div 65536) = a" by simp
  have "n div 256 = unat a * 256 + unat b" using bounds by (simp add: n_def)
  then show "of_nat (n div 256) = b"
    using bounds by (intro u8_of_nat_eq) (simp only: mod_mult_self3 mod_less)
  have "n = (unat a * 256 + unat b) * 256 + unat c" by (simp add: n_def)
  then show "of_nat n = c"
    using bounds by (intro u8_of_nat_eq) (simp only: mod_mult_self3 mod_less)
qed

lemma base64url_decode_base64url: "base64url_decode (base64url bs) = bs"
proof (induction bs rule: base64url.induct)
  case (2 a)
  let ?n = "unat a * 65536"
  have "?n div 2 ^ 6 mod 64 = 0" "?n mod 64 = 0" by simp_all
  then show ?case
    using three_bytes [of a 0 0] sextets_join [of ?n]
    by (simp add: base64_chunk_def Let_def)
next
  case (3 a b)
  let ?n = "unat a * 65536 + unat b * 256"
  have "?n = (unat a * 1024 + unat b * 4) * 64" by simp
  then have "?n mod 64 = 0" by (metis mod_mult_self2_is_0)
  then show ?case
    using three_bytes [of a b 0] sextets_join [of ?n]
    by (simp add: base64_chunk_def Let_def)
next
  case (4 a b c rest)
  then show ?case
    using three_bytes [of a b c] sextets_join [of "unat a * 65536 + unat b * 256 + unat c"]
    by (simp add: base64_chunk_def Let_def)
qed simp

lemma base64url_inject: "base64url a = base64url b \<longleftrightarrow> a = b"
  by (metis base64url_decode_base64url)

lemma base64url_alphabet: "set (base64url bs) \<subseteq> set ALPHABET"
proof -
  have "sextet n \<in> set ALPHABET" for n by (simp add: sextet_def)
  then show ?thesis
    by (induction bs rule: base64url.induct) (auto simp: base64_chunk_def Let_def)
qed

lemma dot_not_base64: "CHR ''.'' \<notin> set (base64url bs)"
  using base64url_alphabet [of bs] by (auto simp: ALPHABET_def)

subsection \<open>Properties\<close>

text \<open>
  C37: the signed term reads back, by Erlang's external term format, as the device's identifier,
  the time of signing and the greatest age, at any length and size the format can hold.
\<close>

theorem signed_term_round_trip:
  "length identifier < 2 ^ 32 \<Longrightarrow>
   decode_payload (payload identifier at age) = Some (str_bytes identifier, sint at, sint age)"
  by (rule decode_payload_payload)

theorem signed_term_round_trip_witness:
  "decode_payload (payload ''device-1'' (-5) 86400) = Some (str_bytes ''device-1'', -5, 86400)"
  using signed_term_round_trip [of "''device-1''" "-5" 86400] by simp

text \<open>
  C38: the token is three parts that no dot can blur: split at its dots it gives the protected
  header, and two texts that decode to the signed term and to the signature of the first two.
\<close>

theorem token_parts:
  "\<exists>signature. token K k pl = PROTECTED @ ''.'' @ base64url pl @ ''.'' @ base64url signature \<and>
    signature = hmac_sha256 K k (str_bytes (PROTECTED @ ''.'' @ base64url pl)) \<and>
    base64url_decode (base64url pl) = pl \<and> base64url_decode (base64url signature) = signature \<and>
    CHR ''.'' \<notin> set PROTECTED \<union> set (base64url pl) \<union> set (base64url signature)"
  by (intro exI conjI)
    (simp_all add: token_def Let_def base64url_decode_base64url dot_not_base64 PROTECTED_def)

end
