(* ===== verification/TlsSession.thy ===== *)
theory TlsSession
  imports Prelude
begin

text \<open>
  \<open>src/tls_session.rs\<close>: the slot a TLS session is kept in between connections, and
  \<open>rebase\<close>, which moves a ticket's date between two clocks. The slot is shared behind a
  lock in the code; each operation takes the lock once, so it is one step on the slot here.
\<close>

datatype handshake = Resumed | Full

record tls_session =
  saved :: "bytes option"
  last_handshake :: "handshake option"
  last_protocol :: "string option"

definition new_session :: tls_session where
  "new_session = \<lparr>saved = None, last_handshake = None, last_protocol = None\<rparr>"

definition restore :: "bytes \<Rightarrow> tls_session" where
  "restore bs = (if bs \<noteq> [] then new_session\<lparr>saved := Some bs\<rparr> else new_session)"

definition negotiated :: "string \<Rightarrow> tls_session \<Rightarrow> tls_session" where
  "negotiated protocol s = s\<lparr>last_protocol := Some protocol\<rparr>"

definition forget :: "tls_session \<Rightarrow> tls_session" where
  "forget s = s\<lparr>saved := None\<rparr>"

definition store :: "bytes \<Rightarrow> handshake \<Rightarrow> tls_session \<Rightarrow> tls_session" where
  "store bs h s = s\<lparr>saved := Some bs, last_handshake := Some h\<rparr>"

definition record_handshake :: "handshake \<Rightarrow> tls_session \<Rightarrow> tls_session" where
  "record_handshake h s = s\<lparr>last_handshake := Some h\<rparr>"

text \<open>\<open>Debug\<close> shows the session's length, not the session.\<close>

definition debug_session :: "tls_session \<Rightarrow> nat option \<times> handshake option" where
  "debug_session s = (map_option length (saved s), last_handshake s)"

text \<open>\<open>i64::saturating_sub\<close>.\<close>

definition clamp_i64 :: "int \<Rightarrow> int" where
  "clamp_i64 x = max (- (2 ^ 63)) (min (2 ^ 63 - 1) x)"

definition saturating_sub_i64 :: "i64 \<Rightarrow> i64 \<Rightarrow> i64" where
  "saturating_sub_i64 a b = word_of_int (clamp_i64 (sint a - sint b))"

definition max_i64 :: "i64 \<Rightarrow> i64 \<Rightarrow> i64" where
  "max_i64 a b = (if sint a \<le> sint b then b else a)"

definition rebase :: "i64 \<Rightarrow> i64 \<Rightarrow> i64 \<Rightarrow> i64" where
  "rebase at from_now to_now =
     (let age = max_i64 (saturating_sub_i64 from_now at) 0
      in saturating_sub_i64 to_now age)"

subsection \<open>What rebasing does\<close>

lemma sint_i64_range: "- (2 ^ 63) \<le> sint (w :: i64) \<and> sint w < 2 ^ 63"
  using sint_greater_eq [of w] sint_less [of w] by simp

lemma sint_word_of_int_i64: "- (2 ^ 63) \<le> i \<Longrightarrow> i < 2 ^ 63 \<Longrightarrow> sint (word_of_int i :: i64) = i"
  by (simp add: sint_sbintrunc' signed_take_bit_int_eq_self)

lemma sint_saturating_sub [simp]: "sint (saturating_sub_i64 a b) = clamp_i64 (sint a - sint b)"
  by (simp add: saturating_sub_i64_def sint_word_of_int_i64 clamp_i64_def)

lemma sint_max_i64 [simp]: "sint (max_i64 a b) = max (sint a) (sint b)"
  by (simp add: max_i64_def max_def)

lemma sint_rebase:
  "sint (rebase at from_now to_now) =
     clamp_i64 (sint to_now - max (clamp_i64 (sint from_now - sint at)) 0)"
  by (simp add: rebase_def Let_def)

lemma rebase_not_future: "sint (rebase at from_now to_now) \<le> sint to_now"
  using sint_i64_range [of to_now] by (simp add: sint_rebase clamp_i64_def)

lemma rebase_keeps_age:
  assumes "0 \<le> sint to_now" and "sint from_now - sint at < 2 ^ 63"
  shows "sint to_now - sint (rebase at from_now to_now) = max 0 (sint from_now - sint at)"
  using assms sint_i64_range [of to_now] sint_i64_range [of from_now] sint_i64_range [of at]
  by (simp add: sint_rebase clamp_i64_def max_def min_def)

lemma rebase_round_trip:
  assumes "0 \<le> sint b_now" and "0 \<le> sint c_now" and "sint a_now - sint at < 2 ^ 63"
    and "sint b_later - sint b_now + max 0 (sint a_now - sint at) < 2 ^ 63"
  shows "sint c_now - sint (rebase (rebase at a_now b_now) b_later c_now) =
    max 0 (max 0 (sint a_now - sint at) + (sint b_later - sint b_now))"
proof -
  let ?w = "rebase at a_now b_now"
  have w: "sint b_now - sint ?w = max 0 (sint a_now - sint at)"
    using rebase_keeps_age [OF assms(1,3)] .
  then have "sint b_later - sint ?w < 2 ^ 63" using assms(4) by linarith
  from rebase_keeps_age [OF assms(2) this] w show ?thesis by (simp add: max_def)
qed

subsection \<open>Properties\<close>



end
