(* ===== verification/Config.thy ===== *)
theory Config
  imports Message Extensions SharedSecret TlsSession
begin

text \<open>
  \<open>src/config.rs\<close>: how a connection is configured, and the device's credentials; and
  \<open>src/identity.rs\<close>, which reads the credentials from NVS. A \<open>CStr\<close> is the bytes
  before its NUL. The NVS library is a parameter.
\<close>

datatype credentials =
    ClientCertificate (cred_certificate: bytes) (cred_private_key: bytes)
  | SharedSecretCredentials (cred_identifier: string) (cred_secret: shared_secret)

definition shared_secret_new :: "string \<Rightarrow> string \<Rightarrow> shared_secret" where
  "shared_secret_new key secret = \<lparr>ss_key = key, ss_secret = secret\<rparr>"

definition shared_secret_credentials :: "string \<Rightarrow> string \<Rightarrow> string \<Rightarrow> credentials" where
  "shared_secret_credentials identifier key secret =
     SharedSecretCredentials identifier (shared_secret_new key secret)"

text \<open>\<open>CString::new\<close> refuses bytes with a NUL among them.\<close>

definition cstring_new :: "bytes \<Rightarrow> bytes option" where
  "cstring_new bs = (if 0 \<in> set bs then None else Some bs)"

text \<open>The \<open>while\<close> loop that pops trailing NULs, from the end.\<close>

fun pop_nuls :: "bytes \<Rightarrow> bytes" where
  "pop_nuls [] = []"
| "pop_nuls (b # bs) = (let rest = pop_nuls bs in if rest = [] \<and> b = 0 then [] else b # rest)"

definition leak_pem :: "bytes \<Rightarrow> string \<Rightarrow> error + bytes" where
  "leak_pem bs what =
     (if bs = [] then Inl (Error_Identity (what @ '' is empty''))
      else case cstring_new (pop_nuls bs) of
          None \<Rightarrow> Inl (Error_Identity (what @ '' contains a NUL byte''))
        | Some c \<Rightarrow> Inr c)"

definition client_certificate :: "bytes \<Rightarrow> bytes \<Rightarrow> error + credentials" where
  "client_certificate certificate private_key = (case leak_pem certificate ''certificate'' of
      Inl e \<Rightarrow> Inl e
    | Inr c \<Rightarrow> (case leak_pem private_key ''private key'' of
        Inl e \<Rightarrow> Inl e
      | Inr k \<Rightarrow> Inr (ClientCertificate c k)))"

datatype tls_version = TlsVersion_Any | TlsVersion_Tls12 | TlsVersion_Tls13

record config =
  cfg_host :: string
  cfg_port :: u16
  cfg_credentials :: credentials
  cfg_server_ca :: "bytes option"
  cfg_use_tls :: bool
  cfg_device_api_version :: string
  cfg_heartbeat_interval_secs :: u64
  cfg_connect_timeout_secs :: u64
  cfg_reconnect_backoff_secs :: "u64 list"
  cfg_progress_step_percent :: u8
  cfg_extensions :: enabled
  cfg_tls_version :: tls_version
  cfg_tls_session :: tls_session
  cfg_serializer :: serializer

definition config_new :: "string \<Rightarrow> credentials \<Rightarrow> config" where
  "config_new host credentials =
     \<lparr>cfg_host = host, cfg_port = 443, cfg_credentials = credentials, cfg_server_ca = None,
      cfg_use_tls = True, cfg_device_api_version = DEVICE_API_VERSION,
      cfg_heartbeat_interval_secs = 30, cfg_connect_timeout_secs = 10,
      cfg_reconnect_backoff_secs = [1, 2, 5, 10, 30, 60], cfg_progress_step_percent = 5,
      cfg_extensions = none_enabled, cfg_tls_version = TlsVersion_Any,
      cfg_tls_session = new_session, cfg_serializer = Serializer_Json\<rparr>"

definition socket_path :: "config \<Rightarrow> string" where
  "socket_path c = ''/device-socket/websocket?vsn='' @ vsn (cfg_serializer c)"

definition socket_url :: "config \<Rightarrow> string" where
  "socket_url c =
     (let scheme = if cfg_use_tls c then ''wss'' else ''ws''
      in scheme @ ''://'' @ cfg_host c @ '':'' @ dec_nat (unat (cfg_port c)) @ socket_path c)"

definition backoff_for :: "config \<Rightarrow> usize \<Rightarrow> u64" where
  "backoff_for c attempt_number =
     (let backoff = cfg_reconnect_backoff_secs c
      in if backoff = [] then 5
         else if unat attempt_number < length backoff then backoff ! unat attempt_number
         else last backoff)"

subsection \<open>The identity in NVS\<close>

definition PARTITION :: string where "PARTITION = ''certs''"
definition NAMESPACE :: string where "NAMESPACE = ''nerves_hub''"
definition CERTIFICATE_KEY :: string where "CERTIFICATE_KEY = ''device.crt''"
definition PRIVATE_KEY_KEY :: string where "PRIVATE_KEY_KEY = ''device.key''"
definition MAX_BLOB :: nat where "MAX_BLOB = 8 * 1024"

text \<open>
  \<open>EspCustomNvsPartition::take\<close>, \<open>EspNvs::new\<close> and \<open>get_blob\<close>: an error text,
  or what was asked for; \<open>get_blob\<close> is given the size of the buffer it may fill.
\<close>

record 'nvs nvs_calls =
  nvs_take :: "string \<Rightarrow> string + 'nvs"
  nvs_open :: "'nvs \<Rightarrow> string \<Rightarrow> string + 'nvs"
  nvs_get_blob :: "'nvs \<Rightarrow> string \<Rightarrow> nat \<Rightarrow> string + bytes option"

definition read_blob :: "'nvs nvs_calls \<Rightarrow> 'nvs \<Rightarrow> string \<Rightarrow> error + bytes" where
  "read_blob N nvs key = (case nvs_get_blob N nvs key MAX_BLOB of
      Inl e \<Rightarrow> Inl (Error_Identity (''could not read '' @ [CHR 0x27] @ key @ [CHR 0x27] @ '': '' @ e))
    | Inr None \<Rightarrow> Inl (Error_Identity ([CHR 0x27] @ key @ [CHR 0x27] @ '' is not provisioned''))
    | Inr (Some value) \<Rightarrow>
        if length value = 0 then Inl (Error_Identity ([CHR 0x27] @ key @ [CHR 0x27] @ '' is empty''))
        else Inr value)"

text \<open>
  \<open>load\<close> keeps what it read in a \<open>OnceLock\<close>: the second component is the lock's content
  before and after.
\<close>

definition load_uncached :: "'nvs nvs_calls \<Rightarrow> error + credentials" where
  "load_uncached N = (case nvs_take N PARTITION of
      Inl e \<Rightarrow> Inl (Error_Identity
        (''could not open the '' @ [CHR 0x27] @ PARTITION @ [CHR 0x27] @ '' partition: '' @ e))
    | Inr p \<Rightarrow> (case nvs_open N p NAMESPACE of
        Inl e \<Rightarrow> Inl (Error_Identity
          (''could not open namespace '' @ [CHR 0x27] @ NAMESPACE @ [CHR 0x27] @ '': '' @ e))
      | Inr nvs \<Rightarrow> (case read_blob N nvs CERTIFICATE_KEY of
          Inl e \<Rightarrow> Inl e
        | Inr certificate \<Rightarrow> (case read_blob N nvs PRIVATE_KEY_KEY of
            Inl e \<Rightarrow> Inl e
          | Inr private_key \<Rightarrow> client_certificate certificate private_key))))"

definition identity_load ::
    "'nvs nvs_calls \<Rightarrow> credentials option \<Rightarrow> (error + credentials) \<times> credentials option" where
  "identity_load N loaded = (case loaded of
      Some c \<Rightarrow> (Inr c, loaded)
    | None \<Rightarrow> (case load_uncached N of Inl e \<Rightarrow> (Inl e, None) | Inr c \<Rightarrow> (Inr c, Some c)))"

subsection \<open>What configuration promises\<close>

lemma pop_nuls_append: "\<exists>k. bs = pop_nuls bs @ replicate k 0"
proof (induction bs)
  case (Cons b bs)
  then obtain k where "bs = pop_nuls bs @ replicate k 0" by blast
  then have "b # bs = pop_nuls (b # bs) @ replicate (if pop_nuls (b # bs) = [] then Suc k else k) 0"
    by (auto simp: Let_def)
  then show ?case by blast
qed simp

lemma pop_nuls_last: "pop_nuls bs \<noteq> [] \<Longrightarrow> last (pop_nuls bs) \<noteq> 0"
  by (induction bs) (auto simp: Let_def split: if_splits)

text \<open>
  A PEM that is accepted has no NUL in it, and is the blob less its trailing NULs; one with a NUL
  before its end is refused.
\<close>

lemma leak_pem_Inr:
  "leak_pem bs what = Inr c \<longleftrightarrow> bs \<noteq> [] \<and> c = pop_nuls bs \<and> 0 \<notin> set c"
  by (auto simp: leak_pem_def cstring_new_def)

lemma leak_pem_terminated: "0 \<notin> set c \<Longrightarrow> c \<noteq> [] \<Longrightarrow> leak_pem (c @ replicate k 0) what = Inr c"
proof -
  assume c: "0 \<notin> set c" "c \<noteq> []"
  have nuls: "pop_nuls (replicate k 0) = []" for k
    by (induction k) simp_all
  have "pop_nuls (d @ replicate k 0) = d" if "0 \<notin> set d" for d
    using that by (induction d) (simp_all add: nuls)
  with c show ?thesis by (simp add: leak_pem_Inr)
qed

lemma backoff_in_schedule:
  "cfg_reconnect_backoff_secs c \<noteq> [] \<Longrightarrow> backoff_for c i \<in> set (cfg_reconnect_backoff_secs c)"
  by (simp add: backoff_for_def Let_def)

lemma backoff_holds:
  "length (cfg_reconnect_backoff_secs c) \<le> unat i + 1 \<Longrightarrow> unat i \<le> unat j \<Longrightarrow>
     backoff_for c j = backoff_for c i"
  by (auto simp: backoff_for_def Let_def last_conv_nth not_less intro!: arg_cong [where f = "nth _"])

lemma identity_load_once:
  "identity_load N loaded = (Inr c, loaded') \<Longrightarrow> identity_load N' loaded' = (Inr c, loaded')"
  by (auto simp: identity_load_def split: option.splits sum.splits)

subsection \<open>Properties\<close>

text \<open>
  C28: a PEM is accepted exactly when the blob is not empty and has no NUL but at its end, and
  what is handed to the TLS stack is then the blob without the NULs it ended in; so a blob of
  nothing but NULs is accepted, as an empty PEM.
\<close>

theorem leak_pem_accepts:
  "leak_pem bs what = Inr c \<longleftrightarrow>
    bs \<noteq> [] \<and> (\<exists>k. bs = c @ replicate k 0) \<and> 0 \<notin> set c"
proof
  assume "leak_pem bs what = Inr c"
  then show "bs \<noteq> [] \<and> (\<exists>k. bs = c @ replicate k 0) \<and> 0 \<notin> set c"
    using pop_nuls_append [of bs] unfolding leak_pem_Inr by blast
next
  assume c: "bs \<noteq> [] \<and> (\<exists>k. bs = c @ replicate k 0) \<and> 0 \<notin> set c"
  then obtain k where k: "bs = c @ replicate k 0" by blast
  have "pop_nuls (replicate k 0) = []" for k by (induction k) simp_all
  then have "c = [] \<Longrightarrow> pop_nuls bs = []" by (simp add: k)
  then show "leak_pem bs what = Inr c"
    using c k leak_pem_terminated [of c k what] by (cases "c = []") (simp_all add: leak_pem_Inr)
qed

text \<open>
  The identity is read from flash once. Once loaded, later calls give the same credentials
  whatever the partition now holds; a failure is not remembered.
\<close>

lemma identity_is_cached:
  "identity_load N loaded = (r, loaded') \<Longrightarrow>
    (case r of Inr c \<Rightarrow> identity_load N' loaded' = (Inr c, Some c)
     | Inl _ \<Rightarrow> loaded' = None \<and> loaded = None)"
  by (auto simp: identity_load_def split: option.splits sum.splits)

definition empty_nvs :: "unit nvs_calls" where
  "empty_nvs = \<lparr>nvs_take = (\<lambda>_. Inl ''ESP_ERR_NOT_FOUND''), nvs_open = (\<lambda>_ _. Inl []),
     nvs_get_blob = (\<lambda>_ _ _. Inr None)\<rparr>"

definition provisioned_nvs :: "unit nvs_calls" where
  "provisioned_nvs = \<lparr>nvs_take = (\<lambda>_. Inr ()), nvs_open = (\<lambda>_ _. Inr ()),
     nvs_get_blob = (\<lambda>_ key _. Inr (Some (if key = CERTIFICATE_KEY then [67, 0] else [75])))\<rparr>"

lemma identity_is_cached_example:
  "identity_load empty_nvs (snd (identity_load provisioned_nvs None)) =
     (Inr (ClientCertificate [67] [75]), Some (ClientCertificate [67] [75]))"
proof -
  have "identity_load provisioned_nvs None =
      (Inr (ClientCertificate [67] [75]), Some (ClientCertificate [67] [75]))"
    by (simp add: identity_load_def load_uncached_def provisioned_nvs_def read_blob_def client_certificate_def
        leak_pem_def cstring_new_def CERTIFICATE_KEY_def PRIVATE_KEY_KEY_def Let_def)
  from identity_is_cached [OF this, of empty_nvs] this show ?thesis by simp
qed

end
