(* ===== verification/Console.thy ===== *)
theory Console
  imports Utf8 Errors
begin

text \<open>
  \<open>src/console.rs\<close>: the terminal's two halves. \<open>console_output\<close> is where a command writes,
  bounded; \<open>line_reader\<close> assembles keystrokes into lines, one character at a time, with the
  escape sequence and the pending newline carried between chunks.
\<close>

definition PROMPT :: string where "PROMPT = ''esp32> ''"
definition MAX_OUTPUT :: nat where "MAX_OUTPUT = 2048"

subsection \<open>Output\<close>

record console_output =
  out_text :: string
  out_truncated :: bool

definition output_new :: console_output where
  "output_new = \<lparr>out_text = [], out_truncated = False\<rparr>"

definition output_is_empty :: "console_output \<Rightarrow> bool" where
  "output_is_empty o1 = (out_text o1 = [])"

definition truncation_note :: string where
  "truncation_note = crlf @ ''[output truncated]''"

definition finish :: "console_output \<Rightarrow> string" where
  "finish o1 = (if out_truncated o1 then out_text o1 @ truncation_note else out_text o1)"

text \<open>The \<open>while\<close> loop that moves the cut back to a character boundary.\<close>

fun cut_at :: "string \<Rightarrow> nat \<Rightarrow> nat" where
  "cut_at s 0 = 0"
| "cut_at s (Suc n) = (if is_char_boundary s (Suc n) then Suc n else cut_at s n)"

definition write_str :: "string \<Rightarrow> console_output \<Rightarrow> console_output" where
  "write_str s o1 =
     (let room = MAX_OUTPUT - length (out_text o1) in
      if room = 0 then o1\<lparr>out_truncated := True\<rparr>
      else if room < length s then
        o1\<lparr>out_text := out_text o1 @ take (cut_at s room) s, out_truncated := True\<rparr>
      else o1\<lparr>out_text := out_text o1 @ s\<rparr>)"

subsection \<open>Lines\<close>

datatype escape = Escape_No | Escape_Started | Escape_Csi

record line_reader =
  lr_line :: string
  lr_escape :: escape
  lr_pending_newline :: bool

definition line_reader_new :: line_reader where
  "line_reader_new = \<lparr>lr_line = [], lr_escape = Escape_No, lr_pending_newline = False\<rparr>"

text \<open>\<open>String::pop\<close>: without the last character.\<close>

definition string_pop :: "string \<Rightarrow> string" where
  "string_pop s = concat (butlast (utf8_chars s))"

definition ESC :: rchar where "ESC = [CHR 0x1B]"
definition CR :: rchar where "CR = [CHR 0x0D]"
definition LF :: rchar where "LF = [CHR 0x0A]"
definition BS :: rchar where "BS = [CHR 0x08]"
definition DEL :: rchar where "DEL = [CHR 0x7F]"
definition erase :: string where "erase = [CHR 0x08, CHR '' '', CHR 0x08]"

definition csi_final :: "rchar \<Rightarrow> bool" where
  "csi_final c = (length c = 1 \<and> 0x40 \<le> byte_of (hd c) \<and> byte_of (hd c) \<le> 0x7E)"

text \<open>One turn of the loop over \<open>data.chars()\<close>: what it echoes and the lines it completes.\<close>

definition feed_plain :: "rchar \<Rightarrow> bool \<Rightarrow> line_reader \<Rightarrow> string \<times> string list \<times> line_reader" where
  "feed_plain c was_pending r =
     (if c = ESC then ([], [], r\<lparr>lr_escape := Escape_Started\<rparr>)
      else if c = LF \<and> was_pending then ([], [], r)
      else if c = CR \<or> c = LF then
        (crlf, [lr_line r], r\<lparr>lr_pending_newline := (c = CR), lr_line := []\<rparr>)
      else if c = BS \<or> c = DEL then
        (if lr_line r \<noteq> [] then (erase, [], r\<lparr>lr_line := string_pop (lr_line r)\<rparr>) else ([], [], r))
      else if is_control c then ([], [], r)
      else if length (lr_line r) < 256 then (c, [], r\<lparr>lr_line := lr_line r @ c\<rparr>)
      else ([], [], r))"

definition feed_char :: "rchar \<Rightarrow> line_reader \<Rightarrow> string \<times> string list \<times> line_reader" where
  "feed_char c r = (case lr_escape r of
      Escape_Started \<Rightarrow>
        ([], [], r\<lparr>lr_escape := (if c = ''['' then Escape_Csi else Escape_No)\<rparr>)
    | Escape_Csi \<Rightarrow> ([], [], if csi_final c then r\<lparr>lr_escape := Escape_No\<rparr> else r)
    | Escape_No \<Rightarrow> feed_plain c (lr_pending_newline r) (r\<lparr>lr_pending_newline := False\<rparr>))"

fun feed_chars :: "rchar list \<Rightarrow> line_reader \<Rightarrow> string \<times> string list \<times> line_reader" where
  "feed_chars [] r = ([], [], r)"
| "feed_chars (c # cs) r = (case feed_char c r of
      (echo, lines, r') \<Rightarrow> (case feed_chars cs r' of
        (echo', lines', r'') \<Rightarrow> (echo @ echo', lines @ lines', r'')))"

definition feed :: "string \<Rightarrow> line_reader \<Rightarrow> string \<times> string list \<times> line_reader" where
  "feed input r = feed_chars (utf8_chars input) r"

definition parse :: "string \<Rightarrow> (string \<times> string list) option" where
  "parse line = (case split_whitespace line of [] \<Rightarrow> None | name # args \<Rightarrow> Some (name, args))"

subsection \<open>Output stays bounded and valid\<close>

definition output_ok :: "console_output \<Rightarrow> bool" where
  "output_ok o1 \<longleftrightarrow> length (out_text o1) \<le> MAX_OUTPUT \<and> valid_utf8 (out_text o1)"

lemma cut_at_boundary: "is_char_boundary s (cut_at s n) \<and> cut_at s n \<le> n"
  by (induction n) (auto simp: is_char_boundary_def)

lemma write_str_ok:
  assumes "output_ok o1" and "valid_utf8 s"
  shows "output_ok (write_str s o1)"
proof -
  let ?room = "MAX_OUTPUT - length (out_text o1)"
  have cut: "is_char_boundary s (cut_at s ?room)" "cut_at s ?room \<le> ?room"
    using cut_at_boundary by auto
  show ?thesis
  proof (cases "?room < length s")
    case True
    then have "valid_utf8 (take (cut_at s ?room) s)"
      using cut assms(2) by (intro boundary_take_valid) auto
    then show ?thesis
      using assms(1) cut True by (auto simp: output_ok_def write_str_def Let_def valid_utf8_append)
  next
    case False
    then show ?thesis
      using assms by (auto simp: output_ok_def write_str_def Let_def valid_utf8_append)
  qed
qed

definition write_all :: "string list \<Rightarrow> console_output \<Rightarrow> console_output" where
  "write_all ss o1 = fold write_str ss o1"

lemma write_all_ok: "output_ok o1 \<Longrightarrow> list_all valid_utf8 ss \<Longrightarrow> output_ok (write_all ss o1)"
  unfolding write_all_def by (induction ss arbitrary: o1) (auto intro: write_str_ok)

lemma write_all_snoc: "write_all (ss @ [s]) o1 = write_str s (write_all ss o1)"
  by (simp add: write_all_def)

lemma cut_at_greatest: "m \<le> n \<Longrightarrow> is_char_boundary s m \<Longrightarrow> m \<le> cut_at s n"
  by (induction n) (auto simp: le_Suc_eq)

lemma cut_at_near: "valid_utf8 s \<Longrightarrow> n \<le> length s \<Longrightarrow> n \<le> cut_at s n + 3"
  using boundary_near [of s n] cut_at_greatest [of _ n s] by fastforce

lemma write_str_fits:
  "length (out_text o1) + length s \<le> MAX_OUTPUT \<Longrightarrow> s \<noteq> [] \<Longrightarrow>
     write_str s o1 = o1\<lparr>out_text := out_text o1 @ s\<rparr>"
  by (cases s) (auto simp: write_str_def Let_def)

lemma write_all_fits:
  "length (out_text o1) + length (concat ss) \<le> MAX_OUTPUT \<Longrightarrow> [] \<notin> set ss \<Longrightarrow>
     write_all ss o1 = o1\<lparr>out_text := out_text o1 @ concat ss\<rparr>"
proof (induction ss arbitrary: o1)
  case (Cons s ss)
  then have "write_str s o1 = o1\<lparr>out_text := out_text o1 @ s\<rparr>" by (intro write_str_fits) auto
  then show ?case using Cons by (simp add: write_all_def)
qed (simp add: write_all_def)

text \<open>
  What is kept of everything that was written. While it fits, all of it; it counts as truncated
  then only for an empty write at the limit. Once it does not, the first bytes, at most three short
  of the limit, and what later writes still fitted behind them.
\<close>

definition written_when_full :: "string list \<Rightarrow> bool" where
  "written_when_full ss \<longleftrightarrow> (\<exists>i < length ss. ss ! i = [] \<and> length (concat (take i ss)) = MAX_OUTPUT)"

definition kept_of :: "string list \<Rightarrow> console_output \<Rightarrow> bool" where
  "kept_of ss o1 \<longleftrightarrow>
     (if length (concat ss) \<le> MAX_OUTPUT
      then out_text o1 = concat ss \<and> (out_truncated o1 \<longleftrightarrow> written_when_full ss)
      else out_truncated o1 \<and> (\<exists>n q. out_text o1 = take n (concat ss) @ q \<and> n \<le> length (concat ss) \<and>
        MAX_OUTPUT \<le> n + 3 \<and> length (out_text o1) \<le> MAX_OUTPUT \<and> subseq q (drop n (concat ss))))"

lemma written_when_full_snoc:
  "written_when_full (ss @ [s]) \<longleftrightarrow> written_when_full ss \<or> (s = [] \<and> length (concat ss) = MAX_OUTPUT)"
  by (auto simp: written_when_full_def nth_append less_Suc_eq cong: conj_cong)

lemma write_str_appends:
  assumes "length (out_text o1) \<le> MAX_OUTPUT"
  shows "\<exists>k. out_text (write_str s o1) = out_text o1 @ take k s \<and> length (out_text (write_str s o1)) \<le> MAX_OUTPUT"
proof -
  let ?room = "MAX_OUTPUT - length (out_text o1)"
  consider "?room = 0" | "0 < ?room" "?room < length s" | "0 < ?room" "length s \<le> ?room" by linarith
  then show ?thesis
  proof cases
    case 1
    then show ?thesis using assms by (intro exI [of _ 0]) (simp add: write_str_def Let_def)
  next
    case 2
    then show ?thesis using assms cut_at_boundary [of s ?room]
      by (intro exI [of _ "cut_at s ?room"]) (auto simp: write_str_def Let_def)
  next
    case 3
    then show ?thesis by (intro exI [of _ "length s"]) (auto simp: write_str_def Let_def)
  qed
qed

lemma kept_of_write:
  assumes "kept_of ss o1" and "valid_utf8 s"
  shows "kept_of (ss @ [s]) (write_str s o1)"
proof -
  let ?all = "concat ss" and ?room = "MAX_OUTPUT - length (out_text o1)"
  have cut: "cut_at s ?room \<le> ?room" using cut_at_boundary by simp
  show ?thesis
  proof (cases "length ?all \<le> MAX_OUTPUT")
    case True
    then have o1: "out_text o1 = ?all" "out_truncated o1 \<longleftrightarrow> written_when_full ss"
      using assms(1) by (simp_all add: kept_of_def)
    show ?thesis
    proof (cases "length (?all @ s) \<le> MAX_OUTPUT")
      case True
      then show ?thesis
        using o1 by (auto simp: kept_of_def write_str_def Let_def written_when_full_snoc)
    next
      case False
      have "out_text (write_str s o1) = take (length ?all + cut_at s ?room) (?all @ s) @ []"
        using o1 False cut by (auto simp: write_str_def Let_def)
      moreover have "MAX_OUTPUT - length ?all < length s \<or> MAX_OUTPUT \<le> length ?all" using False by auto
      then have "out_truncated (write_str s o1)" using o1 by (auto simp: write_str_def Let_def)
      moreover have "?room \<le> cut_at s ?room + 3"
        using False o1 by (intro cut_at_near assms(2)) simp
      ultimately show ?thesis
        using False True cut o1 unfolding kept_of_def
        by (auto intro!: exI [of _ "length ?all + cut_at s ?room"] exI [of _ "[]"])
    qed
  next
    case False
    then obtain n q where nq: "out_text o1 = take n ?all @ q" "n \<le> length ?all" "MAX_OUTPUT \<le> n + 3"
      "length (out_text o1) \<le> MAX_OUTPUT" "subseq q (drop n ?all)" and trunc: "out_truncated o1"
      using assms(1) by (auto simp: kept_of_def)
    obtain k where k: "out_text (write_str s o1) = out_text o1 @ take k s" "length (out_text (write_str s o1)) \<le> MAX_OUTPUT"
      using write_str_appends [OF nq(4)] by blast
    have "subseq (q @ take k s) (drop n ?all @ s)"
      using nq(5) by (intro list_emb_append_mono) (auto intro: prefix_imp_subseq take_is_prefix)
    moreover have "out_truncated (write_str s o1)" using trunc by (simp add: write_str_def Let_def)
    ultimately show ?thesis
      using False nq k unfolding kept_of_def
      by (auto intro!: exI [of _ n] exI [of _ "q @ take k s"])
  qed
qed

lemma kept_of_all: "list_all valid_utf8 ss \<Longrightarrow> kept_of ss (write_all ss output_new)"
proof (induction ss rule: rev_induct)
  case Nil
  then show ?case by (simp add: kept_of_def write_all_def output_new_def written_when_full_def)
next
  case (snoc s ss)
  then show ?case by (simp add: write_all_snoc kept_of_write)
qed

text \<open>
  So a character that does not fit leaves a hole: a shorter one after it is kept.
\<close>

lemma output_with_a_hole:
  assumes "length s = 2047" and "valid_utf8 s"
  shows "out_text (write_all [s, [CHR 0xC3, CHR 0xA9], ''x''] output_new) = s @ ''x''"
proof -
  have "cut_at [CHR 0xC3, CHR 0xA9] 1 = 0"
    by (simp add: One_nat_def is_char_boundary_def is_continuation_def byte_of_def)
  then show ?thesis
    using assms(1) by (simp add: write_all_def write_str_def output_new_def MAX_OUTPUT_def Let_def)
qed

subsection \<open>However the input is cut into chunks\<close>

lemma feed_chars_append:
  "feed_chars (xs @ ys) r = (case feed_chars xs r of (e, ls, r') \<Rightarrow>
     (case feed_chars ys r' of (e', ls', r'') \<Rightarrow> (e @ e', ls @ ls', r'')))"
  by (induction xs arbitrary: r) (auto split: prod.splits)

lemma feed_append:
  "valid_utf8 a \<Longrightarrow> feed (a @ b) r = (case feed a r of (e, ls, r') \<Rightarrow>
     (case feed b r' of (e', ls', r'') \<Rightarrow> (e @ e', ls @ ls', r'')))"
  by (simp add: feed_def utf8_chars_append feed_chars_append)

fun feed_chunks :: "string list \<Rightarrow> line_reader \<Rightarrow> string \<times> string list \<times> line_reader" where
  "feed_chunks [] r = ([], [], r)"
| "feed_chunks (d # ds) r = (case feed d r of (e, ls, r') \<Rightarrow>
     (case feed_chunks ds r' of (e', ls', r'') \<Rightarrow> (e @ e', ls @ ls', r'')))"

lemma feed_chunks_whole:
  "list_all valid_utf8 ds \<Longrightarrow> feed_chunks ds r = feed (concat ds) r"
proof (induction ds arbitrary: r)
  case Nil
  then show ?case by (simp add: feed_def)
next
  case (Cons d ds)
  then show ?case by (simp add: feed_append split: prod.splits)
qed

subsection \<open>What a line can be\<close>

text \<open>
  Whole characters, none a control character, and at most 259 bytes: the check is made before a
  character is pushed, so one of up to four bytes may follow the 255th.
\<close>

definition plain_line :: "string \<Rightarrow> bool" where
  "plain_line s \<longleftrightarrow> valid_utf8 s \<and> list_all (\<lambda>c. \<not> is_control c) (utf8_chars s) \<and> length s \<le> 259"

lemma plain_line_Nil [simp]: "plain_line []"
  by (simp add: plain_line_def)

lemma plain_line_snoc:
  assumes "plain_line s" and "valid_char c" and "\<not> is_control c" and "length s < 256"
  shows "plain_line (s @ c)"
proof -
  have "valid_utf8 c" and "utf8_chars c = [c]"
    using assms(2) valid_utf8_concat [of "[c]"] utf8_chars_of_concat [of "[c]"] by auto
  moreover have "length c \<le> 4" using valid_char_length [OF assms(2)] by simp
  ultimately show ?thesis
    using assms by (simp add: plain_line_def utf8_chars_append valid_utf8_append)
qed

lemma plain_line_pop:
  assumes "plain_line s"
  shows "plain_line (string_pop s)"
proof -
  have all: "list_all valid_char (butlast (utf8_chars s))"
    using assms by (auto simp: plain_line_def valid_utf8_def list_all_iff dest: in_set_butlastD)
  have "length (concat (butlast (utf8_chars s))) \<le> length (concat (utf8_chars s))"
    by (cases "utf8_chars s" rule: rev_cases) auto
  then show ?thesis
    using assms all valid_utf8_concat [OF all] utf8_chars_of_concat [OF all]
    by (auto simp: plain_line_def string_pop_def list_all_iff dest: in_set_butlastD)
qed

lemma feed_char_plain:
  assumes "feed_char c r = (echo, lines, r')" and "valid_char c" and "plain_line (lr_line r)"
  shows "plain_line (lr_line r') \<and> list_all plain_line lines"
  using assms
  by (auto simp: feed_char_def feed_plain_def plain_line_pop plain_line_snoc
        split: escape.splits if_splits)

lemma feed_chars_plain:
  assumes "feed_chars cs r = (echo, lines, r')" and "list_all valid_char cs"
    and "plain_line (lr_line r)"
  shows "plain_line (lr_line r') \<and> list_all plain_line lines"
  using assms
proof (induction cs arbitrary: r echo lines r')
  case (Cons c cs)
  obtain e1 l1 r1 where c: "feed_char c r = (e1, l1, r1)" by (metis prod_cases3)
  obtain e2 l2 r2 where cs: "feed_chars cs r1 = (e2, l2, r2)" by (metis prod_cases3)
  have "plain_line (lr_line r1) \<and> list_all plain_line l1"
    using feed_char_plain [OF c] Cons.prems by simp
  then show ?case using Cons.IH [OF cs] Cons.prems c cs by auto
qed simp

text \<open>An input with no Enter in it completes no line, and every Enter outside an escape
  sequence completes one, \<open>CR LF\<close> counting once.\<close>

lemma feed_plain_typed:
  assumes "list_all (\<lambda>c. valid_char c \<and> \<not> is_control c) cs"
    and "lr_escape r = Escape_No" and "length (lr_line r @ concat cs) \<le> 256"
  shows "feed_chars cs r =
    (concat cs, [], r\<lparr>lr_line := lr_line r @ concat cs,
       lr_pending_newline := (cs = [] \<and> lr_pending_newline r)\<rparr>)"
  using assms
proof (induction cs arbitrary: r)
  case (Cons c cs)
  have "\<not> is_control c" and len: "1 \<le> length c" using Cons.prems valid_char_length by auto
  then have "c \<noteq> ESC" "c \<noteq> CR" "c \<noteq> LF" "c \<noteq> BS" "c \<noteq> DEL"
    by (auto simp: ESC_def CR_def LF_def BS_def DEL_def byte_of_def)
  moreover have "length (lr_line r) < 256" using Cons.prems len by simp
  ultimately have "feed_char c r = (c, [], r\<lparr>lr_pending_newline := False, lr_line := lr_line r @ c\<rparr>)"
    using Cons.prems by (simp add: feed_char_def feed_plain_def)
  then show ?case
    using Cons.IH [of "r\<lparr>lr_pending_newline := False, lr_line := lr_line r @ c\<rparr>"] Cons.prems by simp
qed simp

subsection \<open>Properties\<close>

text \<open>
  C29: the line reader sees one stream. However the operator's input is cut into messages, between
  characters, what it echoes, the lines it completes and the state it ends in are those of the
  whole.
\<close>

theorem input_chunks_do_not_matter:
  "list_all valid_utf8 ds \<Longrightarrow> feed_chunks ds r = feed (concat ds) r"
  by (rule feed_chunks_whole)

theorem input_chunks_do_not_matter_witness:
  "feed_chunks [''he'', ''ap'' @ CR, LF] line_reader_new = feed (''heap'' @ CR @ LF) line_reader_new"
proof -
  have "list_all valid_utf8 [''he'', ''ap'' @ CR, LF]" by code_simp
  from input_chunks_do_not_matter [OF this, of line_reader_new] show ?thesis by simp
qed

text \<open>
  C30: a line the console runs, and the line being typed, is whole characters none of which is a
  control character, so no escape sequence reaches a command; and it is at most 259 bytes, the
  limit of 256 being tested before a character of up to four bytes is added.
\<close>

theorem lines_are_plain:
  assumes "feed input line_reader_new = (echo, lines, r)" and "valid_utf8 input"
  shows "list_all plain_line lines \<and> plain_line (lr_line r)"
  using assms feed_chars_plain [of "utf8_chars input" line_reader_new echo lines r]
  by (simp add: feed_def valid_utf8_def line_reader_new_def)

theorem lines_are_plain_witness:
  "list_all plain_line (fst (snd (feed (''up'' @ ESC @ ''[A'' @ CR) line_reader_new))) \<and>
   fst (snd (feed (''up'' @ ESC @ ''[A'' @ CR) line_reader_new)) = [''up'']"
proof -
  have valid: "valid_utf8 (''up'' @ ESC @ ''[A'' @ CR)" by code_simp
  have run: "fst (snd (feed (''up'' @ ESC @ ''[A'' @ CR) line_reader_new)) = [''up'']" by code_simp
  obtain e r where "feed (''up'' @ ESC @ ''[A'' @ CR) line_reader_new = (e, [''up''], r)"
    using run by (metis prod.collapse)
  from lines_are_plain [OF this valid] run show ?thesis by simp
qed



end
