(* ===== verification/Link.thy ===== *)
theory Link
  imports World Config Console
begin

text \<open>
  \<open>src/link.rs\<close>: the channel state machine. A method that takes \<open>&mut self\<close>, the
  transport and perhaps the handler is a program on \<open>link_world\<close>, the world with the link in
  it; one that takes \<open>&self\<close> is a function of the link.
\<close>

datatype action =
    Action_Extension "outgoing list"
  | Action_None
  | Action_ApplyUpdate update_payload
  | Action_Reboot
  | Action_Identify
  | Action_Console string
  | Action_ConsoleRestart
  | Action_Reconnect

record link =
  lk_config :: config
  lk_metadata :: firmware_metadata
  lk_refs :: ref_generator
  lk_join_ref :: "string option"
  lk_extensions :: extensions
  lk_extensions_join_ref :: "string option"
  lk_console_join_ref :: "string option"
  lk_console_wanted :: bool
  lk_joined :: bool
  lk_downloading :: "string option"
  lk_heartbeat_ref :: "string option"

definition link_new :: "config \<Rightarrow> firmware_metadata \<Rightarrow> link" where
  "link_new config metadata =
     \<lparr>lk_config = config, lk_metadata = metadata, lk_refs = 0, lk_join_ref = None,
      lk_extensions = new_extensions (cfg_extensions config), lk_extensions_join_ref = None,
      lk_console_join_ref = None, lk_console_wanted = False, lk_joined = False,
      lk_downloading = None, lk_heartbeat_ref = None\<rparr>"

record link_world = world +
  lk :: link

subsection \<open>Reading and changing the link\<close>

definition link_get :: "(link \<Rightarrow> 'a) \<Rightarrow> ('s link_world_scheme, 'a) prog" where
  "link_get f = gets (\<lambda>s. f (lk s))"

definition link_set :: "(link \<Rightarrow> link) \<Rightarrow> ('s link_world_scheme, unit) prog" where
  "link_set g = modify (\<lambda>s. s\<lparr>lk := g (lk s)\<rparr>)"

definition set_downloading :: "string option \<Rightarrow> ('s link_world_scheme, unit) prog" where
  "set_downloading uuid = link_set (\<lambda>l. l\<lparr>lk_downloading := uuid\<rparr>)"

definition want_console :: "link \<Rightarrow> link" where
  "want_console l = l\<lparr>lk_console_wanted := True\<rparr>"

definition heartbeat_unanswered :: "link \<Rightarrow> bool" where
  "heartbeat_unanswered l = (lk_heartbeat_ref l \<noteq> None)"

definition console_joined :: "link \<Rightarrow> bool" where
  "console_joined l = (lk_console_join_ref l \<noteq> None)"

definition extensions_wanted :: "link \<Rightarrow> bool" where
  "extensions_wanted l = wanted (lk_extensions l)"

definition extensions_joined :: "link \<Rightarrow> bool" where
  "extensions_joined l = ext_joined (lk_extensions l)"

definition extensions_invited :: "link \<Rightarrow> bool" where
  "extensions_invited l = invited (lk_extensions l)"

definition link_logging_batched :: "link \<Rightarrow> bool" where
  "link_logging_batched l = logging_batched (lk_extensions l)"

definition logging_attached :: "link \<Rightarrow> bool" where
  "logging_attached l = is_attached (lk_extensions l) LOGGING"

definition attached_extensions :: "link \<Rightarrow> string list" where
  "attached_extensions l = attached (lk_extensions l)"

text \<open>\<open>self.refs.next_ref()\<close>.\<close>

definition fresh_ref :: "('s link_world_scheme, string) prog" where
  "fresh_ref = (\<lambda>s. case next_ref (lk_refs (lk s)) of (r, g) \<Rightarrow>
     Some (Inr r, s\<lparr>lk := (lk s)\<lparr>lk_refs := g\<rparr>\<rparr>))"

subsection \<open>Writing\<close>

definition link_write :: "message \<Rightarrow> ('s link_world_scheme, unit) prog" where
  "link_write m = andthen (gets (\<lambda>s. encode_as (e_codec (w_env s)) m (cfg_serializer (lk_config (lk s)))))
     (\<lambda>r. andthen (result r) send_frame)"

definition link_send :: "message \<Rightarrow> string option \<Rightarrow> ('s link_world_scheme, unit) prog" where
  "link_send m reference =
     andthen (link_get lk_join_ref) (\<lambda>join_ref. link_write (with_refs m join_ref reference))"

definition send_join :: "boot_report \<Rightarrow> ('s link_world_scheme, unit) prog" where
  "send_join boot =
     andthen fresh_ref (\<lambda>reference.
     andthen (link_set (\<lambda>l. l\<lparr>lk_join_ref := Some reference, lk_joined := False\<rparr>)) (\<lambda>_.
     andthen (link_get (\<lambda>l. join_params (lk_metadata l) (cfg_device_api_version (lk_config l))
       (lk_downloading l) boot)) (\<lambda>params.
     link_send (new_message DEVICE_TOPIC EV_JOIN params) (Some reference))))"

definition send_heartbeat :: "('s link_world_scheme, unit) prog" where
  "send_heartbeat =
     andthen fresh_ref (\<lambda>reference.
     andthen (link_set (\<lambda>l. l\<lparr>lk_heartbeat_ref := Some reference\<rparr>)) (\<lambda>_.
     link_write (with_refs (new_message CONTROL_TOPIC EV_HEARTBEAT (jobj [])) None (Some reference))))"

definition send_event :: "string \<Rightarrow> json \<Rightarrow> ('s link_world_scheme, unit) prog" where
  "send_event event pl =
     andthen fresh_ref (\<lambda>reference.
     link_send (new_message DEVICE_TOPIC event pl) (Some reference))"

definition send_progress :: "stage \<Rightarrow> u8 \<Rightarrow> ('s link_world_scheme, unit) prog" where
  "send_progress st percent = send_event EV_UPDATE_PROGRESS
     (jobj [(''value'', jint (ucast percent)), (''stage'', jstr (stage_str st))])"

definition send_firmware_validated :: "('s link_world_scheme, unit) prog" where
  "send_firmware_validated = send_event EV_FIRMWARE_VALIDATED (jobj [])"

definition status_payload :: "string \<Rightarrow> json \<Rightarrow> json" where
  "status_payload status extra =
     (let pl = jobj [(''status'', jstr status)]
      in case as_object extra of
          None \<Rightarrow> pl
        | Some m \<Rightarrow> fold (\<lambda>(key, value) p. json_set p key value) m pl)"

definition send_status :: "string \<Rightarrow> json \<Rightarrow> ('s link_world_scheme, unit) prog" where
  "send_status status extra = send_event EV_STATUS_UPDATE (status_payload status extra)"

definition send_rebooting :: "('s link_world_scheme, unit) prog" where
  "send_rebooting = send_event EV_REBOOTING (jobj [])"

subsection \<open>The console's channel\<close>

definition send_console_join :: "('s link_world_scheme, unit) prog" where
  "send_console_join =
     andthen fresh_ref (\<lambda>reference.
     andthen (link_set (\<lambda>l. l\<lparr>lk_console_join_ref := Some reference\<rparr>)) (\<lambda>_.
     link_write (with_refs (new_message CONSOLE_TOPIC EV_JOIN
       (jobj [(''console_version'', jstr CONSOLE_VERSION)])) (Some reference) (Some reference))))"

definition send_console :: "string \<Rightarrow> ('s link_world_scheme, unit) prog" where
  "send_console text =
     (if text = [] then ok ()
      else andthen fresh_ref (\<lambda>reference.
        andthen (link_get lk_console_join_ref) (\<lambda>join_ref.
        link_write (with_refs (new_message CONSOLE_TOPIC EV_UP (jobj [(''data'', jstr text)]))
          join_ref (Some reference)))))"

definition no_file_transfer :: string where
  "no_file_transfer = crlf @ ''file transfer is not supported on this device'' @ crlf"

definition handle_console_frame :: "message \<Rightarrow> ('s link_world_scheme, action) prog" where
  "handle_console_frame m =
     (if msg_event m = EV_REPLY then
        andthen (link_get lk_console_join_ref) (\<lambda>join_ref.
        andthen (only_if (join_ref = msg_reference m) (send_console PROMPT)) (\<lambda>_.
        ok Action_None))
      else if msg_event m = EV_DOWN then
        (case Option.bind (json_get (msg_payload m) ''data'') as_str of
            Some text \<Rightarrow> ok (Action_Console text)
          | None \<Rightarrow> ok Action_None)
      else if msg_event m = EV_RESTART then ok Action_ConsoleRestart
      else if msg_event m \<in> {EV_FILE_DATA_START, EV_FILE_DATA, EV_FILE_DATA_STOP} then
        andthen (send_console no_file_transfer) (\<lambda>_. ok Action_None)
      else ok Action_None)"

subsection \<open>The extensions' channel\<close>

definition send_extensions_join :: "('s link_world_scheme, unit) prog" where
  "send_extensions_join = (\<lambda>s.
     case join_message (lk_extensions (lk s)) (lk_refs (lk s)) of ((reference, m), g) \<Rightarrow>
       andthen (link_set (\<lambda>l. l\<lparr>lk_refs := g, lk_extensions_join_ref := Some reference\<rparr>))
         (\<lambda>_. link_write (with_refs m (Some reference) (Some reference))) s)"

definition send_outgoing :: "outgoing \<Rightarrow> ('s link_world_scheme, unit) prog" where
  "send_outgoing out = (case out of
      Send event pl \<Rightarrow>
        andthen fresh_ref (\<lambda>reference.
        andthen (link_get lk_extensions_join_ref) (\<lambda>join_ref.
        link_write (with_refs (new_message EXTENSIONS_TOPIC event pl) join_ref (Some reference))))
    | _ \<Rightarrow> ok ())"

definition send_extension :: "outgoing list \<Rightarrow> ('s link_world_scheme, unit) prog" where
  "send_extension outs = for_each outs send_outgoing"

definition location_answer :: "location option \<Rightarrow> outgoing list" where
  "location_answer l = location_out l"

definition health_answer :: "health_report \<Rightarrow> outgoing list" where
  "health_answer r = health_out r"

definition send_log :: "log_line \<Rightarrow> ('s link_world_scheme, unit) prog" where
  "send_log line = andthen (link_get (\<lambda>l. log_out (lk_extensions l) line)) send_extension"

definition link_send_logs :: "log_line list \<Rightarrow> ('s link_world_scheme, unit) prog" where
  "link_send_logs lines =
     andthen (link_get (\<lambda>l. log_batch (lk_extensions l) lines)) (\<lambda>batch. case batch of
         Some batch \<Rightarrow>
           andthen fresh_ref (\<lambda>reference.
           andthen (gets (\<lambda>s. encode_frame (e_codec (w_env s)) (cfg_serializer (lk_config (lk s)))
               (lk_extensions_join_ref (lk s)) (Some reference) EXTENSIONS_TOPIC ''logging:send''
               (batch_json batch))) (\<lambda>r.
           andthen (result r) send_frame))
       | None \<Rightarrow> andthen (link_get (\<lambda>l. logs_out (lk_extensions l) lines)) send_extension)"

definition handle_extension_frame :: "message \<Rightarrow> ('s link_world_scheme, action) prog" where
  "handle_extension_frame m =
     (if msg_event m = EV_REPLY then
        andthen (link_get lk_extensions_join_ref) (\<lambda>join_ref.
        andthen (if join_ref = msg_reference m then
            (let response = (case reply_response m of None \<Rightarrow> JArray [] | Some r \<Rightarrow> r)
             in andthen (link_get (\<lambda>l. on_join_reply response (lk_extensions l))) (\<lambda>(confirmations, x).
                andthen (link_set (\<lambda>l. l\<lparr>lk_extensions := x\<rparr>)) (\<lambda>_.
                send_extension confirmations)))
          else ok ()) (\<lambda>_.
        ok Action_None))
      else
        andthen (link_get (\<lambda>l. on_event (lk_extensions l) (msg_event m))) (\<lambda>outs.
        ok (if outs = [] then Action_None else Action_Extension outs)))"

subsection \<open>The device's channel\<close>

definition decide :: "update_payload \<Rightarrow> ('s link_world_scheme, action) prog" where
  "decide u =
     (if actionable u = None then ok Action_None
      else andthen (do_decide u) (\<lambda>d. case d of
          Apply \<Rightarrow> ok (Action_ApplyUpdate u)
        | Ignore reason \<Rightarrow>
            andthen (send_status ''ignored'' (jobj [(''reason'', jstr reason)])) (\<lambda>_. ok Action_None)
        | Reschedule delay reason \<Rightarrow>
            andthen (send_status ''rescheduled''
              (jobj [(''delay_for'', jint delay), (''reason'', jstr reason)])) (\<lambda>_. ok Action_None)))"

definition parse_payload :: "json \<Rightarrow> ('s link_world_scheme, update_payload) prog" where
  "parse_payload j = andthen (gets (\<lambda>s. parse_update (e_codec (w_env s)) j)) result"

definition refusal :: "message \<Rightarrow> string" where
  "refusal m = (case Option.bind (Option.bind (reply_response m) (\<lambda>r. json_get r ''reason'')) as_str of
      None \<Rightarrow> ''unknown'' | Some reason \<Rightarrow> reason)"

definition handle_reply :: "message \<Rightarrow> ('s link_world_scheme, action) prog" where
  "handle_reply m =
     andthen (link_get lk_join_ref) (\<lambda>join_ref.
     if join_ref \<noteq> msg_reference m then ok Action_None
     else if \<not> is_ok_reply_to m (case join_ref of None \<Rightarrow> [] | Some r \<Rightarrow> r)
       then fail (Error_JoinRefused (refusal m))
     else
       andthen (link_set (\<lambda>l. l\<lparr>lk_joined := True\<rparr>)) (\<lambda>_.
       case reply_response m of
         Some response \<Rightarrow> andthen (parse_payload response) decide
       | None \<Rightarrow> ok Action_None))"

definition answers_heartbeat :: "message \<Rightarrow> link \<Rightarrow> bool" where
  "answers_heartbeat m l =
     (msg_event m = EV_REPLY \<and> msg_reference m \<noteq> None \<and> msg_reference m = lk_heartbeat_ref l)"

definition handle_message :: "message \<Rightarrow> ('s link_world_scheme, action) prog" where
  "handle_message m =
     (if msg_topic m = EXTENSIONS_TOPIC then handle_extension_frame m
      else if msg_topic m = CONSOLE_TOPIC then handle_console_frame m
      else if msg_topic m = CONTROL_TOPIC then
        andthen (link_get (answers_heartbeat m)) (\<lambda>answers.
        andthen (only_if answers (link_set (\<lambda>l. l\<lparr>lk_heartbeat_ref := None\<rparr>))) (\<lambda>_.
        ok Action_None))
      else if msg_event m = EV_REPLY then handle_reply m
      else if msg_event m = EV_UPDATE then andthen (parse_payload (msg_payload m)) decide
      else if msg_event m = EV_REBOOT then ok Action_Reboot
      else if msg_event m = EV_IDENTIFY then ok Action_Identify
      else if msg_event m = EV_EXTENSIONS_GET then
        andthen (link_set (\<lambda>l. l\<lparr>lk_extensions := on_invitation (msg_payload m) (lk_extensions l)\<rparr>))
          (\<lambda>_. ok Action_None)
      else if msg_event m = EV_CLOSE \<or> msg_event m = EV_ERROR then
        andthen (link_set (\<lambda>l. l\<lparr>lk_joined := False, lk_extensions := disconnected (lk_extensions l)\<rparr>))
          (\<lambda>_. ok Action_Reconnect)
      else ok Action_None)"

definition handle_frame :: "string \<Rightarrow> ('s link_world_scheme, action) prog" where
  "handle_frame text =
     andthen (gets (\<lambda>s. case decode (e_codec (w_env s)) text of
         Inl e \<Rightarrow> Inl (error_from_serde e) | Inr m \<Rightarrow> Inr m)) (\<lambda>r.
     andthen (result r) handle_message)"

definition handle :: "frame \<Rightarrow> ('s link_world_scheme, action) prog" where
  "handle f =
     andthen (gets (\<lambda>s. decode_frame (e_codec (w_env s)) f)) (\<lambda>r.
     andthen (result r) handle_message)"

subsection \<open>What each method emits\<close>

text \<open>
  Frames out, and for \<open>handle\<close> the question put to the update handler: no method of the
  link touches the flash, confirms the image or restarts.
\<close>

fun link_event :: "event \<Rightarrow> bool" where
  "link_event (Ev_Sent f r) = True"
| "link_event (Ev_Offered u d) = True"
| "link_event _ = False"

lemma emits_link_get [quiet_intros]: "stays (emits P) (link_get f)"
  by (simp add: link_get_def emits.stays_gets)

lemma emits_link_set [quiet_intros]: "stays (emits P) (link_set g)"
  by (auto simp: stays_def link_set_def modify_def emits_def)

lemma emits_fresh_ref [quiet_intros]: "stays (emits P) fresh_ref"
  by (auto simp: stays_def fresh_ref_def emits_def split: prod.splits)

lemma emits_send_frame [quiet_intros]: "(\<And>r. P (Ev_Sent f r)) \<Longrightarrow> stays (emits P) (send_frame f)"
  by (simp add: send_frame_def stays_fallible_call)

lemma emits_do_decide [quiet_intros]: "(\<And>d. P (Ev_Offered u d)) \<Longrightarrow> stays (emits P) (do_decide u)"
  by (simp add: do_decide_def stays_call)

lemmas emits_rules = emits.stays_rules quiet_intros

lemma emits_link_write: "stays (emits link_event) (link_write m)"
  unfolding link_write_def by (intro emits_rules) simp_all

lemma emits_link_send: "stays (emits link_event) (link_send m r)"
  unfolding link_send_def by (intro emits_rules emits_link_write)

lemma emits_send_event: "stays (emits link_event) (send_event ev pl)"
  unfolding send_event_def by (intro emits_rules emits_link_send)

lemma emits_send_join: "stays (emits link_event) (send_join boot)"
  unfolding send_join_def by (intro emits_rules emits_link_send)

lemma emits_send_heartbeat: "stays (emits link_event) send_heartbeat"
  unfolding send_heartbeat_def by (intro emits_rules emits_link_write)

lemma emits_send_console: "stays (emits link_event) (send_console text)"
  unfolding send_console_def by (auto intro!: emits_rules emits_link_write)

lemma emits_send_console_join: "stays (emits link_event) send_console_join"
  unfolding send_console_join_def by (intro emits_rules emits_link_write)

lemma emits_send_outgoing: "stays (emits link_event) (send_outgoing out)"
  unfolding send_outgoing_def by (cases out) (auto intro!: emits_rules emits_link_write)

lemma emits_send_extension: "stays (emits link_event) (send_extension outs)"
  unfolding send_extension_def by (intro emits_rules emits_send_outgoing)

lemma emits_send_extensions_join: "stays (emits link_event) send_extensions_join"
proof (rule staysI)
  fix s r t
  assume run: "send_extensions_join s = Some (r, t)"
  obtain reference m g where j: "join_message (lk_extensions (lk s)) (lk_refs (lk s)) = ((reference, m), g)"
    by (metis surj_pair)
  have "stays (emits link_event)
      (andthen (link_set (\<lambda>l. l\<lparr>lk_refs := g, lk_extensions_join_ref := Some reference\<rparr>))
         (\<lambda>_. link_write (with_refs m (Some reference) (Some reference))))"
    by (intro emits_rules emits_link_write)
  then show "emits link_event s t"
    using run by (auto simp: send_extensions_join_def j dest: staysD)
qed

lemma emits_link_send_logs: "stays (emits link_event) (link_send_logs lines)"
  unfolding link_send_logs_def
  by (auto intro!: emits_rules emits_send_extension split: option.split)

lemmas emits_sending = emits_link_write emits_link_send emits_send_event emits_send_join
  emits_send_heartbeat emits_send_console emits_send_console_join emits_send_extension
  emits_send_extensions_join emits_link_send_logs

lemma emits_decide: "stays (emits link_event) (decide u)"
  unfolding decide_def send_status_def
  by (auto intro!: emits_rules emits_sending split: update_decision.split)

lemma emits_parse_payload: "stays (emits link_event) (parse_payload j)"
  unfolding parse_payload_def by (intro emits_rules)

lemma emits_handle_reply: "stays (emits link_event) (handle_reply m)"
  unfolding handle_reply_def
  by (auto intro!: emits_rules emits_decide emits_parse_payload split: option.split)

lemma emits_handle_console_frame: "stays (emits link_event) (handle_console_frame m)"
  unfolding handle_console_frame_def
  by (auto intro!: emits_rules emits_sending split: option.split)

lemma emits_handle_extension_frame: "stays (emits link_event) (handle_extension_frame m)"
  unfolding handle_extension_frame_def Let_def
  by (auto intro!: emits_rules emits_sending split: prod.split)

lemma emits_handle_message: "stays (emits link_event) (handle_message m)"
  unfolding handle_message_def
  by (auto intro!: emits_rules emits_handle_reply emits_handle_console_frame
      emits_handle_extension_frame emits_decide emits_parse_payload)

lemma emits_handle: "stays (emits link_event) (handle f)"
  unfolding handle_def by (intro emits_rules emits_handle_message)

subsection \<open>What each method keeps\<close>

text \<open>
  \<open>keeps g\<close>: the part \<open>g\<close> of the link is what it was. The core is what says whether,
  and as whom, the device channel is joined; only joining and the server's answer change it.
\<close>

definition keeps :: "(link \<Rightarrow> 'a) \<Rightarrow> 's link_world_scheme \<Rightarrow> 's link_world_scheme \<Rightarrow> bool" where
  "keeps g s t \<longleftrightarrow> g (lk t) = g (lk s)"

interpretation keeps: run_relation "keeps g"
  by unfold_locales (simp_all add: keeps_def)

definition link_core :: "link \<Rightarrow> bool \<times> string option \<times> config \<times> bool" where
  "link_core l = (lk_joined l, lk_join_ref l, lk_config l, lk_console_wanted l)"

lemma keeps_link_get [keeps_intros]: "stays (keeps g) (link_get f)"
  by (simp add: link_get_def keeps.stays_gets)

lemma keeps_link_set [keeps_intros]: "(\<And>l. g (f l) = g l) \<Longrightarrow> stays (keeps g) (link_set f)"
  by (auto simp: stays_def link_set_def modify_def keeps_def)

lemma keeps_fresh_ref [keeps_intros]: "(\<And>l x. g (l\<lparr>lk_refs := x\<rparr>) = g l) \<Longrightarrow> stays (keeps g) fresh_ref"
  by (auto simp: stays_def fresh_ref_def keeps_def split: prod.splits)

lemma keeps_call [keeps_intros]: "stays (keeps g) (call f ev)"
  by (auto simp: stays_def call_run keeps_def)

lemma keeps_fallible_call [keeps_intros]: "stays (keeps g) (fallible_call f ev)"
  by (auto simp: stays_def fallible_call_run keeps_def)

lemma keeps_tell [keeps_intros]: "stays (keeps g) (tell ev)"
  by (auto simp: stays_def tell_run keeps_def)

lemma keeps_send_frame [keeps_intros]: "stays (keeps g) (send_frame f)"
  by (simp add: send_frame_def keeps_fallible_call)

lemma keeps_do_decide [keeps_intros]: "stays (keeps g) (do_decide u)"
  by (simp add: do_decide_def keeps_call)

text \<open>Every way of writing but the join keeps the core.\<close>

lemma keeps_link_write [keeps_intros]: "stays (keeps g) (link_write m)"
  unfolding link_write_def by (intro keeps.stays_rules keeps_intros)

lemma keeps_link_send [keeps_intros]: "stays (keeps g) (link_send m r)"
  unfolding link_send_def by (intro keeps.stays_rules keeps_intros)

lemma core_send_event: "stays (keeps link_core) (send_event ev pl)"
  unfolding send_event_def by (intro keeps.stays_rules keeps_intros) (simp add: link_core_def)

lemma core_send_heartbeat: "stays (keeps link_core) send_heartbeat"
  unfolding send_heartbeat_def by (intro keeps.stays_rules keeps_intros) (simp_all add: link_core_def)

lemma core_send_console: "stays (keeps link_core) (send_console text)"
  unfolding send_console_def by (auto intro!: keeps.stays_rules keeps_intros simp: link_core_def)

lemma core_send_console_join: "stays (keeps link_core) send_console_join"
  unfolding send_console_join_def by (intro keeps.stays_rules keeps_intros) (simp_all add: link_core_def)

lemma core_send_outgoing: "stays (keeps link_core) (send_outgoing out)"
  unfolding send_outgoing_def by (cases out) (auto intro!: keeps.stays_rules keeps_intros simp: link_core_def)

lemma core_send_extension: "stays (keeps link_core) (send_extension outs)"
  unfolding send_extension_def by (intro keeps.stays_rules keeps_intros core_send_outgoing)

lemma core_link_send_logs: "stays (keeps link_core) (link_send_logs lines)"
  unfolding link_send_logs_def
  by (auto intro!: keeps.stays_rules keeps_intros core_send_extension simp: link_core_def split: option.split)

lemma core_send_extensions_join: "stays (keeps link_core) send_extensions_join"
proof (rule staysI)
  fix s r t
  assume run: "send_extensions_join s = Some (r, t)"
  obtain reference m g where j: "join_message (lk_extensions (lk s)) (lk_refs (lk s)) = ((reference, m), g)"
    by (metis surj_pair)
  have "stays (keeps link_core)
      (andthen (link_set (\<lambda>l. l\<lparr>lk_refs := g, lk_extensions_join_ref := Some reference\<rparr>))
         (\<lambda>_. link_write (with_refs m (Some reference) (Some reference))))"
    by (intro keeps.stays_rules keeps_intros) (simp add: link_core_def)
  then show "keeps link_core s t"
    using run by (auto simp: send_extensions_join_def j dest: staysD)
qed

lemma core_set_downloading: "stays (keeps link_core) (set_downloading u)"
  unfolding set_downloading_def by (intro keeps.stays_rules keeps_intros) (simp add: link_core_def)

lemmas core_sending = core_send_event core_send_heartbeat core_send_console core_send_console_join
  core_send_extension core_link_send_logs core_send_extensions_join core_set_downloading

lemma core_decide: "stays (keeps link_core) (decide u)"
  unfolding decide_def send_status_def
  by (auto intro!: keeps.stays_rules keeps_intros core_sending split: update_decision.split)

lemma core_handle_console_frame: "stays (keeps link_core) (handle_console_frame m)"
  unfolding handle_console_frame_def
  by (auto intro!: keeps.stays_rules keeps_intros core_sending split: option.split)

lemma core_handle_extension_frame: "stays (keeps link_core) (handle_extension_frame m)"
  unfolding handle_extension_frame_def Let_def
  by (auto intro!: keeps.stays_rules keeps_intros core_sending simp: link_core_def split: prod.split)

lemma core_parse_payload: "stays (keeps link_core) (parse_payload j)"
  unfolding parse_payload_def by (intro keeps.stays_rules keeps_intros)

subsection \<open>The join\<close>

text \<open>
  The channel becomes joined by one thing only: a reply on it, to the join's own reference, with
  status \<open>ok\<close>. Whatever a message does, it leaves the reference alone.
\<close>

definition accepts_join :: "message \<Rightarrow> link \<Rightarrow> bool" where
  "accepts_join m l = (\<exists>r. lk_join_ref l = Some r \<and> is_ok_reply_to m r)"

definition joining :: "bool \<Rightarrow> 's link_world_scheme \<Rightarrow> 's link_world_scheme \<Rightarrow> bool" where
  "joining acc s t \<longleftrightarrow> lk_join_ref (lk t) = lk_join_ref (lk s) \<and>
     lk_config (lk t) = lk_config (lk s) \<and> lk_console_wanted (lk t) = lk_console_wanted (lk s) \<and>
     (lk_joined (lk t) \<longrightarrow> lk_joined (lk s) \<or> acc)"

interpretation joining: run_relation "joining acc"
  by unfold_locales (auto simp: joining_def)

lemma core_joining: "stays (keeps link_core) m \<Longrightarrow> stays (joining acc) m"
  by (auto simp: stays_def keeps_def link_core_def joining_def)

lemma joining_handle_reply:
  assumes "handle_reply m s = Some (r, t)"
  shows "joining (accepts_join m (lk s)) s t"
proof (cases "accepts_join m (lk s)")
  case True
  have set_joined: "stays (joining True) (link_set (\<lambda>l. l\<lparr>lk_joined := True\<rparr>))"
    by (auto simp: stays_def link_set_def modify_def joining_def)
  have "stays (joining True) (handle_reply m)"
    unfolding handle_reply_def
    by (auto intro!: joining.stays_rules set_joined core_joining [OF core_decide]
        core_joining [OF core_parse_payload] core_joining [OF keeps_link_get] split: option.split)
  then show ?thesis using assms True by (auto dest: staysD)
next
  case False
  then have "t = s"
    using assms
    by (auto simp: handle_reply_def link_get_def prog_simps accepts_join_def is_ok_reply_to_def
        split: option.splits if_splits)
  then show ?thesis by (simp add: joining.rel_refl)
qed

lemma joining_handle_message:
  assumes "handle_message m s = Some (r, t)"
  shows "joining (accepts_join m (lk s)) s t"
proof -
  have weaken: "joining acc s t" if "joining False s t" for acc using that by (auto simp: joining_def)
  have set_heartbeat: "stays (joining False) (link_set (\<lambda>l. l\<lparr>lk_heartbeat_ref := None\<rparr>))"
    and set_invited: "stays (joining False)
      (link_set (\<lambda>l. l\<lparr>lk_extensions := on_invitation (msg_payload m) (lk_extensions l)\<rparr>))"
    and set_closed: "stays (joining False)
      (link_set (\<lambda>l. l\<lparr>lk_joined := False, lk_extensions := disconnected (lk_extensions l)\<rparr>))"
    by (auto simp: stays_def link_set_def modify_def joining_def)
  note other = core_joining [OF core_handle_console_frame] core_joining [OF core_handle_extension_frame]
    core_joining [OF core_decide] core_joining [OF core_parse_payload] core_joining [OF keeps_link_get]
  show ?thesis
  proof (cases "msg_topic m \<notin> {EXTENSIONS_TOPIC, CONSOLE_TOPIC, CONTROL_TOPIC} \<and> msg_event m = EV_REPLY")
    case True
    then have "handle_message m s = handle_reply m s" by (auto simp: handle_message_def)
    then have "handle_reply m s = Some (r, t)" using assms by simp
    then show ?thesis by (rule joining_handle_reply)
  next
    case False
    then have "stays (joining False) (handle_message m)"
      unfolding handle_message_def
      by (auto intro!: joining.stays_rules other set_heartbeat set_invited set_closed)
    then show ?thesis using assms by (auto dest: staysD intro: weaken)
  qed
qed

lemma joining_handle:
  assumes "handle f s = Some (r, t)"
  shows "joining (\<exists>m. decode_frame (e_codec (w_env s)) f = Inr m \<and> accepts_join m (lk s)) s t"
proof (cases "decode_frame (e_codec (w_env s)) f")
  case (Inl e)
  then show ?thesis using assms by (auto simp: handle_def prog_simps joining_def)
next
  case (Inr m)
  then have "handle_message m s = Some (r, t)" using assms by (simp add: handle_def prog_simps)
  from joining_handle_message [OF this] show ?thesis using Inr by (simp add: joining_def)
qed

subsection \<open>The heartbeat outstanding\<close>

lemma beat_send_event: "stays (keeps lk_heartbeat_ref) (send_event ev pl)"
  unfolding send_event_def by (intro keeps.stays_rules keeps_intros) simp

lemma beat_send_console: "stays (keeps lk_heartbeat_ref) (send_console text)"
  unfolding send_console_def by (auto intro!: keeps.stays_rules keeps_intros)

lemma beat_send_extension: "stays (keeps lk_heartbeat_ref) (send_extension outs)"
  unfolding send_extension_def send_outgoing_def
  by (auto intro!: keeps.stays_rules keeps_intros split: outgoing.split)

lemma beat_decide: "stays (keeps lk_heartbeat_ref) (decide u)"
  unfolding decide_def send_status_def
  by (auto intro!: keeps.stays_rules keeps_intros beat_send_event split: update_decision.split)

lemma beat_parse_payload: "stays (keeps lk_heartbeat_ref) (parse_payload j)"
  unfolding parse_payload_def by (intro keeps.stays_rules keeps_intros)

lemma beat_handlers:
  "stays (keeps lk_heartbeat_ref) (handle_console_frame m)"
  "stays (keeps lk_heartbeat_ref) (handle_extension_frame m)"
  "stays (keeps lk_heartbeat_ref) (handle_reply m)"
  unfolding handle_console_frame_def handle_extension_frame_def handle_reply_def
  by (auto intro!: keeps.stays_rules keeps_intros beat_send_console beat_send_extension beat_decide
      beat_parse_payload split: option.split prod.split)

lemma beat_other:
  assumes "msg_topic m \<noteq> CONTROL_TOPIC"
  shows "stays (keeps lk_heartbeat_ref) (handle_message m)"
  using assms unfolding handle_message_def
  by (auto intro!: keeps.stays_rules keeps_intros beat_handlers beat_decide beat_parse_payload)

subsection \<open>Updates offered\<close>

lemma andthen_ok_Inr: "andthen m (\<lambda>_. ok a) s = Some (Inr b, t) \<Longrightarrow> b = a"
  by (auto simp: andthen_Inr ok_def)

lemma decide_apply:
  assumes "decide u s = Some (Inr (Action_ApplyUpdate v), t)"
  shows "v = u \<and> actionable u \<noteq> None \<and> e_decide (w_env s) (w_hist s) u = Apply \<and>
    w_hist t = w_hist s @ [Ev_Offered u Apply]"
proof (cases "actionable u = None")
  case True
  then show ?thesis using assms by (simp add: decide_def ok_def)
next
  case False
  then show ?thesis
    using assms
    by (cases "e_decide (w_env s) (w_hist s) u")
      (auto simp: decide_def world_calls world_steps prog_simps dest!: andthen_ok_Inr)
qed

lemma console_frame_applies_nothing:
  "handle_console_frame m s \<noteq> Some (Inr (Action_ApplyUpdate u), t)"
  by (auto simp: handle_console_frame_def andthen_Inr ok_def split: if_splits option.splits)

lemma extension_frame_applies_nothing:
  "handle_extension_frame m s \<noteq> Some (Inr (Action_ApplyUpdate u), t)"
  by (auto simp: handle_extension_frame_def andthen_Inr ok_def split: if_splits)

lemma parse_payload_run: "parse_payload j s = Some (parse_update (e_codec (w_env s)) j, s)"
  by (simp add: parse_payload_def andthen_run gets_def result_def)

text \<open>
  The update a message offers a link: an \<open>update\<close>'s own payload, or what came with the reply
  that accepts the link's own join. Of the topic the code only asks that it is not one of the three
  it handles apart.
\<close>

definition offers :: "codec \<Rightarrow> message \<Rightarrow> link \<Rightarrow> update_payload \<Rightarrow> bool" where
  "offers C m l u \<longleftrightarrow> msg_topic m \<notin> {EXTENSIONS_TOPIC, CONSOLE_TOPIC, CONTROL_TOPIC} \<and>
     ((msg_event m = EV_UPDATE \<and> parse_update C (msg_payload m) = Inr u) \<or>
      (msg_event m = EV_REPLY \<and> accepts_join m l \<and>
       (\<exists>response. reply_response m = Some response \<and> parse_update C response = Inr u)))"

lemma parse_and_decide:
  assumes "andthen (parse_payload j) decide s = Some (Inr (Action_ApplyUpdate u), t)"
  shows "parse_update (e_codec (w_env s)) j = Inr u \<and> actionable u \<noteq> None \<and>
    e_decide (w_env s) (w_hist s) u = Apply \<and> w_hist t = w_hist s @ [Ev_Offered u Apply]"
proof -
  from assms obtain v where "parse_update (e_codec (w_env s)) j = Inr v"
    "decide v s = Some (Inr (Action_ApplyUpdate u), t)"
    by (auto simp: andthen_Inr [of "parse_payload _"] parse_payload_run)
  then show ?thesis using decide_apply [of v s u t] by simp
qed

lemma handle_message_apply:
  assumes "handle_message m s = Some (Inr (Action_ApplyUpdate u), t)"
  shows "offers (e_codec (w_env s)) m (lk s) u \<and> actionable u \<noteq> None \<and>
    e_decide (w_env s) (w_hist s) u = Apply \<and> w_hist t = w_hist s @ [Ev_Offered u Apply]"
proof -
  have ev: "EV_UPDATE \<noteq> EV_REPLY" by (simp add: event_names)
  consider (ext) "msg_topic m = EXTENSIONS_TOPIC"
    | (con) "msg_topic m \<noteq> EXTENSIONS_TOPIC" "msg_topic m = CONSOLE_TOPIC"
    | (ctl) "msg_topic m \<noteq> EXTENSIONS_TOPIC" "msg_topic m \<noteq> CONSOLE_TOPIC" "msg_topic m = CONTROL_TOPIC"
    | (dev) "msg_topic m \<notin> {EXTENSIONS_TOPIC, CONSOLE_TOPIC, CONTROL_TOPIC}" by blast
  then show ?thesis
  proof cases
    case ext
    then show ?thesis using assms by (simp add: handle_message_def extension_frame_applies_nothing)
  next
    case con
    then show ?thesis using assms by (simp add: handle_message_def console_frame_applies_nothing)
  next
    case ctl
    then show ?thesis using assms by (auto simp: handle_message_def andthen_Inr ok_def)
  next
    case dev
    show ?thesis
    proof (cases "msg_event m = EV_REPLY")
      case True
      let ?s = "s\<lparr>lk := (lk s)\<lparr>lk_joined := True\<rparr>\<rparr>"
      from True dev assms have "handle_reply m s = Some (Inr (Action_ApplyUpdate u), t)"
        by (simp add: handle_message_def)
      then obtain response where "accepts_join m (lk s)" "reply_response m = Some response"
        "andthen (parse_payload response) decide ?s = Some (Inr (Action_ApplyUpdate u), t)"
        by (auto simp: handle_reply_def link_get_def link_set_def prog_simps andthen_gets andthen_modify
            accepts_join_def is_ok_reply_to_def split: if_splits option.splits)
      then show ?thesis using parse_and_decide [of response ?s u t] dev True by (auto simp: offers_def)
    next
      case False
      have "msg_event m = EV_UPDATE"
        using assms dev False by (auto simp: handle_message_def andthen_Inr ok_def split: if_splits)
      then show ?thesis
        using assms dev False parse_and_decide [of "msg_payload m" s u t]
        by (simp add: handle_message_def offers_def ev)
    qed
  qed
qed

subsection \<open>Properties\<close>

text \<open>
  C7: nothing is installed that the application did not accept. When handling a frame says to
  apply an update, the frame was an \<open>update\<close> with that payload, or the reply that accepts the
  link's own join with it as its response, on any topic but the extensions', the console's and the
  heartbeats' (the code does not look for the device's own); the update is one that can be acted on;
  the application was asked about it and answered \<open>Apply\<close>; and nothing else happened.
\<close>

theorem updates_are_accepted:
  "case handle f s of
     Some (Inr (Action_ApplyUpdate u), t) \<Rightarrow>
       (\<exists>m. decode_frame (e_codec (w_env s)) f = Inr m \<and> offers (e_codec (w_env s)) m (lk s) u) \<and>
       actionable u \<noteq> None \<and> e_decide (w_env s) (w_hist s) u = Apply \<and>
       w_hist t = w_hist s @ [Ev_Offered u Apply]
   | _ \<Rightarrow> True"
proof -
  have "(\<exists>m. decode_frame (e_codec (w_env s)) f = Inr m \<and> offers (e_codec (w_env s)) m (lk s) u) \<and>
       actionable u \<noteq> None \<and> e_decide (w_env s) (w_hist s) u = Apply \<and>
       w_hist t = w_hist s @ [Ev_Offered u Apply]"
    if "handle f s = Some (Inr (Action_ApplyUpdate u), t)" for u t
    using that handle_message_apply [of _ s u t]
    by (cases "decode_frame (e_codec (w_env s)) f") (auto simp: handle_def prog_simps)
  then show ?thesis by (auto split: option.split sum.split action.split)
qed

text \<open>
  C13: only the server's reply to the heartbeat that is outstanding clears it: a reply on the
  control topic under that heartbeat's reference. Any other message, replies to other requests
  included, leaves it outstanding.
\<close>

theorem heartbeat_answered_only_by_its_reply:
  "case handle_message m s of
     None \<Rightarrow> True
   | Some (r, t) \<Rightarrow> lk_heartbeat_ref (lk t) =
       (if msg_topic m = CONTROL_TOPIC \<and> msg_event m = EV_REPLY \<and> msg_reference m = lk_heartbeat_ref (lk s)
        then None else lk_heartbeat_ref (lk s))"
proof -
  have topics: "CONTROL_TOPIC \<noteq> EXTENSIONS_TOPIC" "CONTROL_TOPIC \<noteq> CONSOLE_TOPIC"
    by (simp_all add: topic_names EXTENSIONS_TOPIC_def)
  have "lk_heartbeat_ref (lk t) =
       (if msg_topic m = CONTROL_TOPIC \<and> msg_event m = EV_REPLY \<and> msg_reference m = lk_heartbeat_ref (lk s)
        then None else lk_heartbeat_ref (lk s))"
    if run: "handle_message m s = Some (r, t)" for r t
  proof (cases "msg_topic m = CONTROL_TOPIC")
    case True
    then show ?thesis
      using run topics
      by (auto simp: handle_message_def link_get_def link_set_def prog_simps only_if_def answers_heartbeat_def
          split: if_splits)
  next
    case False
    then show ?thesis using staysD [OF beat_other [OF False] run] by (simp add: keeps_def)
  qed
  then show ?thesis by (auto split: option.split)
qed

end
