(* ===== verification/Install.thy ===== *)
theory Install
  imports Prog Update Metadata
begin

text \<open>
  \<open>src/install.rs\<close>: downloading an image into the inactive slot. The three traits are records
  of programs on whatever state the implementations share, and the code is generic in them.
  Durations are milliseconds. The field \<open>pg_warn\<close> is the \<open>log\<close> crate, where \<open>open\<close>
  says it will try again.
\<close>

definition CHUNK_SIZE :: nat where "CHUNK_SIZE = 4096"
definition RETRY_WAITS :: "nat list" where "RETRY_WAITS = [5000, 15000, 45000]"
definition RETRY_AFTER_MAX :: nat where "RETRY_AFTER_MAX = 120000"

record 's http_stream =
  hs_open :: "string \<Rightarrow> ('s, u64 option) prog"
  hs_read :: "nat \<Rightarrow> ('s, bytes) prog"

record 's image_sink =
  sk_write :: "bytes \<Rightarrow> ('s, unit) prog"
  sk_commit :: "('s, unit) prog"
  sk_abort :: "('s, unit) prog"

record 's progress =
  pg_tick :: "('s, unit) prog"
  pg_report :: "stage \<Rightarrow> u8 \<Rightarrow> ('s, unit) prog"
  pg_wait :: "nat \<Rightarrow> ('s, unit) prog"
  pg_warn :: "string \<Rightarrow> ('s, unit) prog"

text \<open>The blanket implementation for a closure: \<open>tick\<close> and \<open>wait\<close> as the trait has them.\<close>

definition closure_progress ::
    "(nat \<Rightarrow> ('s, unit) prog) \<Rightarrow> (string \<Rightarrow> ('s, unit) prog) \<Rightarrow> (stage \<Rightarrow> u8 \<Rightarrow> ('s, unit) prog)
      \<Rightarrow> 's progress" where
  "closure_progress sleep warn f =
     \<lparr>pg_tick = ok (), pg_report = f, pg_wait = sleep, pg_warn = warn\<rparr>"

record install_report =
  rep_bytes :: u64
  rep_checksum :: string

subsection \<open>Opening, with retries\<close>

definition worth_retrying :: "error \<Rightarrow> bool" where
  "worth_retrying err = (case err of
      Error_Download _ \<Rightarrow> True
    | Error_DownloadStatus status _ \<Rightarrow>
        status = 408 \<or> status = 429 \<or> (500 \<le> status \<and> status \<le> 599)
    | _ \<Rightarrow> False)"

definition retry_wait :: "nat \<Rightarrow> error \<Rightarrow> nat" where
  "retry_wait backoff err = (case err of
      Error_DownloadStatus _ (Some secs) \<Rightarrow> max backoff (min (unat secs * 1000) RETRY_AFTER_MAX)
    | _ \<Rightarrow> backoff)"

definition retry_text :: "error \<Rightarrow> nat \<Rightarrow> string" where
  "retry_text err wait = display_error err @ ''; trying again in '' @ dec_nat (wait div 1000) @ '' s''"

text \<open>The loop over the iterator of waits.\<close>

primrec open_image ::
    "'s http_stream \<Rightarrow> 's progress \<Rightarrow> string \<Rightarrow> nat list \<Rightarrow> ('s, u64 option) prog" where
  "open_image H P url [] = hs_open H url"
| "open_image H P url (backoff # waits) =
     andthen (attempt (hs_open H url)) (\<lambda>r. case r of
         Inr content_length \<Rightarrow> ok content_length
       | Inl err \<Rightarrow>
           if \<not> worth_retrying err then fail err
           else
             let wait = retry_wait backoff err
             in andthen (pg_warn P (retry_text err wait)) (\<lambda>_.
                andthen (pg_wait P wait) (\<lambda>_.
                open_image H P url waits)))"

subsection \<open>Copying\<close>

record copy_locals =
  cp_throttle :: progress_throttle
  cp_hasher :: sha256
  cp_written :: u64

definition too_long :: "u64 \<Rightarrow> error" where
  "too_long tot = Error_Download (''image is longer than the expected '' @ dec_u64 tot @ '' bytes'')"

text \<open>A chunk: hashed, written, counted, the connection's turn, and the report if one is due.\<close>

definition copy_report ::
    "'s progress \<Rightarrow> u64 option \<Rightarrow> copy_locals \<Rightarrow> ('s, copy_locals) prog" where
  "copy_report P expected l = (case expected of
      None \<Rightarrow> ok l
    | Some tot \<Rightarrow>
        if tot < cp_written l then fail (too_long tot)
        else (case throttle_take (cp_throttle l) (cp_written l) tot of
            (report, throttle) \<Rightarrow>
              andthen (case report of
                  Some percent \<Rightarrow> pg_report P Downloading percent
                | None \<Rightarrow> ok ()) (\<lambda>_.
              ok (l\<lparr>cp_throttle := throttle\<rparr>))))"

definition copy_chunk ::
    "'s image_sink \<Rightarrow> 's progress \<Rightarrow> u64 option \<Rightarrow> copy_locals \<Rightarrow> bytes \<Rightarrow> ('s, copy_locals) prog" where
  "copy_chunk K P expected l chunk =
     (let l = l\<lparr>cp_hasher := sha256_update (cp_hasher l) chunk\<rparr>
      in andthen (sk_write K chunk) (\<lambda>_.
         let l = l\<lparr>cp_written := cp_written l + of_nat (length chunk)\<rparr>
         in andthen (pg_tick P) (\<lambda>_. copy_report P expected l)))"

definition copy_turn ::
    "(bytes \<Rightarrow> bytes) \<Rightarrow> 's http_stream \<Rightarrow> 's image_sink \<Rightarrow> 's progress \<Rightarrow> u64 option
      \<Rightarrow> copy_locals \<Rightarrow> ('s, copy_locals + u64 \<times> string) prog" where
  "copy_turn digest H K P expected l =
     andthen (hs_read H CHUNK_SIZE) (\<lambda>chunk.
     if chunk = [] then ok (Inr (cp_written l, finalize_hex_upper digest (cp_hasher l)))
     else andthen (copy_chunk K P expected l chunk) (\<lambda>l'. ok (Inl l')))"

definition copy_start :: "u8 \<Rightarrow> copy_locals" where
  "copy_start progress_step_percent =
     \<lparr>cp_throttle = new_throttle progress_step_percent, cp_hasher = sha256_new, cp_written = 0\<rparr>"

definition copy_image ::
    "(bytes \<Rightarrow> bytes) \<Rightarrow> 's http_stream \<Rightarrow> 's image_sink \<Rightarrow> 's progress \<Rightarrow> u64 option \<Rightarrow> u8
      \<Rightarrow> ('s, u64 \<times> string) prog" where
  "copy_image digest H K P expected_size progress_step_percent =
     iterate (copy_turn digest H K P expected_size) (copy_start progress_step_percent)"

subsection \<open>Installing\<close>

definition expected_size :: "update_payload \<Rightarrow> u64 option \<Rightarrow> u64 option" where
  "expected_size u content_length = (case up_size u of Some n \<Rightarrow> Some n | None \<Rightarrow> content_length)"

text \<open>The three checks after the copy, in their order.\<close>

definition verify_image :: "update_payload \<Rightarrow> u64 option \<Rightarrow> u64 \<Rightarrow> string \<Rightarrow> error + install_report" where
  "verify_image u expected written actual =
     (if (case expected of Some tot \<Rightarrow> written \<noteq> tot | None \<Rightarrow> False) then
        Inl (Error_Download (''expected '' @ dec_u64 (the expected) @ '' bytes, received '' @ dec_u64 written))
      else if written = 0 then Inl (Error_Download ''image was empty'')
      else (case up_checksum u of
          Some advertised_sum \<Rightarrow>
            if checksum_matches advertised_sum actual
            then Inr \<lparr>rep_bytes = written, rep_checksum = actual\<rparr>
            else Inl (Error_ChecksumMismatch advertised_sum actual)
        | None \<Rightarrow> Inr \<lparr>rep_bytes = written, rep_checksum = actual\<rparr>))"

definition download_image ::
    "(bytes \<Rightarrow> bytes) \<Rightarrow> update_payload \<Rightarrow> string \<Rightarrow> 's http_stream \<Rightarrow> 's image_sink \<Rightarrow> u8
      \<Rightarrow> 's progress \<Rightarrow> ('s, install_report) prog" where
  "download_image digest u url H K progress_step_percent P =
     andthen (open_image H P url RETRY_WAITS) (\<lambda>content_length.
     let expected = expected_size u content_length
     in andthen (copy_image digest H K P expected progress_step_percent) (\<lambda>(written, actual).
        result (verify_image u expected written actual)))"

definition install ::
    "(bytes \<Rightarrow> bytes) \<Rightarrow> update_payload \<Rightarrow> 's http_stream \<Rightarrow> 's image_sink \<Rightarrow> u8 \<Rightarrow> 's progress
      \<Rightarrow> ('s, install_report) prog" where
  "install digest u H K progress_step_percent P = (case actionable u of
      None \<Rightarrow> fail (Error_Download ''update has no firmware url'')
    | Some (url, _) \<Rightarrow>
        andthen (attempt (download_image digest u url H K progress_step_percent P)) (\<lambda>r. case r of
            Inr report \<Rightarrow> andthen (sk_commit K) (\<lambda>_. ok report)
          | Inl err \<Rightarrow> andthen (sk_abort K) (\<lambda>_. fail err)))"

subsection \<open>What the traits promise\<close>

text \<open>
  The calls an installation makes, with their answers. The interface says that each operation is
  its own call and no other: in particular that what the progress handler does in between, sending
  heartbeats and logs, touches neither the stream nor the slot.
\<close>

datatype io_call =
    Io_Open string "error + u64 option"
  | Io_Read "error + bytes"
  | Io_Write bytes "error + unit"
  | Io_Commit "error + unit"
  | Io_Abort
  | Io_Wait nat

definition chunk_calls :: "bytes list \<Rightarrow> io_call list" where
  "chunk_calls cs = concat (map (\<lambda>c. [Io_Read (Inr c), Io_Write c (Inr ())]) cs)"

lemma chunk_calls_simps [simp]:
  "chunk_calls [] = []" "chunk_calls (cs @ [c]) = chunk_calls cs @ [Io_Read (Inr c), Io_Write c (Inr ())]"
  by (simp_all add: chunk_calls_def)

text \<open>What the copy's calls are, on each way it can end.\<close>

datatype copy_end =
    Copied
  | Read_failed error
  | Write_failed bytes error
  | Given_up

fun end_calls :: "copy_end \<Rightarrow> io_call list" where
  "end_calls Copied = [Io_Read (Inr [])]"
| "end_calls (Read_failed e) = [Io_Read (Inl e)]"
| "end_calls (Write_failed c e) = [Io_Read (Inr c), Io_Write c (Inl e)]"
| "end_calls Given_up = []"

text \<open>
  A legal run of \<open>open\<close>: every open but the last failed in a way worth retrying and was
  followed by its wait, in order; the last succeeded, or was not worth retrying, or had no wait
  left, unless the wait itself was cut short.
\<close>

fun retried :: "nat list \<Rightarrow> string \<Rightarrow> io_call list \<Rightarrow> bool" where
  "retried waits url [Io_Open u r] \<longleftrightarrow>
     u = url \<and> (case r of Inr _ \<Rightarrow> True | Inl e \<Rightarrow> waits = [] \<or> \<not> worth_retrying e)"
| "retried (w # waits) url (Io_Open u (Inl e) # Io_Wait d # rest) \<longleftrightarrow>
     u = url \<and> worth_retrying e \<and> d = retry_wait w e \<and> (rest = [] \<or> retried waits url rest)"
| "retried (w # waits) url _ \<longleftrightarrow> False"
| "retried [] url _ \<longleftrightarrow> False"

locale install_io =
  fixes io :: "'s \<Rightarrow> io_call list"
    and H :: "'s http_stream"
    and K :: "'s image_sink"
    and P :: "'s progress"
  assumes open_io: "hs_open H url s = Some (r, t) \<Longrightarrow> io t = io s @ [Io_Open url r]"
    and read_io: "hs_read H k s = Some (rd, t) \<Longrightarrow> io t = io s @ [Io_Read rd]"
    and write_io: "sk_write K c s = Some (w, t) \<Longrightarrow> io t = io s @ [Io_Write c w]"
    and commit_io: "sk_commit K s = Some (w, t) \<Longrightarrow> io t = io s @ [Io_Commit w]"
    and abort_io: "sk_abort K s = Some (w, t) \<Longrightarrow> w = Inr () \<and> io t = io s @ [Io_Abort]"
    and tick_io: "pg_tick P s = Some (w, t) \<Longrightarrow> io t = io s"
    and report_io: "pg_report P st p s = Some (w, t) \<Longrightarrow> io t = io s"
    and wait_io: "pg_wait P d s = Some (w, t) \<Longrightarrow> io t = io s @ [Io_Wait d]"
    and warn_io: "pg_warn P txt s = Some (w, t) \<Longrightarrow> w = Inr () \<and> io t = io s"
begin

lemma open_image_calls:
  assumes "open_image H P url waits s = Some (r, t)"
  shows "\<exists>calls. io t = io s @ calls \<and> retried waits url calls \<and>
    (\<forall>n. r = Inr n \<longrightarrow> last calls = Io_Open url (Inr n))"
  using assms
proof (induction waits arbitrary: s)
  case Nil
  then show ?case using open_io [of url s r t] by (auto split: sum.split)
next
  case (Cons w waits)
  from Cons.prems obtain r0 s0 where op: "hs_open H url s = Some (r0, s0)"
    by (cases "hs_open H url s") (auto simp: andthen_run attempt_def)
  have io0: "io s0 = io s @ [Io_Open url r0]" using open_io [OF op] .
  show ?case
  proof (cases r0)
    case (Inr n)
    then show ?thesis using Cons.prems op io0 by (auto simp: andthen_run attempt_def ok_def)
  next
    case (Inl e)
    show ?thesis
    proof (cases "worth_retrying e")
      case False
      then show ?thesis using Cons.prems op io0 Inl by (auto simp: andthen_run attempt_def fail_def)
    next
      case True
      let ?d = "retry_wait w e"
      have run: "andthen (pg_warn P (retry_text e ?d)) (\<lambda>_. andthen (pg_wait P ?d) (\<lambda>_.
          open_image H P url waits)) s0 = Some (r, t)"
        using Cons.prems op Inl True by (simp add: andthen_attempt Let_def)
      then obtain s1 where warn: "pg_warn P (retry_text e ?d) s0 = Some (Inr (), s1)"
        and run1: "andthen (pg_wait P ?d) (\<lambda>_. open_image H P url waits) s1 = Some (r, t)"
        by (cases "pg_warn P (retry_text e ?d) s0") (auto simp: andthen_run dest!: warn_io)
      have io1: "io s1 = io s @ [Io_Open url (Inl e)]" using warn_io [OF warn] io0 Inl by simp
      from run1 consider (cut) e' where "pg_wait P ?d s1 = Some (Inl e', t)" "r = Inl e'"
        | (again) s2 where "pg_wait P ?d s1 = Some (Inr (), s2)" "open_image H P url waits s2 = Some (r, t)"
        by (auto simp: andthen_Some)
      then show ?thesis
      proof cases
        case cut
        then have "io t = io s @ [Io_Open url (Inl e), Io_Wait ?d]" using wait_io io1 by simp
        then show ?thesis using True cut by (intro exI conjI) (assumption, simp_all)
      next
        case again
        have io2: "io s2 = io s @ [Io_Open url (Inl e), Io_Wait ?d]" using wait_io [OF again(1)] io1 by simp
        obtain calls where calls: "io t = io s2 @ calls" "retried waits url calls"
            "\<forall>n. r = Inr n \<longrightarrow> last calls = Io_Open url (Inr n)"
          using Cons.IH [OF again(2)] by blast
        then have "calls \<noteq> []" by (cases waits) auto
        then show ?thesis
          using io2 calls True
          by (intro exI [of _ "[Io_Open url (Inl e), Io_Wait ?d] @ calls"]) auto
      qed
    qed
  qed
qed

text \<open>The copy: what was read is what was written, what was hashed and what was counted.\<close>

lemma copy_report_io: "copy_report P expected l s = Some (r, t) \<Longrightarrow> io t = io s"
  using report_io
  by (auto simp: copy_report_def andthen_Some ok_def fail_def split: option.splits prod.splits if_splits)

lemma copy_report_locals:
  "copy_report P expected l s = Some (Inr l', t) \<Longrightarrow>
     cp_hasher l' = cp_hasher l \<and> cp_written l' = cp_written l \<and>
     (\<forall>tot. expected = Some tot \<longrightarrow> cp_written l \<le> tot)"
  by (auto simp: copy_report_def andthen_Some ok_def fail_def split: option.splits prod.splits if_splits)

lemma copy_chunk_calls:
  assumes "copy_chunk K P expected l c s = Some (r, t)"
  shows "(\<exists>e. r = Inl e \<and> io t = io s @ [Io_Write c (Inl e)]) \<or> io t = io s @ [Io_Write c (Inr ())]"
    and "r = Inr l' \<Longrightarrow> io t = io s @ [Io_Write c (Inr ())] \<and>
      sha_inner (cp_hasher l') = sha_inner (cp_hasher l) @ c \<and>
      cp_written l' = cp_written l + of_nat (length c) \<and>
      (\<forall>tot. expected = Some tot \<longrightarrow> cp_written l' \<le> tot)"
proof -
  let ?l = "l\<lparr>cp_hasher := sha256_update (cp_hasher l) c, cp_written := cp_written l + of_nat (length c)\<rparr>"
  from assms have "(\<exists>e. sk_write K c s = Some (Inl e, t) \<and> r = Inl e) \<or>
      (\<exists>s1. sk_write K c s = Some (Inr (), s1) \<and>
        andthen (pg_tick P) (\<lambda>_. copy_report P expected ?l) s1 = Some (r, t))"
    by (auto simp: copy_chunk_def andthen_Some [of "sk_write K c"] Let_def)
  then consider (wrote_not) e where "sk_write K c s = Some (Inl e, t)" "r = Inl e"
    | (cut) s1 e where "sk_write K c s = Some (Inr (), s1)" "pg_tick P s1 = Some (Inl e, t)" "r = Inl e"
    | (reported) s1 s2 where "sk_write K c s = Some (Inr (), s1)" "pg_tick P s1 = Some (Inr (), s2)"
        "copy_report P expected ?l s2 = Some (r, t)"
    by (auto simp: andthen_Some)
  note cases = this
  show "(\<exists>e. r = Inl e \<and> io t = io s @ [Io_Write c (Inl e)]) \<or> io t = io s @ [Io_Write c (Inr ())]"
    by (rule cases) (auto simp: write_io tick_io copy_report_io)
  show "io t = io s @ [Io_Write c (Inr ())] \<and>
      sha_inner (cp_hasher l') = sha_inner (cp_hasher l) @ c \<and>
      cp_written l' = cp_written l + of_nat (length c) \<and>
      (\<forall>tot. expected = Some tot \<longrightarrow> cp_written l' \<le> tot)" if "r = Inr l'"
  proof (rule cases)
    fix s1 s2
    assume "sk_write K c s = Some (Inr (), s1)" "pg_tick P s1 = Some (Inr (), s2)"
      "copy_report P expected ?l s2 = Some (r, t)"
    then show ?thesis
      using that copy_report_locals [of expected ?l s2 l' t] write_io tick_io copy_report_io
      by (simp add: sha256_update_def)
  qed (use that in simp_all)
qed

text \<open>
  From a copy that has counted and hashed what it wrote so far: at its end the chunks it read are
  the chunks it wrote, and one that finished has hashed and counted exactly those.
\<close>

lemma copy_calls:
  assumes "iterate (copy_turn digest H K P expected) l s = Some (r, t)"
  shows "\<exists>cs fin. io t = io s @ chunk_calls cs @ end_calls fin \<and> [] \<notin> set cs \<and>
    (case r of
       Inr (written, actual) \<Rightarrow> fin = Copied \<and>
         written = cp_written l + of_nat (length (concat cs)) \<and>
         actual = hex_upper (digest (sha_inner (cp_hasher l) @ concat cs))
     | Inl e \<Rightarrow> fin \<noteq> Copied)"
  using assms
proof (induction rule: iterate_induct)
  case (again l s l' u r t)
  then obtain c s1 where rd: "hs_read H CHUNK_SIZE s = Some (Inr c, s1)" and c: "c \<noteq> []"
    and ch: "copy_chunk K P expected l c s1 = Some (Inr l', u)"
    by (auto simp: copy_turn_def andthen_Inr ok_def split: if_splits)
  have u: "io u = io s @ [Io_Read (Inr c), Io_Write c (Inr ())]"
    and l': "sha_inner (cp_hasher l') = sha_inner (cp_hasher l) @ c"
      "cp_written l' = cp_written l + of_nat (length c)"
    using read_io [OF rd] copy_chunk_calls(2) [OF ch refl] by simp_all
  from again.IH obtain cs fin where io: "io t = io u @ chunk_calls cs @ end_calls fin" "[] \<notin> set cs"
    and fin: "case r of
       Inr (written, actual) \<Rightarrow> fin = Copied \<and>
         written = cp_written l' + of_nat (length (concat cs)) \<and>
         actual = hex_upper (digest (sha_inner (cp_hasher l') @ concat cs))
     | Inl e \<Rightarrow> fin \<noteq> Copied" by blast
  show ?case
  proof (intro exI conjI)
    show "io t = io s @ chunk_calls (c # cs) @ end_calls fin" using u io by (simp add: chunk_calls_def)
    show "[] \<notin> set (c # cs)" using io c by auto
    show "case r of
       Inr (written, actual) \<Rightarrow> fin = Copied \<and>
         written = cp_written l + of_nat (length (concat (c # cs))) \<and>
         actual = hex_upper (digest (sha_inner (cp_hasher l) @ concat (c # cs)))
     | Inl e \<Rightarrow> fin \<noteq> Copied"
      using fin l' by (auto simp: add.assoc split: sum.splits)
  qed
next
  case (leave l s a t)
  then obtain rd: "hs_read H CHUNK_SIZE s = Some (Inr [], t)"
    and a: "a = (cp_written l, finalize_hex_upper digest (cp_hasher l))"
    by (auto simp: copy_turn_def andthen_Inr ok_def split: if_splits)
  then show ?case
    using read_io [OF rd]
    by (intro exI [of _ "[]"] exI [of _ Copied]) (simp add: finalize_hex_upper_def)
next
  case (error l s e t)
  then consider (read) "hs_read H CHUNK_SIZE s = Some (Inl e, t)"
    | (chunk) c s1 where "hs_read H CHUNK_SIZE s = Some (Inr c, s1)" "c \<noteq> []"
        "copy_chunk K P expected l c s1 = Some (Inl e, t)"
    by (auto simp: copy_turn_def andthen_Some ok_def split: if_splits)
  then show ?case
  proof cases
    case read
    then show ?thesis using read_io [OF read]
      by (intro exI [of _ "[]"] exI [of _ "Read_failed e"]) simp
  next
    case chunk
    from copy_chunk_calls(1) [OF chunk(3)] read_io [OF chunk(1)]
    consider "io t = io s @ [Io_Read (Inr c), Io_Write c (Inl e)]"
      | "io t = io s @ [Io_Read (Inr c), Io_Write c (Inr ())]" by auto
    then show ?thesis
    proof cases
      case 1
      then show ?thesis
        by (intro exI [of _ "[]"] exI [of _ "Write_failed c e"]) simp
    next
      case 2
      then show ?thesis using chunk(2)
        by (intro exI [of _ "[c]"] exI [of _ Given_up]) (simp add: chunk_calls_def)
    qed
  qed
qed

end

text \<open>
  The whole download. \<open>verified\<close> is that what was written passes every check against the
  update, with the content length the last open gave.
\<close>

definition verified ::
    "(bytes \<Rightarrow> bytes) \<Rightarrow> update_payload \<Rightarrow> string \<Rightarrow> io_call list \<Rightarrow> bytes list \<Rightarrow> install_report \<Rightarrow> bool" where
  "verified digest u url opens cs rep \<longleftrightarrow>
     (\<exists>content_length. last opens = Io_Open url (Inr content_length) \<and>
        verify_image u (expected_size u content_length) (of_nat (length (concat cs)))
          (hex_upper (digest (concat cs))) = Inr rep)"

definition installed ::
    "(bytes \<Rightarrow> bytes) \<Rightarrow> update_payload \<Rightarrow> string \<Rightarrow> io_call list \<Rightarrow> (error + install_report) \<Rightarrow> bool" where
  "installed digest u url calls r \<longleftrightarrow>
     (\<exists>opens cs fin ending. calls = opens @ chunk_calls cs @ end_calls fin @ ending \<and>
        retried RETRY_WAITS url opens \<and> [] \<notin> set cs \<and>
        (case r of
           Inr rep \<Rightarrow> fin = Copied \<and> ending = [Io_Commit (Inr ())] \<and> verified digest u url opens cs rep
         | Inl e \<Rightarrow> ending = [Io_Abort] \<or>
             (ending = [Io_Commit (Inl e)] \<and> fin = Copied \<and> (\<exists>rep. verified digest u url opens cs rep))))"

context install_io begin

lemma download_calls:
  assumes "download_image digest u url H K stp P s = Some (r, t)"
  shows "\<exists>opens cs fin. io t = io s @ opens @ chunk_calls cs @ end_calls fin \<and>
    retried RETRY_WAITS url opens \<and> [] \<notin> set cs \<and>
    (\<forall>rep. r = Inr rep \<longrightarrow> fin = Copied \<and> verified digest u url opens cs rep)"
proof -
  from assms consider (unopened) e where "open_image H P url RETRY_WAITS s = Some (Inl e, t)" "r = Inl e"
    | (opened) cl s1 where "open_image H P url RETRY_WAITS s = Some (Inr cl, s1)"
        "andthen (copy_image digest H K P (expected_size u cl) stp) (\<lambda>(written, actual).
           result (verify_image u (expected_size u cl) written actual)) s1 = Some (r, t)"
    by (auto simp: download_image_def andthen_Some [of "open_image _ _ _ _"] Let_def)
  then show ?thesis
  proof cases
    case unopened
    from open_image_calls [OF unopened(1)] obtain opens where
      "io t = io s @ opens" "retried RETRY_WAITS url opens" by blast
    then show ?thesis using unopened(2)
      by (intro exI [of _ opens] exI [of _ "[]"] exI [of _ Given_up]) simp
  next
    case opened
    let ?ex = "expected_size u cl"
    from open_image_calls [OF opened(1)] obtain opens where
      opens: "io s1 = io s @ opens" "retried RETRY_WAITS url opens" "last opens = Io_Open url (Inr cl)"
      by blast
    from opened(2) obtain c where cp: "copy_image digest H K P ?ex stp s1 = Some (c, t)"
      and r: "r = (case c of Inl e \<Rightarrow> Inl e | Inr (written, actual) \<Rightarrow> verify_image u ?ex written actual)"
      by (auto simp: andthen_Some result_def)
    from copy_calls [OF cp [unfolded copy_image_def]] obtain cs fin where
      io: "io t = io s1 @ chunk_calls cs @ end_calls fin" "[] \<notin> set cs"
      and fin: "case c of Inr (written, actual) \<Rightarrow> fin = Copied \<and>
         written = cp_written (copy_start stp) + of_nat (length (concat cs)) \<and>
         actual = hex_upper (digest (sha_inner (cp_hasher (copy_start stp)) @ concat cs))
       | Inl e \<Rightarrow> fin \<noteq> Copied" by blast
    have "fin = Copied \<and> verified digest u url opens cs rep" if "r = Inr rep" for rep
    proof (cases c)
      case (Inl e)
      then show ?thesis using that r by simp
    next
      case (Inr wa)
      obtain written actual where wa: "wa = (written, actual)" by fastforce
      then have "fin = Copied" "written = of_nat (length (concat cs))"
        "actual = hex_upper (digest (concat cs))"
        using fin Inr by (simp_all add: copy_start_def sha256_new_def)
      then show ?thesis
        using that r Inr wa opens(3) by (simp add: verified_def)
    qed
    then show ?thesis using opens io
      by (intro exI [of _ opens] exI [of _ cs] exI [of _ fin]) simp
  qed
qed

lemma install_calls:
  assumes "install digest u H K stp P s = Some (r, t)" and "actionable u = Some (url, uuid)"
  shows "\<exists>calls. io t = io s @ calls \<and> installed digest u url calls r"
proof -
  from assms obtain d s1 where dl: "download_image digest u url H K stp P s = Some (d, s1)"
    and run: "(case d of Inr report \<Rightarrow> andthen (sk_commit K) (\<lambda>_. ok report)
          | Inl err \<Rightarrow> andthen (sk_abort K) (\<lambda>_. fail err)) s1 = Some (r, t)"
    by (cases "download_image digest u url H K stp P s") (auto simp: install_def andthen_attempt)
  from download_calls [OF dl] obtain opens cs fin where
    io: "io s1 = io s @ opens @ chunk_calls cs @ end_calls fin"
      "retried RETRY_WAITS url opens" "[] \<notin> set cs"
    and fin: "\<forall>rep. d = Inr rep \<longrightarrow> fin = Copied \<and> verified digest u url opens cs rep" by blast
  show ?thesis
  proof (cases d)
    case (Inl err)
    then obtain w where "sk_abort K s1 = Some (w, t)" "r = Inl err"
      using run abort_io by (auto simp: andthen_Some fail_def)
    then have "io t = io s1 @ [Io_Abort]" using abort_io by blast
    then show ?thesis using io \<open>r = Inl err\<close>
      unfolding installed_def
      by (intro exI [of _ "opens @ chunk_calls cs @ end_calls fin @ [Io_Abort]"] conjI
          exI [of _ opens] exI [of _ cs] exI [of _ fin] exI [of _ "[Io_Abort]"]) simp_all
  next
    case (Inr rep)
    then obtain w where cm: "sk_commit K s1 = Some (w, t)"
      and r: "r = (case w of Inl e \<Rightarrow> Inl e | Inr _ \<Rightarrow> Inr rep)"
      using run by (auto simp: andthen_Some ok_def)
    then have "io t = io s1 @ [Io_Commit w]" using commit_io by blast
    moreover have "fin = Copied" "verified digest u url opens cs rep" using fin Inr by simp_all
    ultimately show ?thesis using io r
      unfolding installed_def
      by (intro exI [of _ "opens @ chunk_calls cs @ end_calls fin @ [Io_Commit w]"] conjI
          exI [of _ opens] exI [of _ cs] exI [of _ fin] exI [of _ "[Io_Commit w]"])
         (auto split: sum.splits)
  qed
qed

end

subsection \<open>What a failed installation leaves\<close>

text \<open>The stream and the progress handler stay in a relation.\<close>

definition around :: "('s \<Rightarrow> 's \<Rightarrow> bool) \<Rightarrow> 's http_stream \<Rightarrow> 's progress \<Rightarrow> bool" where
  "around R H P \<longleftrightarrow> (\<forall>url. stays R (hs_open H url)) \<and> (\<forall>n. stays R (hs_read H n)) \<and>
     stays R (pg_tick P) \<and> (\<forall>st p. stays R (pg_report P st p)) \<and> (\<forall>d. stays R (pg_wait P d)) \<and>
     (\<forall>txt. stays R (pg_warn P txt))"

text \<open>
  A sink some part of which (what the device boots next) only a commit that succeeds changes,
  under whatever relation that part's being the same is.
\<close>

locale slot_sink = run_relation R for R :: "'s \<Rightarrow> 's \<Rightarrow> bool" +
  fixes K :: "'s image_sink"
  assumes write_same: "stays R (sk_write K c)"
    and abort_same: "stays R (sk_abort K)"
    and commit_failed: "sk_commit K s = Some (Inl e, t) \<Longrightarrow> R s t"
begin

lemma around_open_image: "around R H P \<Longrightarrow> stays R (open_image H P url waits)"
  by (induction waits) (auto simp: around_def Let_def intro!: stays_rules split: sum.split)

lemma around_copy: "around R H P \<Longrightarrow> stays R (iterate (copy_turn digest H K P expected) l)"
  by (auto simp: around_def copy_turn_def copy_chunk_def copy_report_def Let_def
      intro!: stays_rules write_same split: option.split prod.split)

lemma around_download: "around R H P \<Longrightarrow> stays R (download_image digest u url H K stp P)"
  by (auto simp: download_image_def copy_image_def Let_def split: prod.split
      intro!: stays_rules around_open_image around_copy)

lemma failed_install_same:
  assumes "around R H P" and "install digest u H K stp P s = Some (Inl e, t)"
  shows "R s t"
proof (cases "actionable u")
  case None
  then show ?thesis using assms(2) by (simp add: install_def fail_def rel_refl)
next
  case (Some a)
  obtain url uuid where a: "a = (url, uuid)" by fastforce
  from assms(2) obtain d s1 where dl: "download_image digest u url H K stp P s = Some (d, s1)"
    and run: "(case d of Inr report \<Rightarrow> andthen (sk_commit K) (\<lambda>_. ok report)
          | Inl err \<Rightarrow> andthen (sk_abort K) (\<lambda>_. fail err)) s1 = Some (Inl e, t)"
    using Some a
    by (cases "download_image digest u url H K stp P s") (auto simp: install_def andthen_attempt)
  have s1: "R s s1" using around_download [OF assms(1)] dl by (rule staysD)
  have "R s1 t"
  proof (cases d)
    case (Inl err)
    have "stays R (andthen (sk_abort K) (\<lambda>_. fail err))" by (intro stays_rules abort_same)
    then show ?thesis using run Inl by (auto dest: staysD)
  next
    case (Inr report)
    then show ?thesis using run commit_failed by (auto simp: andthen_Some ok_def)
  qed
  then show ?thesis using s1 rel_trans by blast
qed

end

subsection \<open>What the retries cost\<close>

lemma retry_wait_bounds: "w \<le> retry_wait w e \<and> retry_wait w e \<le> max w RETRY_AFTER_MAX"
  by (auto simp: retry_wait_def split: error.split option.split)

text \<open>The calls of the attempts that failed: each open with its error, and the wait due to both.\<close>

definition attempts :: "string \<Rightarrow> (nat \<times> error) list \<Rightarrow> io_call list" where
  "attempts url fs = concat (map (\<lambda>(w, e). [Io_Open url (Inl e), Io_Wait (retry_wait w e)]) fs)"

lemma attempts_simps [simp]:
  "attempts url [] = []"
  "attempts url ((w, e) # fs) = Io_Open url (Inl e) # Io_Wait (retry_wait w e) # attempts url fs"
  by (simp_all add: attempts_def)

context install_io begin

lemma open_image_attempts:
  assumes "open_image H P url waits s = Some (r, t)"
  shows "\<exists>es final. io t = io s @ attempts url (zip waits es) @ final \<and> length es \<le> length waits \<and>
    list_all worth_retrying es \<and> (case r of
      Inr n \<Rightarrow> final = [Io_Open url (Inr n)]
    | Inl e \<Rightarrow> (final = [Io_Open url (Inl e)] \<and> (length es = length waits \<or> \<not> worth_retrying e)) \<or>
        (final = [] \<and> es \<noteq> [] \<and>
          (\<exists>u. pg_wait P (retry_wait (waits ! (length es - 1)) (last es)) u = Some (Inl e, t))))"
  using assms
proof (induction waits arbitrary: s)
  case Nil
  then show ?case using open_io [of url s r t] by (cases r) auto
next
  case (Cons w waits)
  from Cons.prems obtain r0 s0 where op: "hs_open H url s = Some (r0, s0)"
    by (cases "hs_open H url s") (auto simp: andthen_run attempt_def)
  have io0: "io s0 = io s @ [Io_Open url r0]" using open_io [OF op] .
  show ?case
  proof (cases "\<exists>e. r0 = Inl e \<and> worth_retrying e")
    case False
    have "t = s0 \<and> r = r0"
      using Cons.prems op False by (cases r0) (auto simp: andthen_attempt ok_def fail_def)
    then show ?thesis using io0 False by (intro exI [of _ "[]"] exI [of _ "[Io_Open url r]"]) (auto split: sum.split)
  next
    case True
    then obtain e where e: "r0 = Inl e" "worth_retrying e" by blast
    let ?d = "retry_wait w e"
    have "andthen (pg_warn P (retry_text e ?d)) (\<lambda>_. andthen (pg_wait P ?d) (\<lambda>_.
        open_image H P url waits)) s0 = Some (r, t)"
      using Cons.prems op e by (simp add: andthen_attempt Let_def)
    then obtain s1 where s1: "pg_warn P (retry_text e ?d) s0 = Some (Inr (), s1)"
      and rest: "andthen (pg_wait P ?d) (\<lambda>_. open_image H P url waits) s1 = Some (r, t)"
      by (auto simp: andthen_Some [of "pg_warn _ _"] dest: warn_io)
    have io1: "io s1 = io s @ [Io_Open url (Inl e)]" using warn_io [OF s1] io0 e by simp
    from rest consider (cut) e' where "pg_wait P ?d s1 = Some (Inl e', t)" "r = Inl e'"
      | (again) s2 where "pg_wait P ?d s1 = Some (Inr (), s2)" "open_image H P url waits s2 = Some (r, t)"
      by (auto simp: andthen_Some)
    then show ?thesis
    proof cases
      case cut
      then show ?thesis using wait_io [OF cut(1)] io1 e
        by (intro exI [of _ "[e]"] exI [of _ "[]"]) auto
    next
      case again
      then obtain es final where es: "io t = io s2 @ attempts url (zip waits es) @ final"
        "length es \<le> length waits" "list_all worth_retrying es"
        and r: "case r of
          Inr n \<Rightarrow> final = [Io_Open url (Inr n)]
        | Inl e \<Rightarrow> (final = [Io_Open url (Inl e)] \<and> (length es = length waits \<or> \<not> worth_retrying e)) \<or>
            (final = [] \<and> es \<noteq> [] \<and>
              (\<exists>u. pg_wait P (retry_wait (waits ! (length es - 1)) (last es)) u = Some (Inl e, t)))"
        using Cons.IH by blast
      have "length es - 1 = i \<Longrightarrow> es \<noteq> [] \<Longrightarrow> (w # waits) ! length es = waits ! i" for i
        by (cases es) auto
      then show ?thesis using wait_io [OF again(1)] io1 e es r
        by (intro exI [of _ "e # es"] exI [of _ final]) (auto split: sum.splits)
    qed
  qed
qed

end

subsection \<open>The copy ends\<close>

text \<open>
  With a size to expect, a copy returns whatever the server sends: every chunk is at least a byte
  and at most the buffer, and a byte past the size is an error. Without one it goes on for as
  long as the server does.
\<close>

lemma copy_returns:
  assumes "returns (hs_read H CHUNK_SIZE)"
    and short: "\<And>s c t. J s \<Longrightarrow> hs_read H CHUNK_SIZE s = Some (Inr c, t) \<Longrightarrow> length c \<le> CHUNK_SIZE"
    and keeps_J: "\<And>l. stays (\<lambda>s t. J s \<longrightarrow> J t) (copy_turn digest H K P (Some tot) l)"
    and J: "J s"
    and "\<And>c. returns (sk_write K c)" "returns (pg_tick P)" "\<And>st p. returns (pg_report P st p)"
    and tot: "unat tot + CHUNK_SIZE < 2 ^ 64"
  shows "copy_image digest H K P (Some tot) stp s \<noteq> None"
  unfolding copy_image_def
proof (rule iterate_returns [where I = "\<lambda>l s. cp_written l \<le> tot \<and> J s"
      and \<mu> = "\<lambda>l s. unat tot - unat (cp_written l)"])
  show "cp_written (copy_start stp) \<le> tot \<and> J s" using J by (simp add: copy_start_def)
next
  fix l s
  have "returns (copy_turn digest H K P (Some tot) l)"
    by (auto simp: copy_turn_def copy_chunk_def copy_report_def Let_def assms
        intro!: returns_rules split: prod.split option.split)
  then show "copy_turn digest H K P (Some tot) l s \<noteq> None" by (simp add: returns_def)
next
  fix l s l' t
  assume le: "cp_written l \<le> tot \<and> J s" and run: "copy_turn digest H K P (Some tot) l s = Some (Inr (Inl l'), t)"
  then obtain c s1 where rd: "hs_read H CHUNK_SIZE s = Some (Inr c, s1)" and c: "c \<noteq> []"
    and ch: "copy_chunk K P (Some tot) l c s1 = Some (Inr l', t)"
    by (auto simp: copy_turn_def andthen_Inr ok_def split: if_splits)
  from ch have w: "cp_written l' = cp_written l + of_nat (length c)" "cp_written l' \<le> tot"
    by (auto simp: copy_chunk_def copy_report_def Let_def andthen_Inr andthen_Some ok_def fail_def
        split: prod.splits option.splits if_splits)
  have len: "length c \<le> CHUNK_SIZE" "0 < length c" using short [OF _ rd] le c by auto
  have bound: "unat (cp_written l) + length c < 2 ^ 64" using le len tot by (simp add: word_le_nat_alt)
  have "unat (of_nat (length c) :: u64) = length c"
    using len tot by (simp add: unat_of_nat)
  then have "unat (cp_written l') = unat (cp_written l) + length c"
    using w(1) bound by (simp add: unat_word_ariths)
  moreover have "J t" using staysD [OF keeps_J run] le by simp
  ultimately show "(cp_written l' \<le> tot \<and> J t) \<and> unat tot - unat (cp_written l') < unat tot - unat (cp_written l)"
    using w(2) gr0_implies_Suc [OF len(2)] by (auto simp: word_le_nat_alt)
qed

end
