(* ===== verification/Agent.thy ===== *)
theory Agent
  imports Link Install Console
begin

text \<open>
  \<open>src/agent.rs\<close>: the run loop. The agent's fields that change, its console, its log buffer
  and the link of the session under way, are in the state with the world; a loop's local variables
  are a record. The transport, the platform and the providers are the world's calls. Durations are
  milliseconds, and a clock is a 64-bit word whose arithmetic wraps, as in a release build.
\<close>

definition LOG_SEND_INTERVAL_MS :: u64 where "LOG_SEND_INTERVAL_MS = 250"
definition LOG_BATCH_INTERVAL_MS :: u64 where "LOG_BATCH_INTERVAL_MS = 1000"
definition LOG_BATCH_MAX_LINES :: nat where "LOG_BATCH_MAX_LINES = 100"
definition LOG_BATCH_MAX_BYTES :: nat where "LOG_BATCH_MAX_BYTES = 3000"
definition EXTENSIONS_INVITATION_WAIT_MS :: u64 where "EXTENSIONS_INVITATION_WAIT_MS = 5000"

datatype stopped = Stopped_Rebooting | Stopped_Finished

record session_window =
  sw_linger :: duration
  sw_limit :: duration

definition default_window :: session_window where
  "default_window = \<lparr>sw_linger = 10000, sw_limit = 60000\<rparr>"

text \<open>The console: its reader, and the commands by name with their help; what one does is the world's.\<close>

record console =
  con_reader :: line_reader
  con_commands :: "(string \<times> string) list"

definition console_default :: console where
  "console_default = \<lparr>con_reader = line_reader_new, con_commands = []\<rparr>"

text \<open>The fields of \<open>Pump\<close>, while a download runs.\<close>

record pump =
  pump_heartbeat_ms :: u64
  pump_last_heartbeat :: u64
  pump_last_log :: u64

record agent_world = link_world +
  ag_config :: config
  ag_metadata :: firmware_metadata
  ag_location :: bool
  ag_health :: bool
  ag_identify :: bool
  ag_logs :: "log_buffer option"
  ag_console :: "console option"
  ag_joined :: bool
  ag_pump :: pump

subsection \<open>Registering commands\<close>

text \<open>\<open>Agent::command\<close>, on the console if there is one.\<close>

definition add_command :: "string \<Rightarrow> string \<Rightarrow> console option \<Rightarrow> console option" where
  "add_command name help con = map_option (\<lambda>c. c\<lparr>con_commands :=
     filter (\<lambda>(existing, _). existing \<noteq> name) (con_commands c) @ [(name, help)]\<rparr>) con"

definition device_commands :: "console option \<Rightarrow> console option" where
  "device_commands con =
     add_command ''reset-reason'' ''why it last rebooted''
    (add_command ''partitions'' ([CHR ''w''] @ ''hich slot runs, and the other'' @ [CHR 0x27] @ ''s state'')
    (add_command ''wifi'' ''ssid, signal and address''
    (add_command ''heap'' ''memory, and how fragmented it is'' con)))"

definition with_console :: "console option \<Rightarrow> console option" where
  "with_console con =
     (let con = (case con of None \<Rightarrow> Some console_default | Some c \<Rightarrow> Some c)
      in add_command ''info'' ''firmware and device identity'' (device_commands
         (add_command ''uptime'' ''time since boot'' con)))"

subsection \<open>Running a line\<close>

text \<open>The pieces \<open>writeln!(out, "  {name:<14} {help}\r")\<close> writes: padded to 14 characters.\<close>

definition help_pieces :: "string \<times> string \<Rightarrow> string list" where
  "help_pieces kv = (case kv of (name, help) \<Rightarrow>
     [''  '', name] @ replicate (14 - length (utf8_chars name)) '' '' @ ['' '', help, crlf])"

definition builtin_help :: "(string \<times> string) list" where
  "builtin_help = [(''help'', ''this list''), (''log [level]'', ''what is sent to NervesHub''),
     (''reboot'', ''restart the device'')]"

definition help_output :: "(string \<times> string) list \<Rightarrow> string" where
  "help_output commands = finish (write_all
     ((''commands:'' @ crlf) # concat (map help_pieces (builtin_help @ sort_key fst commands)))
     output_new)"

definition console_run :: "string \<Rightarrow> console \<Rightarrow> ('s world_scheme, string) prog" where
  "console_run line con = (case parse line of
      None \<Rightarrow> ok []
    | Some (name, args) \<Rightarrow>
        if name = ''help'' then ok (help_output (con_commands con))
        else if list_ex (\<lambda>(known, _). known = name) (con_commands con) then
          andthen (ask_command name args) (\<lambda>(written, err).
            let out = write_all written output_new;
                out = (case err of
                    Some e \<Rightarrow> write_all ([crlf, name, '': ''] @ display_pieces e) out
                  | None \<Rightarrow> out)
            in ok (finish out))
        else ok (finish (write_all
          [name, '': unknown command, try '' @ [CHR 0x60] @ ''help'' @ [CHR 0x60]] output_new)))"

subsection \<open>The log buffer\<close>

text \<open>
  A use of the buffer: whatever the other threads did first, then the operation. \<open>None\<close> when the
  agent has no buffer.
\<close>

definition touch_logs ::
    "(layout \<Rightarrow> log_buffer \<Rightarrow> 'a \<times> log_buffer) \<Rightarrow> ('s agent_world_scheme, 'a option) prog" where
  "touch_logs f = andthen other_threads (\<lambda>ops s. case ag_logs s of
      None \<Rightarrow> Some (Inr None, s)
    | Some b \<Rightarrow> (case f (e_layout (w_env s)) (log_steps (e_layout (w_env s)) ops b) of
        (a, b') \<Rightarrow> Some (Inr (Some a), s\<lparr>ag_logs := Some b'\<rparr>)))"

definition has_logs :: "('s agent_world_scheme, bool) prog" where
  "has_logs = gets (\<lambda>s. ag_logs s \<noteq> None)"

text \<open>
  \<open>send_logs\<close>, which returns the time of the last send. What the other threads do while
  \<open>take_stamped\<close> has let go of the lock is drawn before it starts.
\<close>

definition send_logs :: "u64 \<Rightarrow> u64 \<Rightarrow> ('s agent_world_scheme, u64) prog" where
  "send_logs now last_log =
     andthen has_logs (\<lambda>have.
     andthen (link_get logging_attached) (\<lambda>att.
     if \<not> have \<or> \<not> att then ok last_log
     else andthen (link_get link_logging_batched) (\<lambda>batched.
       let (interval, max_lines) =
             (if batched then (LOG_BATCH_INTERVAL_MS, LOG_BATCH_MAX_LINES) else (LOG_SEND_INTERVAL_MS, 1))
       in if saturating_sub now last_log < interval then ok last_log
          else andthen read_clock (\<lambda>clock.
            andthen other_threads (\<lambda>between.
            andthen (touch_logs (\<lambda>L. take_stamped L max_lines LOG_BATCH_MAX_BYTES (unix_micros clock)
                (log_steps L between))) (\<lambda>taken.
            case taken of
              None \<Rightarrow> ok last_log
            | Some lines \<Rightarrow>
                if lines = [] then ok last_log
                else andthen (link_send_logs lines) (\<lambda>_. ok now)))))))"

text \<open>\<open>level.parse::<log::Level>()\<close> ignores case; \<open>as_str\<close> in lower case.\<close>

definition parse_level :: "string \<Rightarrow> level option" where
  "parse_level s =
     (if eq_ignore_ascii_case s ''ERROR'' then Some Level_Error
      else if eq_ignore_ascii_case s ''WARN'' then Some Level_Warn
      else if eq_ignore_ascii_case s ''INFO'' then Some Level_Info
      else if eq_ignore_ascii_case s ''DEBUG'' then Some Level_Debug
      else if eq_ignore_ascii_case s ''TRACE'' then Some Level_Trace
      else None)"

fun level_lower :: "level \<Rightarrow> string" where
  "level_lower Level_Error = ''error''"
| "level_lower Level_Warn = ''warn''"
| "level_lower Level_Info = ''info''"
| "level_lower Level_Debug = ''debug''"
| "level_lower Level_Trace = ''trace''"

definition log_command :: "string list \<Rightarrow> ('s agent_world_scheme, string) prog" where
  "log_command args =
     andthen has_logs (\<lambda>have.
     if \<not> have then ok (finish (write_all [''log: this device is not sending logs to NervesHub''] output_new))
     else (case args of
         [] \<Rightarrow> andthen (touch_logs (\<lambda>L b. (buffer_level b, b))) (\<lambda>l.
             ok (finish (write_all [''log level is '', (case l of None \<Rightarrow> [] | Some l \<Rightarrow> level_lower l)] output_new)))
       | arg # _ \<Rightarrow> (case parse_level arg of
             Some l \<Rightarrow> andthen (touch_logs (\<lambda>L b. ((), set_level l b))) (\<lambda>_.
               ok (finish (write_all [''log level is now '', level_lower l] output_new)))
           | None \<Rightarrow> andthen (gets (\<lambda>s. e_debug (w_env s) arg)) (\<lambda>pieces.
               ok (finish (write_all ([''log: unknown level ''] @ pieces @
                 ['', try error/warn/info/debug/trace'']) output_new))))))"

subsection \<open>Answering the console\<close>

text \<open>The \<open>for\<close> loop over the completed lines; \<open>reply\<close> is what has not been sent yet.\<close>

primrec answer_lines :: "string list \<Rightarrow> string \<Rightarrow> ('s agent_world_scheme, bool) prog" where
  "answer_lines [] reply = andthen (send_console reply) (\<lambda>_. ok False)"
| "answer_lines (line # lines) reply =
     (let parsed = parse line in
      if map_option fst parsed = Some ''reboot'' then
        andthen (send_console (reply @ ''rebooting'' @ crlf)) (\<lambda>_.
        andthen (do_sleep 250) (\<lambda>_.
        andthen do_restart (\<lambda>_. ok True)))
      else
        andthen (if map_option fst parsed = Some ''log'' then log_command (snd (the parsed))
          else andthen (gets ag_console) (\<lambda>con. case con of
              Some c \<Rightarrow> console_run line c | None \<Rightarrow> ok [])) (\<lambda>out.
        andthen (send_console (reply @ (if out \<noteq> [] then out @ crlf else []) @ PROMPT)) (\<lambda>_.
        answer_lines lines [])))"

definition answer_console :: "string \<Rightarrow> ('s agent_world_scheme, bool) prog" where
  "answer_console input = (\<lambda>s. case ag_console s of
      None \<Rightarrow> Some (Inr False, s)
    | Some c \<Rightarrow> (case feed input (con_reader c) of (echo, lines, reader) \<Rightarrow>
        answer_lines lines echo (s\<lparr>ag_console := Some (c\<lparr>con_reader := reader\<rparr>)\<rparr>)))"

subsection \<open>Answering extensions\<close>

definition answer_need :: "outgoing \<Rightarrow> ('s agent_world_scheme, unit) prog" where
  "answer_need need = andthen (case need of
      NeedLocation \<Rightarrow> andthen (gets ag_location) (\<lambda>have.
        andthen (if have then ask_location else ok None) (\<lambda>l. ok (location_answer l)))
    | NeedHealth \<Rightarrow> andthen (gets ag_health) (\<lambda>have.
        if have then andthen ask_health (\<lambda>r. ok (health_answer r)) else ok [])
    | other \<Rightarrow> ok [other]) send_extension"

definition answer_extension :: "outgoing list \<Rightarrow> ('s agent_world_scheme, unit) prog" where
  "answer_extension needs = for_each needs answer_need"

definition nothing_outstanding :: "bool \<Rightarrow> ('s agent_world_scheme, bool) prog" where
  "nothing_outstanding health_answered =
     andthen (gets (\<lambda>s. (lk s, ag_health s))) (\<lambda>(l, have_health).
     andthen (if logging_attached l then touch_logs (\<lambda>L b. (buffer_is_empty b, b)) else ok None) (\<lambda>empty.
     ok ((\<not> extensions_wanted l \<or> extensions_joined l) \<and>
         (\<not> have_health \<or> HEALTH \<notin> set (attached_extensions l) \<or> health_answered) \<and>
         (\<not> logging_attached l \<or> (case empty of None \<Rightarrow> True | Some e \<Rightarrow> e)))))"

subsection \<open>Confirming the image\<close>

definition confirm_running_image :: "('s agent_world_scheme, unit) prog" where
  "confirm_running_image =
     andthen do_pending_verify (\<lambda>p.
     andthen (only_if (p = PendingVerify_Yes) do_mark_valid) (\<lambda>_.
     send_firmware_validated))"

subsection \<open>Downloading\<close>

definition heartbeat_interval_ms :: "config \<Rightarrow> u64" where
  "heartbeat_interval_ms c = cfg_heartbeat_interval_secs c * 1000"

definition pump_get :: "(pump \<Rightarrow> 'a) \<Rightarrow> ('s agent_world_scheme, 'a) prog" where
  "pump_get f = gets (\<lambda>s. f (ag_pump s))"

definition pump_set :: "(pump \<Rightarrow> pump) \<Rightarrow> ('s agent_world_scheme, unit) prog" where
  "pump_set g = modify (\<lambda>s. s\<lparr>ag_pump := g (ag_pump s)\<rparr>)"

definition pump_tick :: "('s agent_world_scheme, unit) prog" where
  "pump_tick =
     andthen now_ms (\<lambda>now.
     andthen (pump_get (\<lambda>p. pump_heartbeat_ms p \<le> saturating_sub now (pump_last_heartbeat p))) (\<lambda>due.
     andthen (only_if due (andthen send_heartbeat (\<lambda>_. pump_set (\<lambda>p. p\<lparr>pump_last_heartbeat := now\<rparr>)))) (\<lambda>_.
     andthen (pump_get pump_last_log) (\<lambda>last_log.
     andthen (send_logs now last_log) (\<lambda>sent.
     pump_set (\<lambda>p. p\<lparr>pump_last_log := sent\<rparr>))))))"

definition pump_report :: "stage \<Rightarrow> u8 \<Rightarrow> ('s agent_world_scheme, unit) prog" where
  "pump_report st percent = andthen (handler_progress st percent) (\<lambda>_. send_progress st percent)"

definition pump_wait_turn :: "u64 \<Rightarrow> unit \<Rightarrow> ('s agent_world_scheme, unit + unit) prog" where
  "pump_wait_turn until _ =
     andthen pump_tick (\<lambda>_.
     andthen now_ms (\<lambda>now.
     if until \<le> now then ok (Inr ())
     else andthen (do_sleep (min (unat (until - now)) 1000)) (\<lambda>_. ok (Inl ()))))"

definition pump_wait :: "duration \<Rightarrow> ('s agent_world_scheme, unit) prog" where
  "pump_wait d =
     andthen (tell (Ev_Wait d)) (\<lambda>_.
     andthen now_ms (\<lambda>now.
     iterate (pump_wait_turn (now + of_nat d)) ()))"

definition agent_http :: "'s agent_world_scheme http_stream" where
  "agent_http = \<lparr>hs_open = do_open, hs_read = do_read\<rparr>"

definition agent_sink :: "'s agent_world_scheme image_sink" where
  "agent_sink = \<lparr>sk_write = do_write, sk_commit = do_commit, sk_abort = do_abort\<rparr>"

definition agent_pump :: "'s agent_world_scheme progress" where
  "agent_pump = \<lparr>pg_tick = pump_tick, pg_report = pump_report, pg_wait = pump_wait,
     pg_warn = log_text Level_Warn\<rparr>"

definition download :: "update_payload \<Rightarrow> ('s agent_world_scheme, unit) prog" where
  "download u =
     andthen do_http (\<lambda>_.
     andthen do_begin (\<lambda>_.
     andthen (gets (\<lambda>s. (cfg_progress_step_percent (ag_config s),
         heartbeat_interval_ms (ag_config s), e_digest (w_env s)))) (\<lambda>(step_percent, heartbeat_ms, digest).
     andthen now_ms (\<lambda>now.
     andthen (pump_set (\<lambda>_. \<lparr>pump_heartbeat_ms = heartbeat_ms, pump_last_heartbeat = now,
         pump_last_log = now\<rparr>)) (\<lambda>_.
     andthen (install digest u agent_http agent_sink step_percent agent_pump) (\<lambda>_. ok ()))))))"

definition apply_update :: "update_payload \<Rightarrow> ('s agent_world_scheme, bool) prog" where
  "apply_update u =
     andthen (case actionable u of
         Some (_, uuid) \<Rightarrow> set_downloading (Some uuid) | None \<Rightarrow> ok ()) (\<lambda>_.
     andthen (attempt (download u)) (\<lambda>outcome.
     andthen (set_downloading None) (\<lambda>_. case outcome of
         Inr _ \<Rightarrow>
           andthen (send_progress Updating 100) (\<lambda>_.
           andthen (send_status ''completed'' (jobj [])) (\<lambda>_.
           andthen send_rebooting (\<lambda>_.
           andthen (log_text Level_Info ''update applied; rebooting'') (\<lambda>_.
           andthen (do_sleep 250) (\<lambda>_.
           andthen do_restart (\<lambda>_. ok True))))))
       | Inl err \<Rightarrow>
           andthen (log_text Level_Error (''update failed: '' @ display_error err)) (\<lambda>_.
           andthen (send_status ''failed'' (jobj [(''reason'', jstr (status_reason err))])) (\<lambda>_.
           ok False)))))"

subsection \<open>What the connection's upkeep emits\<close>

text \<open>
  \<open>chat\<close> is what heartbeats, logs, the console and the extensions do: frames out, clocks and
  providers read, sleeps. \<open>calm P\<close>: only events with \<open>P\<close>, and the join is as it was.
\<close>

fun chat :: "event \<Rightarrow> bool" where
  "chat (Ev_Sent f r) = True"
| "chat (Ev_Slept d) = True"
| "chat (Ev_Now t) = True"
| "chat (Ev_Progress st p) = True"
| "chat (Ev_Location l) = True"
| "chat (Ev_Health h) = True"
| "chat (Ev_Command name args out err) = True"
| "chat (Ev_Control c) = True"
| "chat (Ev_Clock c) = True"
| "chat (Ev_Logged l text) = True"
| "chat (Ev_Others ops) = True"
| "chat (Ev_PendingVerify p) = True"
| "chat (Ev_AutoRevert b) = True"
| "chat (Ev_Identified) = True"
| "chat _ = False"

definition calm :: "(event \<Rightarrow> bool) \<Rightarrow> 's link_world_scheme \<Rightarrow> 's link_world_scheme \<Rightarrow> bool" where
  "calm P s t \<longleftrightarrow> emits P s t \<and> keeps link_core s t"

interpretation calm: run_relation "calm P"
  by unfold_locales
    (auto simp: calm_def intro: emits.rel_refl keeps.rel_refl emits.rel_trans keeps.rel_trans)

lemma calm_both: "stays (emits P) m \<Longrightarrow> stays (keeps link_core) m \<Longrightarrow> stays (calm P) m"
  by (auto simp: stays_def calm_def)

lemma calm_emits: "stays (calm P) m \<Longrightarrow> stays (emits P) m"
  and calm_keeps: "stays (calm P) m \<Longrightarrow> stays (keeps link_core) m"
  by (auto simp: stays_def calm_def)

lemma calm_weaken: "stays (calm P) m \<Longrightarrow> (\<And>e. P e \<Longrightarrow> Q e) \<Longrightarrow> stays (calm Q) m"
  unfolding stays_def calm_def by (meson emits_weaken)

lemma calm_call: "(\<And>a. P (ev a)) \<Longrightarrow> stays (calm P) (call f ev)"
  by (simp add: calm_both stays_call keeps_call)

lemma calm_fallible_call: "(\<And>a. P (ev a)) \<Longrightarrow> stays (calm P) (fallible_call f ev)"
  by (simp add: calm_both stays_fallible_call keeps_fallible_call)

lemma calm_tell: "P ev \<Longrightarrow> stays (calm P) (tell ev)"
  by (simp add: calm_both stays_tell keeps_tell)

lemma calm_link_get: "stays (calm P) (link_get f)"
  by (simp add: calm_both emits_link_get keeps_link_get)

lemma calm_modify: "(\<And>s. w_env (f s) = w_env s \<and> w_hist (f s) = w_hist s \<and> lk (f s) = lk s) \<Longrightarrow>
    stays (calm P) (modify f)"
  by (auto simp: stays_def modify_def calm_def emits_def keeps_def)

lemma calm_world:
  "chat = P \<Longrightarrow> stays (calm P) now_ms"
  "chat = P \<Longrightarrow> stays (calm P) (do_sleep d)"
  "chat = P \<Longrightarrow> stays (calm P) (handler_progress st p)"
  "chat = P \<Longrightarrow> stays (calm P) ask_location"
  "chat = P \<Longrightarrow> stays (calm P) ask_health"
  "chat = P \<Longrightarrow> stays (calm P) (ask_command name args)"
  "chat = P \<Longrightarrow> stays (calm P) ask_control"
  "chat = P \<Longrightarrow> stays (calm P) read_clock"
  "chat = P \<Longrightarrow> stays (calm P) other_threads"
  "chat = P \<Longrightarrow> stays (calm P) (log_text l text)"
  "chat = P \<Longrightarrow> stays (calm P) do_pending_verify"
  "chat = P \<Longrightarrow> stays (calm P) do_auto_revert"
  "chat = P \<Longrightarrow> stays (calm P) do_identify"
  by (auto simp: world_calls intro!: calm_call calm_tell split: prod.split)

text \<open>The link's senders send: they are \<open>chat\<close>, as none of them asks the update handler.\<close>

lemma sends_link_write: "stays (emits chat) (link_write m)"
  unfolding link_write_def by (intro emits_rules) simp_all

lemma sends_link_send: "stays (emits chat) (link_send m r)"
  unfolding link_send_def by (intro emits_rules sends_link_write)

lemma calm_send_event: "stays (calm chat) (send_event ev pl)"
  unfolding send_event_def
  by (intro calm_both emits_rules sends_link_send core_send_event [unfolded send_event_def])

lemma calm_send_heartbeat: "stays (calm chat) send_heartbeat"
  by (intro calm_both core_send_heartbeat) (auto simp: send_heartbeat_def intro!: emits_rules sends_link_write)

lemma calm_send_console: "stays (calm chat) (send_console text)"
  by (intro calm_both core_send_console) (auto simp: send_console_def intro!: emits_rules sends_link_write)

lemma calm_send_console_join: "stays (calm chat) send_console_join"
  by (intro calm_both core_send_console_join)
    (auto simp: send_console_join_def intro!: emits_rules sends_link_write)

lemma sends_send_outgoing: "stays (emits chat) (send_outgoing out)"
  unfolding send_outgoing_def by (cases out) (auto intro!: emits_rules sends_link_write)

lemma calm_send_extension: "stays (calm chat) (send_extension outs)"
  by (intro calm_both core_send_extension) (auto simp: send_extension_def intro!: emits_rules sends_send_outgoing)

lemma calm_link_send_logs: "stays (calm chat) (link_send_logs lines)"
  by (intro calm_both core_link_send_logs)
    (auto simp: link_send_logs_def intro!: emits_rules sends_send_outgoing
        calm_emits [OF calm_send_extension] split: option.split)

lemma calm_set_downloading: "stays (calm P) (set_downloading u)"
  by (intro calm_both core_set_downloading) (simp add: set_downloading_def emits_link_set)

lemma calm_send_extensions_join: "stays (calm chat) send_extensions_join"
proof (rule calm_both [OF staysI core_send_extensions_join])
  fix s :: "'a link_world_scheme" and r t
  assume run: "send_extensions_join s = Some (r, t)"
  obtain reference m g where j: "join_message (lk_extensions (lk s)) (lk_refs (lk s)) = ((reference, m), g)"
    by (metis surj_pair)
  have "stays (emits chat)
      (andthen (link_set (\<lambda>l. l\<lparr>lk_refs := g, lk_extensions_join_ref := Some reference\<rparr>))
         (\<lambda>_. link_write (with_refs m (Some reference) (Some reference))))"
    by (intro emits_rules sends_link_write)
  then show "emits chat s t"
    using run by (auto simp: send_extensions_join_def j dest: staysD)
qed

lemmas calm_sending = calm_send_event calm_send_heartbeat calm_send_console calm_send_console_join
  calm_send_extension calm_link_send_logs calm_set_downloading calm_send_extensions_join

lemmas calm_rules = calm.stays_rules calm_world [OF refl] calm_sending calm_link_get

subsection \<open>The agent's own operations\<close>

lemma calm_touch_logs: "stays (calm chat) (touch_logs f)"
  unfolding touch_logs_def
  by (intro calm_rules, auto simp: stays_def calm_def emits_def keeps_def split: option.splits prod.splits)

lemma calm_has_logs: "stays (calm P) has_logs"
  unfolding has_logs_def by (rule calm.stays_gets)

lemma calm_send_logs: "stays (calm chat) (send_logs now last_log)"
  unfolding send_logs_def
  by (auto simp: Let_def intro!: calm_rules calm_touch_logs calm_has_logs split: option.split)

lemma calm_log_command: "stays (calm chat) (log_command args)"
  unfolding log_command_def
  by (auto intro!: calm_rules calm_touch_logs calm_has_logs split: list.split option.split)

lemma calm_console_run: "stays (calm chat) (console_run line con)"
  unfolding console_run_def
  by (auto simp: Let_def intro!: calm_rules split: option.split prod.split)

lemma calm_answer_need: "stays (calm chat) (answer_need need)"
  unfolding answer_need_def by (cases need) (auto intro!: calm_rules)

lemma calm_answer_extension: "stays (calm chat) (answer_extension needs)"
  unfolding answer_extension_def by (intro calm_rules calm_answer_need)

lemma calm_nothing_outstanding: "stays (calm chat) (nothing_outstanding h)"
  unfolding nothing_outstanding_def
  by (auto intro!: calm_rules calm_touch_logs split: prod.split)

lemma calm_pump_get: "stays (calm P) (pump_get f)"
  unfolding pump_get_def by (rule calm.stays_gets)

lemma calm_pump_set: "stays (calm P) (pump_set f)"
  unfolding pump_set_def by (rule calm_modify) simp

lemma calm_pump_tick: "stays (calm chat) pump_tick"
  unfolding pump_tick_def by (intro calm_rules calm_pump_get calm_pump_set calm_send_logs)

lemma calm_pump_report: "stays (calm chat) (pump_report st p)"
  unfolding pump_report_def send_progress_def by (intro calm_rules)

lemma calm_pump_wait_turn: "stays (calm chat) (pump_wait_turn until u)"
  unfolding pump_wait_turn_def by (auto intro!: calm_rules calm_pump_tick)

subsection \<open>A download's calls\<close>

text \<open>The calls of an installation among the events, and that the upkeep makes none of them.\<close>

fun io_of :: "event \<Rightarrow> io_call list" where
  "io_of (Ev_Open url r) = [Io_Open url r]"
| "io_of (Ev_Read r) = [Io_Read r]"
| "io_of (Ev_Write c r) = [Io_Write c r]"
| "io_of (Ev_Commit r) = [Io_Commit r]"
| "io_of Ev_Abort = [Io_Abort]"
| "io_of (Ev_Wait d) = [Io_Wait d]"
| "io_of _ = []"

definition io_calls :: "event list \<Rightarrow> io_call list" where
  "io_calls evs = concat (map io_of evs)"

lemma io_calls_append [simp]: "io_calls (xs @ ys) = io_calls xs @ io_calls ys"
  by (simp add: io_calls_def)

lemma io_calls_simps [simp]: "io_calls [] = []" "io_calls (e # evs) = io_of e @ io_calls evs"
  by (simp_all add: io_calls_def)

lemma chat_io: "chat e \<Longrightarrow> io_of e = []"
  by (cases e) auto

lemma io_calls_chat: "list_all chat evs \<Longrightarrow> io_calls evs = []"
  by (induction evs) (auto simp: io_calls_def chat_io)

definition agent_io :: "'s agent_world_scheme \<Rightarrow> io_call list" where
  "agent_io s = io_calls (w_hist s)"

lemma chat_keeps_io: "stays (calm chat) m \<Longrightarrow> m s = Some (r, t) \<Longrightarrow> agent_io t = agent_io s"
  by (auto simp: agent_io_def calm_def emits_def io_calls_chat dest!: staysD)

lemma agent_io_event: "agent_io (s\<lparr>w_hist := w_hist s @ [e]\<rparr>) = agent_io s @ io_of e"
  by (simp add: agent_io_def)

lemma pump_wait_io: "pump_wait d s = Some (w, t) \<Longrightarrow> agent_io t = agent_io s @ [Io_Wait d]"
proof -
  assume run: "pump_wait d s = Some (w, t)"
  have "stays (calm chat) (andthen now_ms (\<lambda>now. iterate (pump_wait_turn (now + of_nat d)) ()))"
    by (intro calm_rules calm_pump_wait_turn)
  moreover have "andthen now_ms (\<lambda>now. iterate (pump_wait_turn (now + of_nat d)) ())
      (s\<lparr>w_hist := w_hist s @ [Ev_Wait d]\<rparr>) = Some (w, t)"
    using run by (simp add: pump_wait_def andthen_run [of "tell _"] tell_run)
  ultimately have "agent_io t = agent_io (s\<lparr>w_hist := w_hist s @ [Ev_Wait d]\<rparr>)"
    by (rule chat_keeps_io)
  then show ?thesis by (simp add: agent_io_event)
qed

interpretation agent_install: install_io agent_io agent_http agent_sink agent_pump
proof
  fix s t :: "'s agent_world_scheme" and w d
  assume "pg_wait agent_pump d s = Some (w, t)"
  then show "agent_io t = agent_io s @ [Io_Wait d]" by (simp add: agent_pump_def pump_wait_io)
qed (auto simp: agent_http_def agent_sink_def agent_pump_def world_runs agent_io_event
    intro: chat_keeps_io calm_pump_tick calm_pump_report)

text \<open>All a download emits: the upkeep's events, the installation's and the two it opens with.\<close>

definition download_event :: "event \<Rightarrow> bool" where
  "download_event e \<longleftrightarrow> chat e \<or> io_of e \<noteq> [] \<or> (\<exists>r. e = Ev_Http r) \<or> (\<exists>r. e = Ev_Begin r)"

lemma chat_download: "stays (calm chat) m \<Longrightarrow> stays (calm download_event) m"
  by (erule calm_weaken) (simp add: download_event_def)

lemma calm_io_calls:
  "stays (calm download_event) (do_open url)" "stays (calm download_event) (do_read k)"
  "stays (calm download_event) (do_write c)" "stays (calm download_event) do_commit"
  "stays (calm download_event) do_abort" "stays (calm download_event) do_http"
  "stays (calm download_event) do_begin"
  by (auto simp: world_calls download_event_def intro!: calm_fallible_call calm_tell)

lemma calm_pump_wait: "stays (calm download_event) (pump_wait d)"
  unfolding pump_wait_def
  by (intro calm.stays_andthen calm_tell calm.stays_iterate)
    (simp_all add: download_event_def chat_download calm_world calm_pump_wait_turn)

lemma calm_open_image: "stays (calm download_event) (open_image agent_http agent_pump url waits)"
  by (induction waits)
    (auto simp: agent_http_def agent_pump_def Let_def calm_io_calls split: sum.split
      intro!: calm.stays_rules calm_io_calls calm_pump_wait chat_download [OF calm_world(10)])

lemma calm_copy_turn:
  "stays (calm download_event) (copy_turn digest agent_http agent_sink agent_pump expected l)"
  by (auto simp: copy_turn_def copy_chunk_def copy_report_def agent_http_def agent_sink_def agent_pump_def Let_def
      intro!: calm.stays_rules calm_io_calls chat_download [OF calm_pump_tick] chat_download [OF calm_pump_report]
      split: option.split prod.split)

lemma calm_install: "stays (calm download_event) (install digest u agent_http agent_sink stp agent_pump)"
  by (auto simp: install_def download_image_def copy_image_def Let_def agent_sink_def [THEN arg_cong, of sk_commit]
      agent_sink_def [THEN arg_cong, of sk_abort]
      intro!: calm.stays_rules calm_open_image calm_copy_turn calm_io_calls split: option.split sum.split prod.split)

lemma calm_download: "stays (calm download_event) (download u)"
  unfolding download_def
  by (auto intro!: calm.stays_rules calm_io_calls calm_install calm_pump_set chat_download [OF calm_world(1)]
      split: prod.split)

subsection \<open>A download's copy ends\<close>

lemma returns_world:
  "returns (call f ev)" "returns (fallible_call f' ev')" "returns (tell e)"
  "returns (link_get g)" "returns (link_set h)" "returns fresh_ref"
  by (simp_all add: returns_def call_run fallible_call_run tell_run link_get_def link_set_def fresh_ref_def
      prog_run split: prod.split)

lemma returns_touch_logs: "returns (touch_logs f)"
  unfolding touch_logs_def other_threads_def
  by (intro returns_rules returns_world) (auto simp: returns_def split: option.split prod.split)

lemma returns_send_frame: "returns (send_frame f)"
  by (simp add: send_frame_def returns_world)

lemma returns_link_write: "returns (link_write m)"
  by (auto simp: link_write_def intro!: returns_rules returns_send_frame)

lemma returns_send_event: "returns (send_event event pl)"
  by (auto simp: send_event_def link_send_def intro!: returns_rules returns_world returns_link_write)

lemma returns_link_send_logs: "returns (link_send_logs lines)"
  by (auto simp: link_send_logs_def send_log_def send_extension_def send_outgoing_def
      intro!: returns_rules returns_world returns_link_write returns_send_frame
      split: option.split outgoing.split)

lemma returns_send_logs: "returns (send_logs now last_log)"
  unfolding send_logs_def read_clock_def other_threads_def has_logs_def
  by (auto simp: Let_def intro!: returns_rules returns_world returns_touch_logs returns_link_send_logs
      split: option.split)

lemma returns_pump: "returns pump_tick" "returns (pump_report st p)"
  by (auto simp: pump_tick_def pump_report_def pump_get_def pump_set_def send_heartbeat_def send_progress_def
      now_ms_def handler_progress_def
      intro!: returns_rules returns_world returns_link_write returns_send_logs returns_send_event)

text \<open>
  The transport, the server and the log may do anything else: as long as a read keeps to its
  buffer, a download that knows its size comes to an end.
\<close>

definition reads_fit :: "env \<Rightarrow> bool" where
  "reads_fit E \<longleftrightarrow> (\<forall>h n c. e_read E h n = Inr c \<longrightarrow> length c \<le> n)"

lemma agent_copy_returns:
  assumes "reads_fit (w_env s)" and "unat tot + CHUNK_SIZE < 2 ^ 64"
  shows "copy_image digest agent_http agent_sink agent_pump (Some tot) stp s \<noteq> None"
proof (rule copy_returns [where J = "\<lambda>t. w_env t = w_env s"])
  show "returns (hs_read agent_http CHUNK_SIZE)" "\<And>c. returns (sk_write agent_sink c)"
    "returns (pg_tick agent_pump)" "\<And>st p. returns (pg_report agent_pump st p)"
    by (simp_all add: agent_http_def agent_sink_def agent_pump_def do_read_def do_write_def returns_world returns_pump)
  show "length c \<le> CHUNK_SIZE"
    if "w_env u = w_env s" "hs_read agent_http CHUNK_SIZE u = Some (Inr c, t)" for u t :: "'a agent_world_scheme" and c
    using that assms(1) by (auto simp: agent_http_def world_runs reads_fit_def)
  show "stays (\<lambda>u t. w_env u = w_env s \<longrightarrow> w_env t = w_env s)
      (copy_turn digest agent_http agent_sink agent_pump (Some tot) l)" for l
    using calm_emits [OF calm_copy_turn] by (fastforce simp: stays_def emits_def)
qed (use assms(2) in simp_all)

subsection \<open>A download ends\<close>

text \<open>
  A clock that does not go back, and has gone forward after a sleep unless it has reached the end
  of its range.
\<close>

definition clock_runs :: "env \<Rightarrow> bool" where
  "clock_runs E \<longleftrightarrow> (\<forall>h evs. e_now E h \<le> e_now E (h @ evs)) \<and>
     (\<forall>h d. 0 < d \<longrightarrow> e_now E h < e_now E (h @ [Ev_Slept d]) \<or> e_now E h = - 1)"

lemma clock_runs_sleep:
  assumes "clock_runs E" and "0 < d" and "e_now E (h @ evs) < until"
  shows "unat until - unat (e_now E (h @ evs @ [ev, Ev_Slept d])) < unat until - unat (e_now E h)"
proof -
  have a: "e_now E h \<le> e_now E (h @ evs)" "e_now E (h @ evs) \<le> e_now E ((h @ evs) @ [ev])"
    using assms(1) unfolding clock_runs_def by blast+
  have "e_now E (h @ evs) \<noteq> - 1" using assms(3) word_order.extremum [of until] by auto
  moreover have "e_now E (h @ evs @ [ev]) < e_now E ((h @ evs @ [ev]) @ [Ev_Slept d]) \<or>
      e_now E (h @ evs @ [ev]) = - 1"
    and "e_now E (h @ evs @ [ev]) \<le> e_now E ((h @ evs @ [ev]) @ [Ev_Slept d])"
    using assms(1,2) unfolding clock_runs_def by blast+
  moreover have "e_now E (h @ evs) < - 1" using calculation(1) word_order.not_eq_extremum by blast
  ultimately have "e_now E (h @ evs) < e_now E (h @ evs @ [ev, Ev_Slept d])"
    using a(2) by auto
  then show ?thesis using a(1) assms(3) by (simp add: word_less_nat_alt word_le_nat_alt)
qed

lemma pump_wait_returns:
  assumes "clock_runs (w_env s)"
  shows "pump_wait d s \<noteq> None"
proof -
  let ?E = "w_env s"
  have "iterate (pump_wait_turn until) () t \<noteq> None" if t: "w_env t = ?E"
    for until and t :: "'a agent_world_scheme"
  proof (rule iterate_returns [where I = "\<lambda>_ t. w_env t = ?E"
        and \<mu> = "\<lambda>_ t. unat until - unat (e_now ?E (w_hist t))"])
    fix l and u :: "'a agent_world_scheme"
    have "returns (pump_wait_turn until l :: ('a agent_world_scheme, unit + unit) prog)"
      by (auto simp: pump_wait_turn_def now_ms_def do_sleep_def intro!: returns_rules returns_world returns_pump)
    then show "pump_wait_turn until l u \<noteq> None" by (simp add: returns_def)
  next
    fix l l' and u v :: "'a agent_world_scheme"
    assume u: "w_env u = ?E" and run: "pump_wait_turn until l u = Some (Inr (Inl l'), v)"
    then obtain w where tick: "pump_tick u = Some (Inr (), w)"
      and rest: "andthen now_ms (\<lambda>now. if until \<le> now then ok (Inr ())
         else andthen (do_sleep (min (unat (until - now)) 1000)) (\<lambda>_. ok (Inl ()))) w = Some (Inr (Inl l'), v)"
      by (auto simp: pump_wait_turn_def andthen_Inr [of pump_tick])
    from calm_emits [OF calm_pump_tick] tick have "emits chat u w" by (rule staysD)
    then obtain evs where w: "w_env w = ?E" "w_hist w = w_hist u @ evs" using u by (auto simp: emits_def)
    let ?now = "e_now ?E (w_hist u @ evs)"
    have v: "?now < until" "v = w\<lparr>w_hist := w_hist w @ [Ev_Now ?now, Ev_Slept (min (unat (until - ?now)) 1000)]\<rparr>"
      using rest w by (auto simp: world_calls world_steps tell_run ok_def not_le split: if_splits)
    have "0 < min (unat (until - ?now)) 1000" using v(1) by (auto simp: unat_gt_0)
    from clock_runs_sleep [OF assms this v(1), of "Ev_Now ?now"]
    show "w_env v = ?E \<and> unat until - unat (e_now ?E (w_hist v)) < unat until - unat (e_now ?E (w_hist u))"
      using v(2) w by simp
  qed (use t in simp)
  then show ?thesis by (simp add: pump_wait_def world_calls world_steps)
qed

lemma open_image_answers:
  assumes "clock_runs (w_env s)"
  shows "\<exists>r t. open_image agent_http agent_pump url waits s = Some (r, t) \<and>
    (\<forall>n. r = Inr n \<longrightarrow> (\<exists>h. e_open (w_env s) h url = Inr n))"
  using assms
proof (induction waits arbitrary: s)
  case Nil
  then show ?case by (auto simp: agent_http_def world_runs)
next
  case (Cons backoff waits)
  show ?case
  proof (cases "e_open (w_env s) (w_hist s) url")
    case (Inr n)
    then show ?thesis by (auto simp: agent_http_def andthen_attempt world_runs prog_simps)
  next
    case (Inl e)
    let ?d = "retry_wait backoff e"
    let ?s = "s\<lparr>w_hist := w_hist s @ [Ev_Open url (Inl e), Ev_Logged Level_Warn (retry_text e ?d)]\<rparr>"
    have "pump_wait ?d ?s \<noteq> None" using Cons.prems by (intro pump_wait_returns) simp
    then obtain r t where w: "pump_wait ?d ?s = Some (r, t)" by auto
    from calm_emits [OF calm_pump_wait] w have "emits download_event ?s t" by (rule staysD)
    then have env: "w_env t = w_env s" by (simp add: emits_def)
    then have rest: "\<exists>r v. open_image agent_http agent_pump url waits t = Some (r, v) \<and>
        (\<forall>n. r = Inr n \<longrightarrow> (\<exists>h. e_open (w_env s) h url = Inr n))"
      using Cons.IH [of t] Cons.prems by simp
    have sel: "hs_open agent_http = do_open" "pg_wait agent_pump = pump_wait"
      "pg_warn agent_pump = log_text Level_Warn"
      by (simp_all add: agent_http_def agent_pump_def)
    have "open_image agent_http agent_pump url (backoff # waits) s =
        (if worth_retrying e then andthen (pump_wait ?d) (\<lambda>_. open_image agent_http agent_pump url waits) ?s
         else Some (Inl e, s\<lparr>w_hist := w_hist s @ [Ev_Open url (Inl e)]\<rparr>))"
      using Inl by (simp add: sel andthen_attempt world_calls world_steps fallible_call_run prog_simps Let_def)
    then show ?thesis using w rest by (cases r) (auto simp: andthen_run)
  qed
qed

text \<open>
  A size for every answer the server may give to the request, the update's own or the server's.
\<close>

definition sized :: "env \<Rightarrow> update_payload \<Rightarrow> bool" where
  "sized E u \<longleftrightarrow> (\<forall>h url n. e_open E h url = Inr n \<longrightarrow>
     (\<exists>tot. expected_size u n = Some tot \<and> unat tot + CHUNK_SIZE < 2 ^ 64))"

lemma install_returns:
  assumes "clock_runs (w_env s)" "reads_fit (w_env s)" "sized (w_env s) u"
  shows "install digest u agent_http agent_sink stp agent_pump s \<noteq> None"
proof (cases "actionable u")
  case None
  then show ?thesis by (simp add: install_def fail_def)
next
  case (Some a)
  obtain url uuid where a: "a = (url, uuid)" by fastforce
  obtain r1 s1 where op: "open_image agent_http agent_pump url RETRY_WAITS s = Some (r1, s1)"
    and n: "\<forall>n. r1 = Inr n \<longrightarrow> (\<exists>h. e_open (w_env s) h url = Inr n)"
    using open_image_answers [OF assms(1)] by blast
  from calm_emits [OF calm_open_image] op have "emits download_event s s1" by (rule staysD)
  then have env: "w_env s1 = w_env s" by (simp add: emits_def)
  have cp: "copy_image digest agent_http agent_sink agent_pump (expected_size u n) stp s1 \<noteq> None" if r1: "r1 = Inr n" for n
  proof -
    obtain tot where "expected_size u n = Some tot" "unat tot + CHUNK_SIZE < 2 ^ 64"
      using n r1 assms(3) unfolding sized_def by blast
    then show ?thesis using assms env by (simp add: agent_copy_returns)
  qed
  have "download_image digest u url agent_http agent_sink stp agent_pump s \<noteq> None"
    using op cp
    by (auto simp: download_image_def andthen_run Let_def result_def split: sum.split prod.split)
  then obtain d s3 where dl: "download_image digest u url agent_http agent_sink stp agent_pump s = Some (d, s3)"
    by auto
  have "returns (andthen (sk_commit agent_sink) (\<lambda>_. ok rep) :: ('a agent_world_scheme, install_report) prog)"
    "returns (andthen (sk_abort agent_sink) (\<lambda>_. fail e) :: ('a agent_world_scheme, install_report) prog)" for rep e
    by (auto simp: agent_sink_def do_commit_def do_abort_def intro!: returns_rules returns_world)
  then show ?thesis
    using Some a dl by (cases d) (simp_all add: install_def andthen_attempt returns_def)
qed

lemma download_returns:
  assumes "clock_runs (w_env s)" "reads_fit (w_env s)" "sized (w_env s) u"
  shows "\<exists>r t. download u s = Some (r, t)"
proof -
  have inst: "install (e_digest (w_env s)) u agent_http agent_sink stp agent_pump t \<noteq> None"
    if "w_env t = w_env s" for stp and t :: "'a agent_world_scheme"
    using assms that by (intro install_returns) simp_all
  have "download u s \<noteq> None"
  proof (cases "e_http (w_env s) (w_hist s)")
    case (Inl e)
    then show ?thesis by (simp add: download_def world_calls world_steps)
  next
    case http: (Inr h)
    let ?h = "w_hist s @ [Ev_Http (Inr ())]"
    show ?thesis
    proof (cases "e_begin (w_env s) ?h")
      case (Inl e)
      then show ?thesis using http by (simp add: download_def world_calls world_steps)
    next
      case (Inr b)
      have "andthen (install (e_digest (w_env s)) u agent_http agent_sink stp agent_pump) (\<lambda>_. ok ()) t \<noteq> None"
        if "w_env t = w_env s" for stp and t :: "'a agent_world_scheme"
        using inst [OF that, of stp] by (auto simp: andthen_run ok_def split: sum.split)
      then show ?thesis
        using http Inr
        by (simp add: download_def world_calls world_steps andthen_gets andthen_modify pump_set_def)
    qed
  qed
  then show ?thesis by fastforce
qed

subsection \<open>Properties\<close>

text \<open>
  C8: a download comes to an end, whatever the server, the link and the application answer: with a
  size in the update or in the server's answer, a server whose reads keep to their buffer and a clock
  that runs, the retries, their waits and the copy all finish.
\<close>

theorem download_ends:
  assumes "clock_runs (w_env s)" "reads_fit (w_env s)" "sized (w_env s) u"
  shows "\<exists>r t. download u s = Some (r, t)"
  using assms by (rule download_returns)

text \<open>An environment: every call succeeds, the server sends nothing, and the clock counts calls.\<close>

definition demo_codec :: codec where
  "demo_codec = \<lparr>json_write = (\<lambda>_. Inr ''[]''), json_read = (\<lambda>_. Inl ''EOF''),
     msgpack_write = (\<lambda>_. Inr [147]), msgpack_read = (\<lambda>_. Inl ''EOF''),
     value_text = (\<lambda>_. []), payload_error = (\<lambda>_. ''invalid type'')\<rparr>"

definition demo_env :: env where
  "demo_env = \<lparr>e_codec = demo_codec, e_digest = (\<lambda>_. []),
     e_layout = \<lparr>size_of_line = 80, size_of_pair = 24\<rparr>,
     e_connect = (\<lambda>_. Inr ()), e_send = (\<lambda>_ _. Inr ()), e_recv = (\<lambda>_. Inr None),
     e_http = (\<lambda>_. Inr ()), e_open = (\<lambda>_ _. Inr None), e_read = (\<lambda>_ _. Inr []),
     e_begin = (\<lambda>_. Inr ()), e_write = (\<lambda>_ _. Inr ()), e_commit = (\<lambda>_. Inr ()),
     e_pending_verify = (\<lambda>_. PendingVerify_No), e_auto_revert = (\<lambda>_. False),
     e_mark_valid = (\<lambda>_. Inr ()), e_now = (\<lambda>h. of_nat (min (length h) (2 ^ 64 - 1))),
     e_decide = (\<lambda>_ _. Apply), e_location = (\<lambda>_. None), e_health = (\<lambda>_. empty_report),
     e_command = (\<lambda>_ _ _. ([], None)), e_control = (\<lambda>_. Stay), e_clock = (\<lambda>_. None),
     e_others = (\<lambda>_. []), e_debug = (\<lambda>s. [s])\<rparr>"

definition demo_config :: config where
  "demo_config = config_new ''hub.example'' (ClientCertificate [67] [75])"

definition demo_firmware :: firmware_metadata where
  "demo_firmware = \<lparr>fm_project_name = ''demo'', fm_version = ''1.0.0'', fm_app_elf_sha256 = ''00'',
     fm_idf_ver = ''v5.3'', fm_chip_id = 0\<rparr>"

definition demo_agent :: agent_world where
  "demo_agent = \<lparr>w_env = demo_env, w_hist = [], lk = link_new demo_config demo_firmware,
     ag_config = demo_config, ag_metadata = demo_firmware, ag_location = False, ag_health = False,
     ag_identify = False, ag_logs = None, ag_console = None, ag_joined = False,
     ag_pump = \<lparr>pump_heartbeat_ms = 0, pump_last_heartbeat = 0, pump_last_log = 0\<rparr>\<rparr>"

lemma demo_clock: "clock_runs demo_env"
proof -
  have "of_nat (min (length h) (2 ^ 64 - 1)) < (of_nat (min (Suc (length h)) (2 ^ 64 - 1)) :: u64) \<or>
      of_nat (min (length h) (2 ^ 64 - 1)) = (- 1 :: u64)" for h :: history
  proof (cases "length h < 2 ^ 64 - 1")
    case True
    moreover have "unat (of_nat n :: u64) = n" if "n < 2 ^ 64" for n
      using that by (simp add: unat_of_nat)
    ultimately show ?thesis by (simp add: word_less_nat_alt del: of_nat_Suc)
  next
    case False
    then show ?thesis by (simp add: min_def)
  qed
  moreover have "(of_nat (min (length h) (2 ^ 64 - 1)) :: u64) \<le> of_nat (min (length h + n) (2 ^ 64 - 1))"
    for h :: history and n
    by (simp add: word_le_nat_alt unat_of_nat)
  ultimately show ?thesis by (simp add: clock_runs_def demo_env_def)
qed

theorem download_ends_witness: "\<exists>r t. download demo_update demo_agent = Some (r, t)"
  by (rule download_ends)
    (simp_all add: demo_clock reads_fit_def sized_def demo_agent_def demo_update_def CHUNK_SIZE_def
      expected_size_def, simp add: demo_env_def)

text \<open>
  C15: how hard an installation tries. It opens the image at most four times, and what it does is
  exactly this: each open but the last failed in a way worth retrying, and was followed by a wait of
  the schedule's next length, or of what that failure's server asked for, at most two minutes. The
  last open succeeded, and its length is the answer; or failed, and that is the error, with no wait
  left or nothing worth retrying; or there is none, the wait before it having been cut short by an
  error of the connection, which is the error then.
\<close>

theorem open_attempts_bounded:
  assumes "open_image agent_http agent_pump url RETRY_WAITS s = Some (r, t)"
  shows "\<exists>es final.
    agent_io t = agent_io s @
      concat (map (\<lambda>(w, e). [Io_Open url (Inl e), Io_Wait (retry_wait w e)]) (zip RETRY_WAITS es)) @ final \<and>
    length es \<le> 3 \<and> list_all worth_retrying es \<and>
    list_all (\<lambda>(w, e). retry_wait w e \<le> RETRY_AFTER_MAX) (zip RETRY_WAITS es) \<and>
    (case r of
       Inr n \<Rightarrow> final = [Io_Open url (Inr n)]
     | Inl e \<Rightarrow> (final = [Io_Open url (Inl e)] \<and> (length es = 3 \<or> \<not> worth_retrying e)) \<or>
         (final = [] \<and> es \<noteq> [] \<and>
           (\<exists>u. pg_wait agent_pump (retry_wait (RETRY_WAITS ! (length es - 1)) (last es)) u = Some (Inl e, t))))"
proof -
  have three: "length RETRY_WAITS = 3" by (simp add: RETRY_WAITS_def)
  have "retry_wait w e \<le> RETRY_AFTER_MAX" if "(w, e) \<in> set (zip RETRY_WAITS es)" for w e es
    using that retry_wait_bounds [of w e] by (auto simp: RETRY_WAITS_def RETRY_AFTER_MAX_def dest!: set_zip_leftD)
  then have "list_all (\<lambda>(w, e). retry_wait w e \<le> RETRY_AFTER_MAX) (zip RETRY_WAITS es)" for es
    by (auto simp: list_all_iff)
  with agent_install.open_image_attempts [OF assms] show ?thesis
    unfolding three attempts_def by simp
qed

text \<open>A server that is busy at first, asks for ten seconds, and then answers.\<close>

definition busy_env :: env where
  "busy_env = demo_env\<lparr>
     e_open := (\<lambda>h url. if io_calls h = [] then Inl (Error_DownloadStatus 503 (Some 10)) else Inr (Some 9)),
     e_now := (\<lambda>h. if length h < 5 then 0 else 20000)\<rparr>"

definition busy_agent :: agent_world where
  "busy_agent = demo_agent\<lparr>w_env := busy_env,
     ag_pump := \<lparr>pump_heartbeat_ms = 90000, pump_last_heartbeat = 0, pump_last_log = 0\<rparr>\<rparr>"

lemma iterate_once: "body l s = Some (Inr (Inr a), t) \<Longrightarrow> iterate body l s = Some (Inr a, t)"
  by (subst iterate.simps) simp

theorem open_attempts_bounded_witness:
  "\<exists>t es. open_image agent_http agent_pump ''u'' RETRY_WAITS busy_agent = Some (Inr (Some 9), t) \<and>
     agent_io t = concat (map (\<lambda>(w, e). [Io_Open ''u'' (Inl e), Io_Wait (retry_wait w e)]) (zip RETRY_WAITS es)) @
       [Io_Open ''u'' (Inr (Some 9))] \<and>
     length es = 1 \<and> list_all worth_retrying es"
proof -
  have "map_option (\<lambda>(r, t). (r, length (agent_io t)))
      (open_image agent_http agent_pump ''u'' RETRY_WAITS busy_agent) = Some (Inr (Some 9), 3)"
    by (simp add: RETRY_WAITS_def agent_http_def agent_pump_def do_open_def log_text_def pump_wait_def
        pump_wait_turn_def pump_tick_def pump_get_def pump_set_def send_logs_def has_logs_def now_ms_def
        busy_agent_def busy_env_def demo_agent_def demo_env_def iterate_once world_steps tell_run
        fallible_call_run call_run attempt_def andthen_gets andthen_modify andthen_run prog_run link_get_def
        worth_retrying_def retry_wait_def RETRY_AFTER_MAX_def agent_io_def io_calls_def saturating_sub_def Let_def)
  then obtain t where t: "open_image agent_http agent_pump ''u'' RETRY_WAITS busy_agent = Some (Inr (Some 9), t)"
    and three: "length (agent_io t) = 3" by auto
  have none: "agent_io busy_agent = []" by (simp add: busy_agent_def demo_agent_def agent_io_def io_calls_def)
  from open_attempts_bounded [OF t] obtain es where es:
    "agent_io t = concat (map (\<lambda>(w, e). [Io_Open ''u'' (Inl e), Io_Wait (retry_wait w e)]) (zip RETRY_WAITS es)) @
       [Io_Open ''u'' (Inr (Some 9))]" "length es \<le> 3" "list_all worth_retrying es"
    by (auto simp: none)
  have "sum_list (map (\<lambda>x. 2) (zip RETRY_WAITS es)) = (2 :: nat)"
    using three unfolding es(1) by (simp add: length_concat comp_def case_prod_beta numeral_2_eq_2)
  then have "length es = 1" using es(2) by (simp add: sum_list_triv RETRY_WAITS_def)
  with t es show ?thesis by blast
qed

end
