(* ===== verification/Session.thy ===== *)
theory Session
  imports Agent
begin

text \<open>
  \<open>src/agent.rs\<close>, the session loop and its callers: \<open>session_within\<close>, \<open>run\<close>,
  \<open>run_session\<close> and \<open>run_session_until\<close>. A turn of the loop is the sequence the code has:
  confirm, extensions, console, heartbeat, logs, control, window, then one frame.
\<close>

record session_locals =
  sl_confirmed :: bool
  sl_extensions_joined :: bool
  sl_extensions_reported :: bool
  sl_console_joined :: bool
  sl_last_log :: u64
  sl_last_heartbeat :: u64
  sl_heartbeat_ms :: u64
  sl_started :: u64
  sl_joined_at :: "u64 option"
  sl_health_answered :: bool

subsection \<open>The head of a turn\<close>

definition turn_confirm :: "session_locals \<Rightarrow> ('s agent_world_scheme, session_locals) prog" where
  "turn_confirm l =
     andthen (link_get lk_joined) (\<lambda>joined.
     if joined \<and> \<not> sl_confirmed l then
       andthen (modify (\<lambda>s. s\<lparr>ag_joined := True\<rparr>)) (\<lambda>_.
       andthen now_ms (\<lambda>now.
       andthen confirm_running_image (\<lambda>_.
       ok (l\<lparr>sl_joined_at := Some now, sl_confirmed := True\<rparr>))))
     else ok l)"

definition turn_extensions :: "session_locals \<Rightarrow> ('s agent_world_scheme, session_locals) prog" where
  "turn_extensions l =
     andthen (case sl_joined_at l of
         None \<Rightarrow> ok False
       | Some at \<Rightarrow> andthen now_ms (\<lambda>now. ok (EXTENSIONS_INVITATION_WAIT_MS \<le> saturating_sub now at))) (\<lambda>overdue.
     andthen (gets lk) (\<lambda>k.
     if lk_joined k \<and> extensions_wanted k \<and> \<not> sl_extensions_joined l \<and> (extensions_invited k \<or> overdue)
     then andthen send_extensions_join (\<lambda>_. ok (l\<lparr>sl_extensions_joined := True\<rparr>))
     else ok l))"

definition turn_console :: "session_locals \<Rightarrow> ('s agent_world_scheme, session_locals) prog" where
  "turn_console l =
     andthen (gets lk) (\<lambda>k.
     if lk_joined k \<and> lk_console_wanted k \<and> \<not> sl_console_joined l
     then andthen send_console_join (\<lambda>_. ok (l\<lparr>sl_console_joined := True\<rparr>))
     else ok l)"

text \<open>\<open>{:?}\<close> of the attached extensions is the world's; the count is the buffer's length.\<close>

definition attached_text :: "env \<Rightarrow> string list \<Rightarrow> nat \<Rightarrow> string" where
  "attached_text E keys queued =
     ''extensions attached: ['' @ concat (map (\<lambda>(i, k). (if i = 0 then [] else '', '') @ concat (e_debug E k))
        (List.enumerate 0 keys)) @ '']; '' @ dec_nat queued @ '' log lines queued''"

definition turn_report_extensions ::
    "session_locals \<Rightarrow> ('s agent_world_scheme, session_locals) prog" where
  "turn_report_extensions l =
     andthen (gets lk) (\<lambda>k.
     if extensions_joined k \<and> \<not> sl_extensions_reported l then
       andthen (touch_logs (\<lambda>L b. (buffer_len b, b))) (\<lambda>queued.
       andthen (gets (\<lambda>s. attached_text (w_env s) (attached_extensions k)
          (case queued of None \<Rightarrow> 0 | Some q \<Rightarrow> q))) (\<lambda>text.
       andthen (log_text Level_Info text) (\<lambda>_.
       ok (l\<lparr>sl_extensions_reported := True\<rparr>))))
     else ok l)"

definition no_reply_error :: "u64 \<Rightarrow> error" where
  "no_reply_error heartbeat_ms =
     Error_Transport (''no reply to a heartbeat in '' @ dec_u64 (heartbeat_ms div 1000) @ ''s'')"

definition turn_heartbeat :: "u64 \<Rightarrow> session_locals \<Rightarrow> ('s agent_world_scheme, session_locals) prog" where
  "turn_heartbeat now l =
     (if sl_heartbeat_ms l \<le> saturating_sub now (sl_last_heartbeat l) then
        andthen (link_get heartbeat_unanswered) (\<lambda>unanswered.
        if unanswered then fail (no_reply_error (sl_heartbeat_ms l))
        else andthen send_heartbeat (\<lambda>_. ok (l\<lparr>sl_last_heartbeat := now\<rparr>)))
      else ok l)"

definition turn_logs :: "u64 \<Rightarrow> session_locals \<Rightarrow> ('s agent_world_scheme, session_locals) prog" where
  "turn_logs now l =
     andthen (send_logs now (sl_last_log l)) (\<lambda>sent. ok (l\<lparr>sl_last_log := sent\<rparr>))"

text \<open>\<open>control\<close>, when the caller gave one; \<open>True\<close> is to leave.\<close>

definition turn_control :: "bool \<Rightarrow> ('s agent_world_scheme, bool) prog" where
  "turn_control has_control =
     (if \<not> has_control then ok False
      else andthen ask_control (\<lambda>c. case c of
          Stay \<Rightarrow> ok False
        | ReportHealth \<Rightarrow>
            andthen (link_get (\<lambda>k. HEALTH \<in> set (attached_extensions k))) (\<lambda>att.
            andthen (only_if att (answer_extension [NeedHealth])) (\<lambda>_. ok False))
        | Leave \<Rightarrow> ok True))"

definition turn_window ::
    "session_window option \<Rightarrow> u64 \<Rightarrow> session_locals \<Rightarrow> ('s agent_world_scheme, bool) prog" where
  "turn_window window now l = (case window of
      None \<Rightarrow> ok False
    | Some w \<Rightarrow>
        if of_nat (sw_limit w) \<le> saturating_sub now (sl_started l) then
          andthen (link_get lk_joined) (\<lambda>joined.
          if \<not> joined then fail (Error_Transport ''no join reply inside the session limit'') else ok True)
        else if (case sl_joined_at l of
              None \<Rightarrow> False | Some at \<Rightarrow> of_nat (sw_linger w) \<le> saturating_sub now at)
          then nothing_outstanding (sl_health_answered l)
        else ok False)"

subsection \<open>One frame\<close>

definition session_goes_on :: "session_locals \<Rightarrow> session_locals + stopped option" where
  "session_goes_on l = Inl l"

definition session_ends :: "stopped option \<Rightarrow> session_locals + stopped option" where
  "session_ends r = Inr r"

definition could_not_handle :: "nat \<Rightarrow> error \<Rightarrow> string" where
  "could_not_handle len err = ''could not handle a '' @ dec_nat len @ ''-byte message from NervesHub ('' @
     display_error err @ ''); reconnecting''"

definition perform ::
    "action \<Rightarrow> session_locals \<Rightarrow> ('s agent_world_scheme, session_locals + stopped option) prog" where
  "perform act l = (case act of
      Action_ApplyUpdate u \<Rightarrow>
        andthen (apply_update u) (\<lambda>rebooting.
        if rebooting then ok (session_ends (Some Stopped_Rebooting))
        else andthen now_ms (\<lambda>now. ok (session_goes_on (l\<lparr>sl_last_heartbeat := now\<rparr>))))
    | Action_Reboot \<Rightarrow>
        andthen send_rebooting (\<lambda>_.
        andthen do_restart (\<lambda>_. ok (session_ends (Some Stopped_Rebooting))))
    | Action_Identify \<Rightarrow>
        andthen (gets ag_identify) (\<lambda>have.
        andthen (only_if have do_identify) (\<lambda>_. ok (session_goes_on l)))
    | Action_Console input \<Rightarrow>
        andthen (answer_console input) (\<lambda>restarting.
        ok (if restarting then session_ends (Some Stopped_Rebooting) else session_goes_on l))
    | Action_ConsoleRestart \<Rightarrow>
        andthen (modify (\<lambda>s. s\<lparr>ag_console :=
            map_option (\<lambda>c. c\<lparr>con_reader := line_reader_new\<rparr>) (ag_console s)\<rparr>)) (\<lambda>_.
        andthen (send_console (crlf @ PROMPT)) (\<lambda>_. ok (session_goes_on l)))
    | Action_Reconnect \<Rightarrow> ok (session_ends None)
    | Action_Extension needs \<Rightarrow>
        andthen (answer_extension needs) (\<lambda>_.
        ok (session_goes_on (if NeedHealth \<in> set needs then l\<lparr>sl_health_answered := True\<rparr> else l)))
    | Action_None \<Rightarrow> ok (session_goes_on l))"

definition turn_frame ::
    "session_locals \<Rightarrow> ('s agent_world_scheme, session_locals + stopped option) prog" where
  "turn_frame l =
     andthen (attempt recv_frame) (\<lambda>received. case received of
         Inl _ \<Rightarrow> ok (session_ends None)
       | Inr None \<Rightarrow> ok (session_goes_on l)
       | Inr (Some f) \<Rightarrow>
           andthen (attempt (handle f)) (\<lambda>handled. case handled of
               Inr act \<Rightarrow> perform act l
             | Inl err \<Rightarrow> andthen (log_text Level_Warn (could_not_handle (frame_len f) err)) (\<lambda>_.
                 ok (session_ends None))))"

definition turn_head :: "session_locals \<Rightarrow> ('s agent_world_scheme, session_locals) prog" where
  "turn_head l =
     andthen (turn_confirm l) (\<lambda>l.
     andthen (turn_extensions l) (\<lambda>l.
     andthen (turn_console l) turn_report_extensions))"

definition session_turn ::
    "session_window option \<Rightarrow> bool \<Rightarrow> session_locals
      \<Rightarrow> ('s agent_world_scheme, session_locals + stopped option) prog" where
  "session_turn window has_control l =
     andthen (turn_head l) (\<lambda>l.
     andthen now_ms (\<lambda>now.
     andthen (turn_heartbeat now l) (\<lambda>l.
     andthen (turn_logs now l) (\<lambda>l.
     andthen (turn_control has_control) (\<lambda>leave.
     if leave then ok (session_ends (Some Stopped_Finished))
     else andthen (turn_window window now l) (\<lambda>over.
       if over then ok (session_ends (Some Stopped_Finished))
       else turn_frame l))))))"

subsection \<open>A session\<close>

definition read_boot_report :: "('s world_scheme, boot_report) prog" where
  "read_boot_report =
     andthen do_pending_verify (\<lambda>p.
     andthen do_auto_revert (\<lambda>reverted.
     ok \<lparr>firmware_validated = (p = PendingVerify_No), firmware_auto_revert_detected = reverted\<rparr>))"

definition reverted_text :: string where
  "reverted_text = ''the bootloader reverted to this image; the last update did not come up''"

definition session_begin :: "('s agent_world_scheme, unit) prog" where
  "session_begin =
     andthen (modify (\<lambda>s. s\<lparr>lk := link_new (ag_config s) (ag_metadata s)\<rparr>)) (\<lambda>_.
     andthen (gets ag_console) (\<lambda>con.
     andthen (only_if (con \<noteq> None) (link_set want_console)) (\<lambda>_.
     andthen read_boot_report (\<lambda>boot.
     andthen (only_if (firmware_auto_revert_detected boot) (log_text Level_Warn reverted_text)) (\<lambda>_.
     send_join boot)))))"

definition session_start :: "('s agent_world_scheme, session_locals) prog" where
  "session_start =
     andthen session_begin (\<lambda>_.
     andthen now_ms (\<lambda>last_log.
     andthen now_ms (\<lambda>last_heartbeat.
     andthen (gets (\<lambda>s. heartbeat_interval_ms (ag_config s))) (\<lambda>heartbeat_ms.
     andthen now_ms (\<lambda>started.
     ok \<lparr>sl_confirmed = False, sl_extensions_joined = False, sl_extensions_reported = False,
         sl_console_joined = False, sl_last_log = last_log, sl_last_heartbeat = last_heartbeat,
         sl_heartbeat_ms = heartbeat_ms, sl_started = started, sl_joined_at = None,
         sl_health_answered = False\<rparr>)))))"

definition session_within ::
    "session_window option \<Rightarrow> bool \<Rightarrow> ('s agent_world_scheme, stopped option) prog" where
  "session_within window has_control =
     andthen session_start (iterate (session_turn window has_control))"

definition session :: "('s agent_world_scheme, stopped option) prog" where
  "session = session_within None False"

subsection \<open>The callers\<close>

definition bool_text :: "bool \<Rightarrow> string" where
  "bool_text b = (if b then ''true'' else ''false'')"

definition session_ended :: "bool \<Rightarrow> error" where
  "session_ended joined =
     Error_Transport (''session ended by the connection (joined: '' @ bool_text joined @ '')'')"

definition one_session ::
    "session_window option \<Rightarrow> bool \<Rightarrow> ('s agent_world_scheme, stopped) prog" where
  "one_session window has_control =
     andthen do_connect (\<lambda>_.
     andthen (modify (\<lambda>s. s\<lparr>ag_joined := False\<rparr>)) (\<lambda>_.
     andthen (session_within window has_control) (\<lambda>r. case r of
         Some stopped \<Rightarrow> ok stopped
       | None \<Rightarrow> andthen (gets ag_joined) (\<lambda>joined. fail (session_ended joined)))))"

definition run_session :: "session_window \<Rightarrow> ('s agent_world_scheme, stopped) prog" where
  "run_session window = one_session (Some window) False"

definition run_session_until :: "('s agent_world_scheme, stopped) prog" where
  "run_session_until = one_session None True"

definition sleep_secs :: "u64 \<Rightarrow> ('s world_scheme, unit) prog" where
  "sleep_secs secs = do_sleep (unat secs * 1000)"

definition reconnecting_text :: "bool \<Rightarrow> u64 \<Rightarrow> string" where
  "reconnecting_text joined wait =
     ''session ended (joined: '' @ bool_text joined @ ''); reconnecting in '' @ dec_u64 wait @ ''s''"

text \<open>After a session that did not end the agent: the backoff, reset by a join.\<close>

definition reconnect :: "usize \<Rightarrow> ('s agent_world_scheme, usize + stopped) prog" where
  "reconnect tries =
     andthen (gets (\<lambda>s. (ag_joined s, ag_config s))) (\<lambda>(joined, config).
     let tries = (if joined then 0 else tries);
         wait = backoff_for config tries;
         tries = (if joined then tries else saturating_add tries 1)
     in andthen (log_text Level_Info (reconnecting_text joined wait)) (\<lambda>_.
        andthen (sleep_secs wait) (\<lambda>_. ok (Inl tries))))"

definition run_turn :: "usize \<Rightarrow> ('s agent_world_scheme, usize + stopped) prog" where
  "run_turn tries =
     andthen (attempt do_connect) (\<lambda>connected. case connected of
         Inl err \<Rightarrow>
           if is_identity err then fail err
           else andthen (gets (\<lambda>s. backoff_for (ag_config s) tries)) (\<lambda>wait.
             andthen (sleep_secs wait) (\<lambda>_. ok (Inl (saturating_add tries 1))))
       | Inr _ \<Rightarrow>
           andthen (modify (\<lambda>s. s\<lparr>ag_joined := False\<rparr>)) (\<lambda>_.
           andthen (attempt session) (\<lambda>outcome. case outcome of
               Inr (Some stopped) \<Rightarrow> ok (Inr stopped)
             | Inr None \<Rightarrow> reconnect tries
             | Inl err \<Rightarrow> if is_transport err then reconnect tries else fail err)))"

definition run :: "('s agent_world_scheme, stopped) prog" where
  "run = iterate run_turn 0"

subsection \<open>What a turn emits\<close>

lemma calm_turn_extensions: "stays (calm chat) (turn_extensions l)"
  unfolding turn_extensions_def by (auto intro!: calm_rules split: option.split)

lemma calm_turn_console: "stays (calm chat) (turn_console l)"
  unfolding turn_console_def by (auto intro!: calm_rules)

lemma calm_turn_report_extensions: "stays (calm chat) (turn_report_extensions l)"
  unfolding turn_report_extensions_def by (auto intro!: calm_rules calm_touch_logs)

lemma calm_turn_heartbeat: "stays (calm chat) (turn_heartbeat now l)"
  unfolding turn_heartbeat_def by (auto intro!: calm_rules)

lemma calm_turn_logs: "stays (calm chat) (turn_logs now l)"
  unfolding turn_logs_def by (intro calm_rules calm_send_logs)

lemma calm_turn_control: "stays (calm chat) (turn_control has_control)"
  unfolding turn_control_def by (auto intro!: calm_rules calm_answer_extension split: control.split)

lemma calm_turn_window: "stays (calm chat) (turn_window window now l)"
  unfolding turn_window_def by (auto intro!: calm_rules calm_nothing_outstanding split: option.split)

lemmas calm_turns = calm_turn_extensions calm_turn_console calm_turn_report_extensions
  calm_turn_heartbeat calm_turn_logs calm_turn_control calm_turn_window

text \<open>Performing an action never confirms the image, and leaves the join alone.\<close>

definition not_confirming :: "event \<Rightarrow> bool" where
  "not_confirming e \<longleftrightarrow> \<not> is_mark_valid e"

lemma chat_not_confirming: "chat e \<Longrightarrow> not_confirming e"
  by (cases e) (auto simp: not_confirming_def)

lemma download_not_confirming: "download_event e \<Longrightarrow> not_confirming e"
  by (cases e) (auto simp: not_confirming_def download_event_def)

lemmas quiet_chat = calm_weaken [OF _ chat_not_confirming]
lemmas quiet_download = calm_weaken [OF calm_download download_not_confirming]

lemma quiet_restart: "stays (calm not_confirming) do_restart"
  by (auto simp: do_restart_def not_confirming_def intro: calm_tell)

lemmas quiet_rules = calm.stays_rules quiet_restart quiet_download
  calm_world [OF refl, THEN quiet_chat] calm_sending(1-6,8) [THEN quiet_chat] calm_set_downloading

lemma quiet_apply_update: "stays (calm not_confirming) (apply_update u)"
  unfolding apply_update_def send_progress_def send_status_def send_rebooting_def
  by (auto intro!: quiet_rules split: option.split sum.split prod.split)

lemma quiet_answer_lines: "stays (calm not_confirming) (answer_lines lines reply)"
proof (induction lines arbitrary: reply)
  case Nil
  show ?case by (auto intro!: quiet_rules)
next
  case (Cons line lines)
  show ?case
    by (auto simp: Let_def intro!: quiet_rules quiet_chat [OF calm_log_command]
        quiet_chat [OF calm_console_run] Cons.IH split: option.split)
qed

lemma quiet_answer_console: "stays (calm not_confirming) (answer_console input)"
proof (rule staysI)
  fix s r t
  assume run: "answer_console input s = Some (r, t)"
  show "calm not_confirming s t"
  proof (cases "ag_console s")
    case None
    then show ?thesis using run by (simp add: answer_console_def calm.rel_refl)
  next
    case (Some c)
    obtain echo lines reader where feed: "feed input (con_reader c) = (echo, lines, reader)"
      by (metis prod_cases3)
    let ?s = "s\<lparr>ag_console := Some (c\<lparr>con_reader := reader\<rparr>)\<rparr>"
    have "answer_lines lines echo ?s = Some (r, t)" using run by (simp add: answer_console_def Some feed)
    with quiet_answer_lines have "calm not_confirming ?s t" by (rule staysD)
    then show ?thesis by (simp add: calm_def emits_def keeps_def)
  qed
qed

lemma quiet_perform: "stays (calm not_confirming) (perform act l)"
  unfolding perform_def send_rebooting_def
  by (cases act) (auto intro!: quiet_rules quiet_apply_update quiet_answer_console
      quiet_chat [OF calm_answer_extension] calm_modify)

subsection \<open>Confirming only what NervesHub has accepted\<close>

text \<open>An answer from NervesHub that accepts the join under reference \<open>r\<close>.\<close>

definition accepts_with :: "codec \<Rightarrow> string option \<Rightarrow> event \<Rightarrow> bool" where
  "accepts_with C reference e \<longleftrightarrow> (\<exists>f m r. e = Ev_Received (Inr (Some f)) \<and>
     decode_frame C f = Inr m \<and> reference = Some r \<and> is_ok_reply_to m r)"

definition link_accepts :: "'s link_world_scheme \<Rightarrow> event \<Rightarrow> bool" where
  "link_accepts s = accepts_with (e_codec (w_env s)) (lk_join_ref (lk s))"

definition confirms :: "'s link_world_scheme \<Rightarrow> 's link_world_scheme \<Rightarrow> bool" where
  "confirms s t \<longleftrightarrow> w_env t = w_env s \<and> lk_join_ref (lk t) = lk_join_ref (lk s) \<and>
     (\<exists>evs. w_hist t = w_hist s @ evs \<and>
        guarded is_mark_valid (link_accepts s) (lk_joined (lk s)) evs \<and>
        (lk_joined (lk t) \<longrightarrow> lk_joined (lk s) \<or> (\<exists>e \<in> set evs. link_accepts s e)))"

interpretation confirms: run_relation confirms
proof
  fix s t u :: "'a link_world_scheme"
  show "confirms s s" by (simp add: confirms_def)
  assume st: "confirms s t" and tu: "confirms t u"
  from st obtain xs where xs: "w_hist t = w_hist s @ xs"
    "guarded is_mark_valid (link_accepts s) (lk_joined (lk s)) xs"
    "lk_joined (lk t) \<longrightarrow> lk_joined (lk s) \<or> (\<exists>e \<in> set xs. link_accepts s e)"
    by (auto simp: confirms_def)
  have same: "link_accepts t = link_accepts s" using st by (simp add: confirms_def link_accepts_def)
  from tu obtain ys where ys: "w_hist u = w_hist t @ ys"
    "guarded is_mark_valid (link_accepts s) (lk_joined (lk t)) ys"
    "lk_joined (lk u) \<longrightarrow> lk_joined (lk t) \<or> (\<exists>e \<in> set ys. link_accepts s e)"
    by (auto simp: confirms_def same)
  have "guarded is_mark_valid (link_accepts s)
      (lk_joined (lk s) \<or> (\<exists>e \<in> set xs. link_accepts s e)) ys"
    by (rule guarded_mono [OF ys(2)]) (use xs(3) in blast)
  then show "confirms s u"
    using st tu xs ys by (auto simp: confirms_def intro!: exI [of _ "xs @ ys"])
qed

lemma confirms_quiet: "calm not_confirming s t \<Longrightarrow> confirms s t"
  by (auto simp: calm_def emits_def keeps_def link_core_def confirms_def not_confirming_def list_all_iff
      intro!: guarded_quiet)

lemma stays_confirms: "stays (calm not_confirming) m \<Longrightarrow> stays confirms m"
  by (auto simp: stays_def intro: confirms_quiet)

text \<open>The one place that confirms, and it is guarded by the join.\<close>

definition confirming :: "event \<Rightarrow> bool" where
  "confirming e \<longleftrightarrow> chat e \<or> is_mark_valid e"

lemma calm_confirm: "stays (calm confirming) confirm_running_image"
  unfolding confirm_running_image_def send_firmware_validated_def
  by (intro calm.stays_rules calm_weaken [OF calm_send_event] calm_weaken [OF calm_world(11) [OF refl]])
    (auto simp: do_mark_valid_def confirming_def intro: calm_fallible_call)

lemma confirms_turn_confirm: "stays confirms (turn_confirm l)"
proof (rule staysI)
  fix s r t
  assume run: "turn_confirm l s = Some (r, t)"
  show "confirms s t"
  proof (cases "lk_joined (lk s) \<and> \<not> sl_confirmed l")
    case False
    then have "t = s" using run by (auto simp: turn_confirm_def link_get_def prog_simps)
    then show ?thesis by (simp add: confirms.rel_refl)
  next
    case True
    have "stays (calm confirming) (andthen (modify (\<lambda>s. s\<lparr>ag_joined := True\<rparr>)) (\<lambda>_.
       andthen now_ms (\<lambda>now. andthen confirm_running_image (\<lambda>_.
       ok (l\<lparr>sl_joined_at := Some now, sl_confirmed := True\<rparr>)))))"
      by (intro calm.stays_rules calm_modify calm_confirm calm_weaken [OF calm_world(1) [OF refl]])
        (simp_all add: confirming_def)
    moreover have "andthen (modify (\<lambda>s. s\<lparr>ag_joined := True\<rparr>)) (\<lambda>_.
       andthen now_ms (\<lambda>now. andthen confirm_running_image (\<lambda>_.
       ok (l\<lparr>sl_joined_at := Some now, sl_confirmed := True\<rparr>)))) s = Some (r, t)"
      using run True by (simp add: turn_confirm_def link_get_def prog_simps)
    ultimately have "calm confirming s t" by (rule staysD)
    then show ?thesis
      using True by (auto simp: calm_def emits_def keeps_def link_core_def confirms_def guarded_seen)
  qed
qed

lemma confirms_turn_frame: "stays confirms (turn_frame l)"
proof (rule staysI)
  fix s r t
  assume run: "turn_frame l s = Some (r, t)"
  let ?ans = "e_recv (w_env s) (w_hist s)"
  let ?s1 = "s\<lparr>w_hist := w_hist s @ [Ev_Received ?ans]\<rparr>"
  have recv: "recv_frame s = Some (?ans, ?s1)" by (simp add: world_runs)
  have s1: "confirms s ?s1"
    by (rule confirms_quiet) (simp add: calm_def emits_def keeps_def not_confirming_def)
  show "confirms s t"
  proof (cases "\<exists>f. ?ans = Inr (Some f)")
    case False
    then have "t = ?s1"
      using run by (auto simp: turn_frame_def andthen_attempt recv prog_simps split: sum.splits option.splits)
    then show ?thesis using s1 by simp
  next
    case True
    then obtain f where f: "?ans = Inr (Some f)" by blast
    have rest: "andthen (attempt (handle f)) (\<lambda>handled. case handled of
               Inr act \<Rightarrow> perform act l
             | Inl err \<Rightarrow> andthen (log_text Level_Warn (could_not_handle (frame_len f) err)) (\<lambda>_.
                 ok (session_ends None))) ?s1 = Some (r, t)"
      using run f by (simp add: turn_frame_def andthen_attempt recv)
    then obtain h s2 where h: "handle f ?s1 = Some (h, s2)"
      by (cases "handle f ?s1") (auto simp: andthen_attempt)
    have "confirms s s2"
    proof -
      have em: "emits link_event ?s1 s2" using emits_handle h by (rule staysD)
      then obtain evs where evs: "w_hist s2 = w_hist s @ Ev_Received ?ans # evs" "list_all link_event evs"
        and env: "w_env s2 = w_env s" by (auto simp: emits_def)
      have jn: "joining (\<exists>m. decode_frame (e_codec (w_env s)) f = Inr m \<and> accepts_join m (lk s)) s s2"
        using joining_handle [OF h] by (simp add: joining_def)
      have quiet: "\<not> is_mark_valid e" if "e \<in> set evs" for e
        using evs(2) that by (cases e) (auto simp: list_all_iff)
      have acc: "link_accepts s (Ev_Received ?ans)"
        if "decode_frame (e_codec (w_env s)) f = Inr m" "accepts_join m (lk s)" for m
        using that f by (auto simp: link_accepts_def accepts_with_def accepts_join_def)
      show ?thesis
        unfolding confirms_def
      proof (intro conjI exI)
        show "w_env s2 = w_env s" by (rule env)
        show "lk_join_ref (lk s2) = lk_join_ref (lk s)" using jn by (simp add: joining_def)
        show "w_hist s2 = w_hist s @ (Ev_Received ?ans # evs)" by (rule evs)
        show "guarded is_mark_valid (link_accepts s) (lk_joined (lk s)) (Ev_Received ?ans # evs)"
          using quiet by (auto intro!: guarded_quiet)
        show "lk_joined (lk s2) \<longrightarrow> lk_joined (lk s) \<or>
            (\<exists>e \<in> set (Ev_Received ?ans # evs). link_accepts s e)"
          using jn acc by (auto simp: joining_def)
      qed
    qed
    moreover have "confirms s2 t"
    proof (cases h)
      case (Inl e)
      have "stays confirms (andthen (log_text Level_Warn (could_not_handle (frame_len f) e)) (\<lambda>_.
          ok (session_ends None)))"
        by (intro stays_confirms quiet_rules)
      then show ?thesis using rest h Inl by (auto simp: andthen_attempt dest: staysD)
    next
      case (Inr act)
      then have "perform act l s2 = Some (r, t)" using rest h by (simp add: andthen_attempt)
      with stays_confirms [OF quiet_perform] show ?thesis by (rule staysD)
    qed
    ultimately show ?thesis by (rule confirms.rel_trans)
  qed
qed

lemma confirms_session_turn: "stays confirms (session_turn window has_control l)"
  unfolding session_turn_def turn_head_def
  by (auto intro!: confirms.stays_rules confirms_turn_confirm confirms_turn_frame
      calm_turns [THEN quiet_chat, THEN stays_confirms]
      calm_world(1) [OF refl, THEN quiet_chat, THEN stays_confirms])

text \<open>A session joins as its first reference, and starts its loop not joined.\<close>

lemma emits_session_begin: "stays (emits chat) session_begin"
proof -
  have mods: "stays (emits chat) (modify (\<lambda>s. s\<lparr>lk := link_new (ag_config s) (ag_metadata s)\<rparr>))"
    by (auto simp: stays_def modify_def emits_def)
  have sj: "stays (emits chat) (send_join boot)" for boot
    unfolding send_join_def by (intro emits_rules sends_link_send)
  show ?thesis
    unfolding session_begin_def read_boot_report_def
    by (intro emits.stays_rules mods sj emits_link_set
        calm_world(11,12,10) [OF refl, THEN calm_emits])
qed

lemma emits_session_start: "stays (emits chat) session_start"
  unfolding session_start_def
  by (intro emits.stays_rules emits_session_begin calm_world(1) [OF refl, THEN calm_emits])

definition first_ref :: string where
  "first_ref = ''1''"

lemma next_ref_0: "next_ref 0 = (first_ref, 1)"
  by (simp add: next_ref_def dec_u64_def dec_nat.simps first_ref_def) code_simp

lemma send_join_joins:
  assumes "send_join boot s = Some (r, t)" and "lk_refs (lk s) = 0"
  shows "\<not> lk_joined (lk t) \<and> lk_join_ref (lk t) = Some first_ref"
proof -
  let ?k = "(lk s)\<lparr>lk_refs := 1, lk_join_ref := Some first_ref, lk_joined := False\<rparr>"
  let ?s = "s\<lparr>lk := ?k\<rparr>"
  have fr: "fresh_ref s = Some (Inr first_ref, s\<lparr>lk := (lk s)\<lparr>lk_refs := 1\<rparr>\<rparr>)"
    using assms(2) by (simp add: fresh_ref_def next_ref_0)
  have "\<exists>m. link_send m (Some first_ref) ?s = Some (r, t)"
    using assms(1) by (auto simp: send_join_def andthen_run [of fresh_ref] fr link_set_def link_get_def prog_simps)
  then obtain m where "link_send m (Some first_ref) ?s = Some (r, t)" by blast
  with keeps_link_send have "keeps link_core ?s t" by (rule staysD)
  then show ?thesis by (simp add: keeps_def link_core_def)
qed

lemma session_begin_run:
  "\<exists>boot v. session_begin s = send_join boot v \<and> lk_refs (lk v) = 0"
  by (cases "ag_console s"; cases "e_auto_revert (w_env s)
        (w_hist s @ [Ev_PendingVerify (e_pending_verify (w_env s) (w_hist s))])";
      simp add: session_begin_def read_boot_report_def andthen_run world_runs link_set_def
        modify_def gets_def only_if_def ok_def link_new_def want_console_def;
      (intro exI conjI, rule refl, simp))

lemma session_begin_joins:
  assumes "session_begin s = Some (r, t)"
  shows "\<not> lk_joined (lk t) \<and> lk_join_ref (lk t) = Some first_ref"
  using session_begin_run [of s] send_join_joins assms by metis

lemma session_start_joins:
  assumes "session_start s = Some (Inr l, t)"
  shows "\<not> lk_joined (lk t) \<and> lk_join_ref (lk t) = Some first_ref"
proof -
  obtain u where b: "session_begin s = Some (Inr (), u)"
    and rest: "andthen now_ms (\<lambda>last_log. andthen now_ms (\<lambda>last_heartbeat.
     andthen (gets (\<lambda>s. heartbeat_interval_ms (ag_config s))) (\<lambda>heartbeat_ms.
     andthen now_ms (\<lambda>started.
     ok \<lparr>sl_confirmed = False, sl_extensions_joined = False, sl_extensions_reported = False,
         sl_console_joined = False, sl_last_log = last_log, sl_last_heartbeat = last_heartbeat,
         sl_heartbeat_ms = heartbeat_ms, sl_started = started, sl_joined_at = None,
         sl_health_answered = False\<rparr>)))) u = Some (Inr l, t)"
    using assms by (auto simp: session_start_def andthen_Inr [of session_begin])
  have "lk t = lk u"
    using rest by (auto simp: andthen_run world_runs gets_def ok_def)
  then show ?thesis using session_begin_joins [OF b] by simp
qed

lemma session_confirms:
  assumes "session_within window has_control s = Some (r, t)"
  shows "\<exists>evs. w_hist t = w_hist s @ evs \<and>
    guarded is_mark_valid (accepts_with (e_codec (w_env s)) (Some first_ref)) False evs"
proof -
  from assms consider (unstarted) e where "session_start s = Some (Inl e, t)"
    | (started) l u where "session_start s = Some (Inr l, u)"
        "iterate (session_turn window has_control) l u = Some (r, t)"
    by (auto simp: session_within_def andthen_Some)
  then show ?thesis
  proof cases
    case unstarted
    with emits_session_start have "emits chat s t" by (rule staysD)
    then show ?thesis
      using chat_not_confirming
      by (auto simp: emits_def list_all_iff not_confirming_def intro!: guarded_quiet)
  next
    case started
    from emits_session_start started(1) have "emits chat s u" by (rule staysD)
    then obtain xs where xs: "w_hist u = w_hist s @ xs" "list_all chat xs" and env: "w_env u = w_env s"
      by (auto simp: emits_def)
    have u: "\<not> lk_joined (lk u)" "lk_join_ref (lk u) = Some first_ref"
      using session_start_joins [OF started(1)] by simp_all
    from confirms.stays_iterate [OF confirms_session_turn] started(2) have "confirms u t" by (rule staysD)
    then obtain ys where ys: "w_hist t = w_hist u @ ys"
      "guarded is_mark_valid (accepts_with (e_codec (w_env s)) (Some first_ref)) False ys"
      using u env by (auto simp: confirms_def link_accepts_def)
    have "guarded is_mark_valid (accepts_with (e_codec (w_env s)) (Some first_ref)) False xs"
      using xs(2) chat_not_confirming by (auto simp: list_all_iff not_confirming_def intro!: guarded_quiet)
    then show ?thesis
      using xs(1) ys by (auto intro!: exI [of _ "xs @ ys"] guarded_weaken)
  qed
qed

subsection \<open>Restarting last\<close>

lemma chat_not_restarting: "chat e \<Longrightarrow> not_restarting e"
  by (cases e) (auto simp: not_restarting_def)

lemma download_not_restarting: "download_event e \<Longrightarrow> not_restarting e"
  by (cases e) (auto simp: not_restarting_def download_event_def)

lemma link_not_restarting: "link_event e \<Longrightarrow> not_restarting e"
  by (cases e) (auto simp: not_restarting_def)

lemma confirming_not_restarting: "confirming e \<Longrightarrow> not_restarting e"
  by (cases e) (auto simp: not_restarting_def confirming_def)

lemmas still_chat = calm_weaken [OF _ chat_not_restarting, THEN calm_emits]
lemmas still_download = calm_weaken [OF calm_download download_not_restarting, THEN calm_emits]

lemmas still_rules = emits.stays_rules still_download calm_world [OF refl, THEN still_chat]
  calm_sending(1-6,8) [THEN still_chat] calm_set_downloading [THEN calm_emits] emits_link_get

lemmas restarts_rules = restarts_ok restarts_fail restarts_restart restarts_andthen

lemma restarts_apply_update: "restarts (\<lambda>b. b) (apply_update u)"
  unfolding apply_update_def send_progress_def send_status_def send_rebooting_def
  by (auto intro!: restarts_rules still_rules split: option.split sum.split prod.split)

lemma restarts_answer_lines: "restarts (\<lambda>b. b) (answer_lines lines reply)"
proof (induction lines arbitrary: reply)
  case Nil
  show ?case by (auto intro!: restarts_rules still_rules)
next
  case (Cons line lines)
  show ?case
    by (auto simp: Let_def intro!: restarts_rules still_rules Cons.IH still_chat [OF calm_log_command]
        still_chat [OF calm_console_run] split: option.split)
qed

lemma restarts_answer_console: "restarts (\<lambda>b. b) (answer_console input)"
  unfolding restarts_def
proof (intro allI impI)
  fix s :: "'a agent_world_scheme" and r t
  assume run: "answer_console input s = Some (r, t)"
  show "restarted (case r of Inr a \<Rightarrow> a | Inl _ \<Rightarrow> False) s t"
  proof (cases "ag_console s")
    case None
    then show ?thesis using run by (auto simp: answer_console_def)
  next
    case (Some c)
    obtain echo lines reader where feed: "feed input (con_reader c) = (echo, lines, reader)"
      by (metis prod_cases3)
    let ?s = "s\<lparr>ag_console := Some (c\<lparr>con_reader := reader\<rparr>)\<rparr>"
    have "answer_lines lines echo ?s = Some (r, t)" using run by (simp add: answer_console_def Some feed)
    with restarts_answer_lines have "restarted (case r of Inr a \<Rightarrow> a | Inl _ \<Rightarrow> False) ?s t"
      unfolding restarts_def by blast
    then show ?thesis by (simp add: restarted_def)
  qed
qed

definition rebooting :: "stopped option \<Rightarrow> bool" where
  "rebooting r = (r = Some Stopped_Rebooting)"

definition out_rebooting :: "'l + stopped option \<Rightarrow> bool" where
  "out_rebooting out = (case out of Inl _ \<Rightarrow> False | Inr r \<Rightarrow> rebooting r)"

lemma out_rebooting_simps [simp]:
  "\<not> out_rebooting (session_goes_on l)" "\<not> out_rebooting (session_ends None)"
  "out_rebooting (session_ends (Some Stopped_Rebooting))"
  "\<not> out_rebooting (session_ends (Some Stopped_Finished))"
  by (simp_all add: out_rebooting_def session_goes_on_def session_ends_def rebooting_def)

lemma restarts_perform: "restarts out_rebooting (perform act l)"
proof (cases act)
  case (Action_ApplyUpdate u)
  show ?thesis
    unfolding perform_def Action_ApplyUpdate action.case
    by (rule restarts_then [OF restarts_apply_update]) (auto intro!: restarts_rules still_rules)
next
  case (Action_Console input)
  show ?thesis
    unfolding perform_def Action_Console action.case
    by (rule restarts_then [OF restarts_answer_console]) (auto intro!: restarts_rules)
next
  case Action_ConsoleRestart
  have "stays (emits not_restarting) (modify (\<lambda>s. s\<lparr>ag_console :=
      map_option (\<lambda>c. c\<lparr>con_reader := line_reader_new\<rparr>) (ag_console s)\<rparr>))"
    by (rule calm_emits, rule calm_modify) simp
  then show ?thesis
    unfolding perform_def Action_ConsoleRestart action.case
    by (auto intro!: restarts_rules still_rules)
qed (auto simp: perform_def send_rebooting_def intro!: restarts_rules still_rules
    still_chat [OF calm_answer_extension])

lemma still_handle: "stays (emits not_restarting) (handle f)"
  by (rule stays_emits_weaken [OF emits_handle link_not_restarting])

lemma still_recv: "stays (emits not_restarting) recv_frame"
  by (auto simp: recv_frame_def not_restarting_def intro: stays_fallible_call)

lemma restarts_turn_frame: "restarts out_rebooting (turn_frame l)"
  unfolding turn_frame_def
  by (auto intro!: restarts_rules still_rules still_recv still_handle restarts_perform
      split: sum.split option.split)

lemma still_turn_confirm: "stays (emits not_restarting) (turn_confirm l)"
proof -
  have "stays (emits not_restarting) (modify (\<lambda>s. s\<lparr>ag_joined := True\<rparr>))"
    by (rule calm_emits, rule calm_modify) simp
  then show ?thesis
    unfolding turn_confirm_def
    by (auto intro!: still_rules calm_weaken [OF calm_confirm confirming_not_restarting, THEN calm_emits])
qed

lemma restarts_session_turn: "restarts out_rebooting (session_turn window has_control l)"
  unfolding session_turn_def turn_head_def
  by (auto intro!: restarts_rules still_rules still_turn_confirm restarts_turn_frame
      calm_turns [THEN still_chat])

lemma restarts_session: "restarts rebooting (session_within window has_control)"
  unfolding session_within_def
  by (intro restarts_andthen restarts_iterate restarts_session_turn [unfolded out_rebooting_def]
      stays_emits_weaken [OF emits_session_start chat_not_restarting])

subsection \<open>Heartbeats\<close>

text \<open>A heartbeat still unanswered when the next is due ends the session, and sends nothing.\<close>

lemma heartbeat_overdue:
  assumes "turn_head l s = Some (Inr l', u)" and "heartbeat_unanswered (lk u)"
    and "sl_heartbeat_ms l' \<le> saturating_sub (e_now (w_env u) (w_hist u)) (sl_last_heartbeat l')"
  shows "session_turn window has_control l s =
    Some (Inl (no_reply_error (sl_heartbeat_ms l')),
      u\<lparr>w_hist := w_hist u @ [Ev_Now (e_now (w_env u) (w_hist u))]\<rparr>)"
  using assms
  by (simp add: session_turn_def andthen_run world_runs turn_heartbeat_def link_get_def gets_def fail_def)

text \<open>One that was not due leaves the state alone; one that was due and sent starts the interval.\<close>

lemma turn_heartbeat_cases:
  assumes "turn_heartbeat now l s = Some (Inr l', t)"
  shows "(l' = l \<and> t = s \<and> \<not> sl_heartbeat_ms l \<le> saturating_sub now (sl_last_heartbeat l)) \<or>
    (sl_last_heartbeat l' = now \<and> sl_heartbeat_ms l \<le> saturating_sub now (sl_last_heartbeat l) \<and>
     \<not> heartbeat_unanswered (lk s) \<and> (\<exists>u. send_heartbeat s = Some (Inr (), u) \<and> t = u))"
  using assms
  by (auto simp: turn_heartbeat_def andthen_Inr link_get_def gets_def fail_def ok_def split: if_splits)

subsection \<open>Reconnecting\<close>

lemma reconnect_run:
  "reconnect tries s = Some (Inr (Inl (if ag_joined s then 0 else saturating_add tries 1)),
     let wait = backoff_for (ag_config s) (if ag_joined s then 0 else tries)
     in s\<lparr>w_hist := w_hist s @ [Ev_Logged Level_Info (reconnecting_text (ag_joined s) wait),
          Ev_Slept (unat wait * 1000)]\<rparr>)"
  by (simp add: reconnect_def prog_simps Let_def andthen_run world_runs sleep_secs_def ok_def)

text \<open>
  The wait before each turn of \<open>run\<close> but the first: the schedule's next, or its first after
  a session that joined.
\<close>

definition waited_for :: "'s agent_world_scheme \<Rightarrow> usize \<Rightarrow> bool" where
  "waited_for t k \<longleftrightarrow>
     (\<exists>pre. w_hist t = pre @ [Ev_Slept (unat (backoff_for (ag_config t) k) * 1000)])"

lemma run_turn_again:
  assumes "run_turn tries s = Some (Inr (Inl tries'), t)"
  shows "(\<exists>e. e_connect (w_env s) (w_hist s) = Inl e \<and> \<not> is_identity e \<and>
        waited_for t tries \<and> tries' = saturating_add tries 1) \<or>
    (e_connect (w_env s) (w_hist s) = Inr () \<and>
       (if ag_joined t then waited_for t 0 \<and> tries' = 0
        else waited_for t tries \<and> tries' = saturating_add tries 1))"
proof (cases "e_connect (w_env s) (w_hist s)")
  case (Inl e)
  then show ?thesis
    using assms
    by (auto simp: run_turn_def attempt_def world_runs gets_def fail_def andthen_run sleep_secs_def ok_def
        waited_for_def split: if_splits)
next
  case (Inr x)
  let ?s = "s\<lparr>w_hist := w_hist s @ [Ev_Connect (Inr ())], ag_joined := False\<rparr>"
  have "andthen (attempt session) (\<lambda>outcome. case outcome of
               Inr (Some stopped) \<Rightarrow> ok (Inr stopped)
             | Inr None \<Rightarrow> reconnect tries
             | Inl err \<Rightarrow> if is_transport err then reconnect tries else fail err) ?s = Some (Inr (Inl tries'), t)"
    using assms Inr by (simp add: run_turn_def andthen_attempt [of do_connect] world_runs prog_simps)
  then obtain out u where "session ?s = Some (out, u)" and rec: "reconnect tries u = Some (Inr (Inl tries'), t)"
    by (cases "session ?s") (auto simp: andthen_attempt ok_def fail_def split: sum.splits option.splits if_splits)
  then have "ag_joined t = ag_joined u" "ag_config t = ag_config u"
    by (auto simp: reconnect_run Let_def)
  then show ?thesis
    using rec Inr by (auto simp: reconnect_run Let_def waited_for_def)
qed

text \<open>The outer loop: a session that restarts ends it.\<close>

definition tried :: "('a \<Rightarrow> bool) \<Rightarrow> error + 'a \<Rightarrow> bool" where
  "tried sig r = (case r of Inl _ \<Rightarrow> False | Inr a \<Rightarrow> sig a)"

lemma restarts_attempt: "restarts sig m \<Longrightarrow> restarts (tried sig) (attempt m)"
  by (auto simp: restarts_def attempt_Some tried_def)

lemma still_modify_joined: "stays (emits not_restarting) (modify (\<lambda>s. s\<lparr>ag_joined := b\<rparr>))"
  by (rule calm_emits, rule calm_modify) simp

lemma still_reconnect: "stays (emits not_restarting) (reconnect tries)"
  unfolding reconnect_def sleep_secs_def
  by (auto simp: Let_def intro!: still_rules still_chat [OF calm_world(2) [OF refl]] split: prod.split)

definition run_rebooting :: "usize + stopped \<Rightarrow> bool" where
  "run_rebooting out = (case out of Inl _ \<Rightarrow> False | Inr r \<Rightarrow> r = Stopped_Rebooting)"

lemma restarts_reconnect: "restarts run_rebooting (reconnect tries)"
  unfolding restarts_def
proof (intro allI impI)
  fix s r and t :: "'a agent_world_scheme"
  assume run: "reconnect tries s = Some (r, t)"
  then have "(case r of Inr a \<Rightarrow> run_rebooting a | Inl _ \<Rightarrow> False) = False"
    by (auto simp: reconnect_run run_rebooting_def)
  then show "restarted (case r of Inr a \<Rightarrow> run_rebooting a | Inl _ \<Rightarrow> False) s t"
    using emits_restarted [OF staysD [OF still_reconnect run]] by simp
qed

lemma restarts_run_turn: "restarts run_rebooting (run_turn tries)"
proof -
  have conn: "stays (emits not_restarting) do_connect"
    by (auto simp: do_connect_def not_restarting_def intro: stays_fallible_call)
  have sl: "stays (emits not_restarting) (sleep_secs n)" for n
    unfolding sleep_secs_def do_sleep_def by (rule stays_tell) (simp add: not_restarting_def)
  have sess: "restarts run_rebooting (andthen (attempt session) (\<lambda>outcome. case outcome of
               Inr (Some stopped) \<Rightarrow> ok (Inr stopped)
             | Inr None \<Rightarrow> reconnect tries
             | Inl err \<Rightarrow> if is_transport err then reconnect tries else fail err))"
    unfolding session_def
  proof (rule restarts_then [OF restarts_attempt [OF restarts_session]])
    fix outcome
    assume "\<not> tried rebooting outcome"
    then show "restarts run_rebooting (case outcome of
               Inr (Some stopped) \<Rightarrow> ok (Inr stopped)
             | Inr None \<Rightarrow> reconnect tries
             | Inl err \<Rightarrow> if is_transport err then reconnect tries else fail err)"
      by (auto simp: tried_def rebooting_def run_rebooting_def [of "Inr _"]
          intro!: restarts_reconnect restarts_ok restarts_fail split: sum.split option.split stopped.split)
  next
    fix outcome
    assume "tried rebooting outcome"
    then show "\<exists>b. (case outcome of
               Inr (Some stopped) \<Rightarrow> ok (Inr stopped)
             | Inr None \<Rightarrow> reconnect tries
             | Inl err \<Rightarrow> if is_transport err then reconnect tries else fail err) = ok b \<and> run_rebooting b"
      by (auto simp: tried_def rebooting_def run_rebooting_def split: sum.splits)
  qed
  show ?thesis
    unfolding run_turn_def
    by (auto intro!: restarts_andthen still_rules conn sl sess still_modify_joined restarts_ok restarts_fail
        simp: run_rebooting_def [of "Inl _"] split: sum.split)
qed

lemma restarts_run: "restarts (\<lambda>r. r = Stopped_Rebooting) run"
  unfolding run_def
  by (rule restarts_iterate) (rule restarts_run_turn [unfolded run_rebooting_def])

subsection \<open>Updates\<close>

lemma emits_io: "emits chat s t \<Longrightarrow> \<exists>evs. w_hist t = w_hist s @ evs \<and> io_calls evs = []"
  by (auto simp: emits_def io_calls_chat)

lemma download_io:
  assumes "download u s = Some (r, t)" and "actionable u = Some (url, uuid)"
  shows "\<exists>evs. w_hist t = w_hist s @ evs \<and>
    ((io_calls evs = [] \<and> (\<exists>e. r = Inl e)) \<or>
     (\<exists>d. installed (e_digest (w_env s)) u url (io_calls evs) d \<and> (r = Inr () \<longrightarrow> (\<exists>rep. d = Inr rep))))"
proof -
  have http: "do_http s = Some (e_http (w_env s) (w_hist s),
      s\<lparr>w_hist := w_hist s @ [Ev_Http (e_http (w_env s) (w_hist s))]\<rparr>)" by (simp add: world_runs)
  show ?thesis
  proof (cases "e_http (w_env s) (w_hist s)")
    case (Inl e)
    then have "r = Inl e \<and> w_hist t = w_hist s @ [Ev_Http (Inl e)]"
      using assms(1) by (auto simp: download_def andthen_run http)
    then show ?thesis by (intro exI [of _ "[Ev_Http (Inl e)]"]) simp
  next
    case (Inr h)
    let ?h1 = "w_hist s @ [Ev_Http (Inr ())]"
    show ?thesis
    proof (cases "e_begin (w_env s) ?h1")
      case (Inl e)
      then have "r = Inl e \<and> w_hist t = w_hist s @ [Ev_Http (Inr ()), Ev_Begin (Inl e)]"
        using assms(1) Inr by (auto simp: download_def andthen_run world_runs)
      then show ?thesis by (intro exI [of _ "[Ev_Http (Inr ()), Ev_Begin (Inl e)]"]) (simp add: io_calls_def)
    next
      case (Inr b)
      let ?h2 = "?h1 @ [Ev_Begin (Inr ())]"
      let ?now = "e_now (w_env s) ?h2"
      let ?s = "s\<lparr>w_hist := ?h2 @ [Ev_Now ?now],
        ag_pump := \<lparr>pump_heartbeat_ms = heartbeat_interval_ms (ag_config s),
          pump_last_heartbeat = ?now, pump_last_log = ?now\<rparr>\<rparr>"
      have "andthen (install (e_digest (w_env s)) u agent_http agent_sink
          (cfg_progress_step_percent (ag_config s)) agent_pump) (\<lambda>_. ok ()) ?s = Some (r, t)"
        using assms(1) \<open>e_http (w_env s) (w_hist s) = Inr h\<close> Inr
        by (simp add: download_def world_calls world_steps andthen_gets andthen_modify pump_set_def)
      then obtain d where inst: "install (e_digest (w_env s)) u agent_http agent_sink
          (cfg_progress_step_percent (ag_config s)) agent_pump ?s = Some (d, t)"
        and r: "r = (case d of Inl e \<Rightarrow> Inl e | Inr _ \<Rightarrow> Inr ())"
        by (auto simp: andthen_Some ok_def)
      from agent_install.install_calls [OF inst assms(2)] obtain calls where
        calls: "agent_io t = agent_io ?s @ calls" "installed (e_digest (w_env s)) u url calls d" by blast
      from calm_emits [OF calm_install] inst have "emits download_event ?s t" by (rule staysD)
      then obtain evs where evs: "w_hist t = w_hist ?s @ evs" by (auto simp: emits_def)
      then have "io_calls evs = calls" using calls(1) by (simp add: agent_io_def)
      then show ?thesis
        using evs calls(2) r
        by (intro exI [of _ "[Ev_Http (Inr ()), Ev_Begin (Inr ()), Ev_Now ?now] @ evs"])
           (auto simp: io_calls_def split: sum.splits)
    qed
  qed
qed

text \<open>
  An update that reboots was installed: what it read is what it wrote, it passed every check, and
  it was committed. One that does not either was not committed, or its commit failed, or the
  connection went while it was being reported.
\<close>

definition apply_report :: "error + unit \<Rightarrow> ('s agent_world_scheme, bool) prog" where
  "apply_report outcome = (case outcome of
      Inr _ \<Rightarrow>
           andthen (send_progress Updating 100) (\<lambda>_.
           andthen (send_status ''completed'' (jobj [])) (\<lambda>_.
           andthen send_rebooting (\<lambda>_.
           andthen (log_text Level_Info ''update applied; rebooting'') (\<lambda>_.
           andthen (do_sleep 250) (\<lambda>_.
           andthen do_restart (\<lambda>_. ok True))))))
    | Inl err \<Rightarrow>
           andthen (log_text Level_Error (''update failed: '' @ display_error err)) (\<lambda>_.
           andthen (send_status ''failed'' (jobj [(''reason'', jstr (status_reason err))])) (\<lambda>_.
           ok False)))"

lemma apply_update_split:
  "actionable u = Some (url, uuid) \<Longrightarrow> apply_update u =
     andthen (set_downloading (Some uuid)) (\<lambda>_. andthen (attempt (download u)) (\<lambda>outcome.
       andthen (set_downloading None) (\<lambda>_. apply_report outcome)))"
  by (simp add: apply_update_def apply_report_def)

definition reporting :: "event \<Rightarrow> bool" where
  "reporting e \<longleftrightarrow> chat e \<or> is_restart e"

lemma reporting_io: "list_all reporting evs \<Longrightarrow> io_calls evs = []"
proof (induction evs)
  case (Cons e evs)
  then show ?case by (cases e) (auto simp: io_calls_def reporting_def)
qed simp

lemma emits_apply_report: "stays (emits reporting) (apply_report outcome)"
  unfolding apply_report_def send_progress_def send_status_def send_rebooting_def
  by (cases outcome)
    (auto intro!: emits.stays_rules calm_send_event [THEN calm_emits, THEN stays_emits_weaken]
      calm_world(10,2) [OF refl, THEN calm_emits, THEN stays_emits_weaken] stays_tell
      simp: reporting_def do_restart_def)

lemma apply_report_value: "apply_report outcome s = Some (Inr b, t) \<Longrightarrow> b = (\<exists>x. outcome = Inr x)"
  by (cases outcome) (auto simp: apply_report_def andthen_Inr ok_def)

lemma apply_update_io:
  assumes "apply_update u s = Some (r, t)" and "actionable u = Some (url, uuid)"
  shows "\<exists>evs. w_hist t = w_hist s @ evs \<and>
    ((io_calls evs = [] \<and> r \<noteq> Inr True) \<or>
     (\<exists>d. installed (e_digest (w_env s)) u url (io_calls evs) d \<and> (r = Inr True \<longrightarrow> (\<exists>rep. d = Inr rep))))"
proof -
  let ?s = "s\<lparr>lk := (lk s)\<lparr>lk_downloading := Some uuid\<rparr>\<rparr>"
  from assms obtain out u1 where dl: "download u ?s = Some (out, u1)"
    and rep: "apply_report out (u1\<lparr>lk := (lk u1)\<lparr>lk_downloading := None\<rparr>\<rparr>) = Some (r, t)"
    by (cases "download u ?s")
       (auto simp: apply_update_split set_downloading_def link_set_def prog_simps andthen_attempt)
  have "\<exists>xs. w_hist u1 = w_hist s @ xs \<and> ((io_calls xs = [] \<and> (\<exists>e. out = Inl e)) \<or>
     (\<exists>d. installed (e_digest (w_env s)) u url (io_calls xs) d \<and> (out = Inr () \<longrightarrow> (\<exists>rep. d = Inr rep))))"
    using download_io [OF dl assms(2)] by simp
  then obtain xs where xs: "w_hist u1 = w_hist s @ xs"
    and io: "(io_calls xs = [] \<and> (\<exists>e. out = Inl e)) \<or>
     (\<exists>d. installed (e_digest (w_env s)) u url (io_calls xs) d \<and> (out = Inr () \<longrightarrow> (\<exists>rep. d = Inr rep)))"
    by blast
  from emits_apply_report rep have "emits reporting (u1\<lparr>lk := (lk u1)\<lparr>lk_downloading := None\<rparr>\<rparr>) t"
    by (rule staysD)
  then obtain ys where ys: "w_hist t = w_hist u1 @ ys" "io_calls ys = []"
    by (auto simp: emits_def reporting_io)
  have "r = Inr True \<Longrightarrow> out = Inr ()"
    using apply_report_value [of out "u1\<lparr>lk := (lk u1)\<lparr>lk_downloading := None\<rparr>\<rparr>" True t] rep by auto
  then show ?thesis
    using xs ys io by (intro exI [of _ "xs @ ys"]) auto
qed

subsection \<open>Properties\<close>

text \<open>A state the session reaches at the head of a turn, of which there may be no end.\<close>

inductive in_session ::
    "session_window option \<Rightarrow> bool \<Rightarrow> 's agent_world_scheme \<Rightarrow> 's agent_world_scheme \<Rightarrow> bool"
  for window has_control s where
  turn_begins: "session_start s = Some (Inr l, u) \<Longrightarrow> loop_head (session_turn window has_control) l u k t \<Longrightarrow>
    in_session window has_control s t"

lemma session_start_confirms:
  assumes "session_start s = Some (Inr l, u)"
  shows "w_env u = w_env s \<and> (\<exists>xs. w_hist u = w_hist s @ xs \<and>
      guarded is_mark_valid (accepts_with (e_codec (w_env s)) (Some first_ref)) False xs) \<and>
    \<not> lk_joined (lk u) \<and> lk_join_ref (lk u) = Some first_ref"
proof -
  from emits_session_start assms have "emits chat s u" by (rule staysD)
  then show ?thesis
    using session_start_joins [OF assms] chat_not_confirming
    by (auto simp: emits_def list_all_iff not_confirming_def intro!: guarded_quiet)
qed

lemma in_session_confirms:
  assumes "in_session window has_control s t"
  shows "\<exists>evs. w_hist t = w_hist s @ evs \<and>
    guarded is_mark_valid (accepts_with (e_codec (w_env s)) (Some first_ref)) False evs"
  using assms
proof cases
  case (turn_begins l u k)
  from session_start_confirms [OF turn_begins(1)] obtain xs where
    u: "w_env u = w_env s" "w_hist u = w_hist s @ xs"
      "guarded is_mark_valid (accepts_with (e_codec (w_env s)) (Some first_ref)) False xs"
      "\<not> lk_joined (lk u)" "lk_join_ref (lk u) = Some first_ref" by blast
  have "confirms u t"
  proof (rule loop_head_invariant [OF turn_begins(2), where I = "\<lambda>_ v. confirms u v"])
    show "confirms u u" by (rule confirms.rel_refl)
    show "confirms u w" if "confirms u v" "session_turn window has_control k' v = Some (Inr (Inl k''), w)"
      for k' k'' v w
      using that confirms_session_turn confirms.rel_trans by (blast dest: staysD)
  qed
  then obtain ys where "w_hist t = w_hist u @ ys"
    "guarded is_mark_valid (accepts_with (e_codec (w_env s)) (Some first_ref)) False ys"
    using u by (auto simp: confirms_def link_accepts_def)
  then show ?thesis using u by (auto intro!: exI [of _ "xs @ ys"] guarded_weaken)
qed

text \<open>
  C1: an image is confirmed only once NervesHub has accepted it. In a session, at every turn
  and at its end if it has one, no call that marks the image valid comes before a frame from the
  server that decodes to an \<open>ok\<close> reply to this session's own join; so an image that cannot
  reach NervesHub is left for the bootloader to roll back.
\<close>

theorem confirmed_only_after_join:
  assumes "in_session window has_control s t \<or> session_within window has_control s = Some (r, t)"
  shows "\<exists>evs. w_hist t = w_hist s @ evs \<and>
    guarded is_mark_valid (accepts_with (e_codec (w_env s)) (Some first_ref)) False evs"
  using assms in_session_confirms session_confirms by blast

lemma demo_text_valid: "valid_utf8 ''[]''"
  by code_simp

lemma demo_session_start: "\<exists>l u. session_start demo_agent = Some (Inr l, u)"
  by (simp add: session_start_def session_begin_def demo_agent_def demo_env_def read_boot_report_def
      world_calls world_steps andthen_gets andthen_modify send_join_def fresh_ref_def link_set_def link_get_def
      link_send_def link_write_def andthen_run prog_simps demo_codec_def encode_as_def encode_frame_def
      encode_def next_ref_def Let_def link_new_def demo_config_def config_new_def fallible_call_run call_run
      demo_text_valid)

theorem confirmed_only_after_join_witness:
  "\<exists>t evs. in_session None False demo_agent t \<and> w_hist t = w_hist demo_agent @ evs \<and>
    guarded is_mark_valid (accepts_with (e_codec demo_env) (Some first_ref)) False evs"
proof -
  obtain l u where "session_start demo_agent = Some (Inr l, u)" using demo_session_start by blast
  then have u: "in_session None False demo_agent u" by (rule turn_begins) (rule head_start)
  then show ?thesis
    using confirmed_only_after_join [of None False demo_agent u] by (auto simp: demo_agent_def)
qed

text \<open>
  C10: the device restarts exactly when the agent says it is rebooting, and nothing is done
  after it: a session, and the loop that runs sessions, that ends with \<open>Rebooting\<close> asked for
  the restart as its very last act, and one that ends in any other way never asked.
\<close>

theorem restart_is_last_act:
  "(case session_within window has_control s of
      None \<Rightarrow> True | Some (r, t) \<Rightarrow> restarted (r = Inr (Some Stopped_Rebooting)) s t) \<and>
   (case run s of None \<Rightarrow> True | Some (r, t) \<Rightarrow> restarted (r = Inr Stopped_Rebooting) s t)"
proof -
  have "restarted (r = Inr (Some Stopped_Rebooting)) s t"
    if run: "session_within window has_control s = Some (r, t)" for r t
  proof -
    have "restarted (case r of Inr a \<Rightarrow> rebooting a | Inl _ \<Rightarrow> False) s t"
      using restarts_session run unfolding restarts_def by blast
    then show ?thesis by (cases r) (simp_all add: rebooting_def)
  qed
  moreover have "restarted (r = Inr Stopped_Rebooting) s t" if run: "run s = Some (r, t)" for r t
  proof -
    have "restarted (case r of Inr a \<Rightarrow> a = Stopped_Rebooting | Inl _ \<Rightarrow> False) s t"
      using restarts_run run unfolding restarts_def by blast
    then show ?thesis by (cases r) simp_all
  qed
  ultimately show ?thesis by (simp split: option.split)
qed

text \<open>
  C2: an update is installed whole or not at all. Applying one that can be acted on makes the
  calls of at most one legal installation: the opens with their retries, then every chunk read
  written, then either a commit of an image that passed the size and checksum tests, or an abort.
  It says to reboot only if that commit succeeded.
\<close>

theorem update_is_all_or_nothing:
  "case (actionable u, apply_update u s) of
     (Some (url, uuid), Some (r, t)) \<Rightarrow> \<exists>evs. w_hist t = w_hist s @ evs \<and>
       ((io_calls evs = [] \<and> r \<noteq> Inr True) \<or>
        (\<exists>d. installed (e_digest (w_env s)) u url (io_calls evs) d \<and>
          (if r = Inr True then \<exists>rep. d = Inr rep else True)))
   | _ \<Rightarrow> True"
proof (cases "actionable u")
  case (Some a)
  obtain url uuid where a: "actionable u = Some (url, uuid)" using Some by (cases a) simp
  show ?thesis
  proof (cases "apply_update u s")
    case (Some rt)
    obtain r t where rt: "apply_update u s = Some (r, t)" using Some by (cases rt) simp
    have conv: "(if c then q else True) = (c \<longrightarrow> q)" for c q by simp
    show ?thesis using apply_update_io [OF rt a] unfolding conv by (simp add: a rt)
  qed (simp add: a)
qed simp

text \<open>
  C12: a dead connection is noticed. When a heartbeat is due and the one before it has had no
  reply, the turn ends the session with a transport error, having sent nothing more and read no
  frame; only the clock was read.
\<close>

theorem silence_ends_session:
  assumes "turn_head l s = Some (Inr l', u)" and "heartbeat_unanswered (lk u)"
    and "sl_heartbeat_ms l' \<le> saturating_sub (e_now (w_env u) (w_hist u)) (sl_last_heartbeat l')"
  shows "session_turn window has_control l s =
    Some (Inl (no_reply_error (sl_heartbeat_ms l')),
      u\<lparr>w_hist := w_hist u @ [Ev_Now (e_now (w_env u) (w_hist u))]\<rparr>)"
  by (rule heartbeat_overdue [OF assms])

definition demo_locals :: session_locals where
  "demo_locals = \<lparr>sl_confirmed = False, sl_extensions_joined = False, sl_extensions_reported = False,
     sl_console_joined = False, sl_last_log = 0, sl_last_heartbeat = 0, sl_heartbeat_ms = 0,
     sl_started = 0, sl_joined_at = None, sl_health_answered = False\<rparr>"

theorem silence_ends_session_witness:
  "fst (the (session_turn None False demo_locals
     (demo_agent\<lparr>lk := (link_new demo_config demo_firmware)\<lparr>lk_heartbeat_ref := Some ''2''\<rparr>\<rparr>))) =
   Inl (no_reply_error 0)"
proof -
  let ?s = "demo_agent\<lparr>lk := (link_new demo_config demo_firmware)\<lparr>lk_heartbeat_ref := Some ''2''\<rparr>\<rparr>"
  have head: "turn_head demo_locals ?s = Some (Inr demo_locals, ?s)"
    by (simp add: turn_head_def turn_confirm_def turn_extensions_def turn_console_def turn_report_extensions_def
        andthen_run link_get_def prog_simps link_new_def demo_locals_def extensions_joined_def
        new_extensions_def)
  from silence_ends_session [OF head, of None False] show ?thesis
    by (simp add: heartbeat_unanswered_def demo_locals_def)
qed

text \<open>
  C14: reconnecting backs off. Every turn of the loop that is followed by another ends in the wait
  the schedule gives for the attempt, the first again after a session that joined and the next
  after one that did not; and a connection refused for the device's own identity is not tried
  again.
\<close>

theorem reconnecting_backs_off:
  "case run_turn tries s of
     Some (Inr (Inl tries'), t) \<Rightarrow>
       (case e_connect (w_env s) (w_hist s) of
          Inl e \<Rightarrow> \<not> is_identity e \<and> waited_for t tries \<and> tries' = saturating_add tries 1
        | Inr _ \<Rightarrow> if ag_joined t then waited_for t 0 \<and> tries' = 0
                  else waited_for t tries \<and> tries' = saturating_add tries 1)
   | _ \<Rightarrow> True"
proof -
  have "case e_connect (w_env s) (w_hist s) of
          Inl e \<Rightarrow> \<not> is_identity e \<and> waited_for t tries \<and> tries' = saturating_add tries 1
        | Inr _ \<Rightarrow> if ag_joined t then waited_for t 0 \<and> tries' = 0
                  else waited_for t tries \<and> tries' = saturating_add tries 1"
    if "run_turn tries s = Some (Inr (Inl tries'), t)" for tries' t
    using run_turn_again [OF that] by auto
  then show ?thesis by (auto split: option.split sum.split)
qed

end
