(* ===== verification/Net.thy ===== *)
theory Net
  imports Config Prog
begin

text \<open>
  What \<open>src/tls.rs\<close> and \<open>src/transport.rs\<close> call: esp-tls, mbedTLS, lwIP's
  \<open>select\<close>, ESP-IDF's transports and its websocket client. None of it is the crate's, so it is
  a parameter: each call is recorded with its answer, a function of the calls before it. Handles
  are numbers and a null pointer is \<open>None\<close>. Loading the flag a stopper sets is a call as
  well, so that another thread may set it at any moment.
\<close>

text \<open>A session as mbedTLS holds it, as far as \<open>redate_ticket\<close> looks into it.\<close>

record mbed_session =
  ms_id :: nat
  ms_tls13 :: bool
  ms_ticket :: bool
  ms_received :: i64

record tls_cfg =
  cf_cacert :: "bytes option"
  cf_crt_bundle :: bool
  cf_version :: tls_version
  cf_clientcert :: "bytes option"
  cf_clientkey :: "bytes option"
  cf_timeout_ms :: int
  cf_session :: "mbed_session option"

text \<open>The websocket client's configuration, the fields that are not its default.\<close>

record client_config =
  cc_uri :: string
  cc_transport :: nat
  cc_ping_interval_sec :: nat
  cc_disable_pingpong_discon :: bool
  cc_buffer_size :: nat
  cc_network_timeout_ms :: int

datatype direction = Direction_Read | Direction_Write

datatype net_call =
    Net_TransportInit "nat option"
  | Net_TransportDestroy nat
  | Net_TlsInit "nat option"
  | Net_Handshake nat tls_cfg string int int
  | Net_SocketOf nat "int + int"
  | Net_TlsDestroy nat
  | Net_TlsRead nat nat "int + bytes"
  | Net_TlsWrite nat bytes int
  | Net_BytesAvail nat int
  | Net_ErrorHandle nat "int \<times> nat option"
  | Net_TransportError "nat option"
  | Net_ErrorCopied
  | Net_Select direction int "u32 list" "(nat \<times> nat) option" int "u32 list"
  | Net_SessionLoad bytes "int + mbed_session"
  | Net_SessionFree
  | Net_SessionOf nat "mbed_session option"
  | Net_SessionSave mbed_session nat "int \<times> bytes"
  | Net_MbedTime i64
  | Net_WallTime i64
  | Net_Version nat "string option option"
  | Net_PeerCert nat "bool option"
  | Net_Stopping bool
  | Net_Stop
  | Net_Shutdown int
  | Net_TcpInit "nat option"
  | Net_WsInit nat "nat option"
  | Net_WsConfig nat string "string option" int
  | Net_ClientInit client_config "nat option"
  | Net_RegisterEvents nat int
  | Net_ClientStart nat int
  | Net_IsConnected nat bool
  | Net_ClientDestroy nat
  | Net_EventsMade
  | Net_EventsFreed
  | Net_Send nat bool bytes int
  | Net_Clock nat
  | Net_Sleep nat
  | Net_Epoch "u64 option"

text \<open>The values of ESP-IDF's and mbedTLS's error constants the code compares with or returns.\<close>

record error_codes =
  ec_failed :: int
  ec_timeout :: int
  ec_closed_by_fin :: int
  ec_want_read :: int
  ec_ssl_timeout :: int

text \<open>How ESP-IDF was configured, which decides what of the code is compiled.\<close>

record build =
  bd_tickets :: bool
  bd_tls13 :: bool
  bd_have_time :: bool

record net =
  nt_build :: build
  nt_codes :: error_codes
  nt_transport_init :: "net_call list \<Rightarrow> nat option"
  nt_tls_init :: "net_call list \<Rightarrow> nat option"
  nt_handshake :: "net_call list \<Rightarrow> nat \<Rightarrow> tls_cfg \<Rightarrow> string \<Rightarrow> int \<Rightarrow> int"
  nt_socket_of :: "net_call list \<Rightarrow> nat \<Rightarrow> int + int"
  nt_tls_read :: "net_call list \<Rightarrow> nat \<Rightarrow> nat \<Rightarrow> int + bytes"
  nt_tls_write :: "net_call list \<Rightarrow> nat \<Rightarrow> bytes \<Rightarrow> int"
  nt_bytes_avail :: "net_call list \<Rightarrow> nat \<Rightarrow> int"
  nt_error_handle :: "net_call list \<Rightarrow> nat \<Rightarrow> int \<times> nat option"
  nt_transport_error :: "net_call list \<Rightarrow> nat option"
  nt_select :: "net_call list \<Rightarrow> direction \<Rightarrow> int \<Rightarrow> u32 list \<Rightarrow> (nat \<times> nat) option \<Rightarrow> int \<times> u32 list"
  nt_session_load :: "net_call list \<Rightarrow> bytes \<Rightarrow> int + mbed_session"
  nt_session_of :: "net_call list \<Rightarrow> nat \<Rightarrow> mbed_session option"
  nt_session_save :: "net_call list \<Rightarrow> mbed_session \<Rightarrow> nat \<Rightarrow> int \<times> bytes"
  nt_mbed_time :: "net_call list \<Rightarrow> i64"
  nt_wall_time :: "net_call list \<Rightarrow> i64"
  nt_version :: "net_call list \<Rightarrow> nat \<Rightarrow> string option option"
  nt_peer_cert :: "net_call list \<Rightarrow> nat \<Rightarrow> bool option"
  nt_fd_words :: nat
  nt_stopping :: "net_call list \<Rightarrow> bool"
  nt_tcp_init :: "net_call list \<Rightarrow> nat option"
  nt_ws_init :: "net_call list \<Rightarrow> nat \<Rightarrow> nat option"
  nt_ws_config :: "net_call list \<Rightarrow> nat \<Rightarrow> string \<Rightarrow> string option \<Rightarrow> int"
  nt_client_init :: "net_call list \<Rightarrow> client_config \<Rightarrow> nat option"
  nt_register_events :: "net_call list \<Rightarrow> nat \<Rightarrow> int"
  nt_client_start :: "net_call list \<Rightarrow> nat \<Rightarrow> int"
  nt_is_connected :: "net_call list \<Rightarrow> nat \<Rightarrow> bool"
  nt_send :: "net_call list \<Rightarrow> nat \<Rightarrow> bool \<Rightarrow> bytes \<Rightarrow> int"
  nt_clock :: "net_call list \<Rightarrow> nat"
  nt_epoch :: "net_call list \<Rightarrow> u64 option"
  nt_crypto :: crypto
  nt_err_text :: "int \<Rightarrow> string"

record net_world =
  nw_net :: net
  nw_calls :: "net_call list"

text \<open>A call: it answers from the calls before it, and both go on record.\<close>

definition net_ask ::
    "(net \<Rightarrow> net_call list \<Rightarrow> 'a) \<Rightarrow> ('a \<Rightarrow> net_call) \<Rightarrow> ('s net_world_scheme, 'a) prog" where
  "net_ask f ev = (\<lambda>s. let a = f (nw_net s) (nw_calls s)
     in Some (Inr a, s\<lparr>nw_calls := nw_calls s @ [ev a]\<rparr>))"

definition net_tell :: "net_call \<Rightarrow> ('s net_world_scheme, unit) prog" where
  "net_tell c = net_ask (\<lambda>_ _. ()) (\<lambda>_. c)"

lemma net_ask_run [prog_simps]:
  "net_ask f ev s = Some (Inr (f (nw_net s) (nw_calls s)),
     s\<lparr>nw_calls := nw_calls s @ [ev (f (nw_net s) (nw_calls s))]\<rparr>)"
  by (simp add: net_ask_def Let_def)

lemma net_tell_run [prog_simps]: "net_tell c s = Some (Inr (), s\<lparr>nw_calls := nw_calls s @ [c]\<rparr>)"
  by (simp add: net_tell_def net_ask_run)

lemma andthen_net_ask [prog_simps]:
  "andthen (net_ask f ev) g s = g (f (nw_net s) (nw_calls s))
     (s\<lparr>nw_calls := nw_calls s @ [ev (f (nw_net s) (nw_calls s))]\<rparr>)"
  by (simp add: andthen_def net_ask_run)

lemma andthen_net_tell [prog_simps]:
  "andthen (net_tell c) g s = g () (s\<lparr>nw_calls := nw_calls s @ [c]\<rparr>)"
  by (simp add: andthen_def net_tell_run)

subsection \<open>An example\<close>

text \<open>
  A build with TLS 1.2 sessions, on a network where everything is answered and the server refuses
  a handshake that offers a session.
\<close>

definition demo_net :: net where
  "demo_net = \<lparr>nt_build = \<lparr>bd_tickets = True, bd_tls13 = False, bd_have_time = False\<rparr>,
     nt_codes = \<lparr>ec_failed = - 2, ec_timeout = 0, ec_closed_by_fin = - 1, ec_want_read = - 26880,
       ec_ssl_timeout = - 26624\<rparr>,
     nt_transport_init = (\<lambda>h. Some 7), nt_tls_init = (\<lambda>h. Some (length h)),
     nt_handshake = (\<lambda>h tls c host port. if cf_session c = None then 1 else - 1),
     nt_socket_of = (\<lambda>h tls. Inr 54), nt_tls_read = (\<lambda>h tls len. Inr [1, 2]),
     nt_tls_write = (\<lambda>h tls bs. int (length bs)), nt_bytes_avail = (\<lambda>h tls. 0),
     nt_error_handle = (\<lambda>h tls. (0, Some 1)), nt_transport_error = (\<lambda>h. Some 2),
     nt_select = (\<lambda>h d n fds tv. (1, [0, 0])),
     nt_session_load = (\<lambda>h bs. Inr \<lparr>ms_id = 1, ms_tls13 = False, ms_ticket = False, ms_received = 0\<rparr>),
     nt_session_of = (\<lambda>h tls. Some \<lparr>ms_id = 2, ms_tls13 = False, ms_ticket = False, ms_received = 0\<rparr>),
     nt_session_save = (\<lambda>h ses k. (if k = 0 then 1 else 0, [9, 9])),
     nt_mbed_time = (\<lambda>h. 0), nt_wall_time = (\<lambda>h. 0),
     nt_version = (\<lambda>h tls. Some (Some ''TLSv1.2'')), nt_peer_cert = (\<lambda>h tls. Some True),
     nt_fd_words = 2, nt_stopping = (\<lambda>h. Net_Stop \<in> set h), nt_tcp_init = (\<lambda>h. Some 7),
     nt_ws_init = (\<lambda>h base. Some 8), nt_ws_config = (\<lambda>h ws path headers. 0),
     nt_client_init = (\<lambda>h c. Some 9), nt_register_events = (\<lambda>h c. 0), nt_client_start = (\<lambda>h c. 0),
     nt_is_connected = (\<lambda>h c. True), nt_send = (\<lambda>h c bin bs. int (length bs)),
     nt_clock = (\<lambda>h. 50 * length h),
     nt_epoch = (\<lambda>h. Some 1700000000), nt_crypto = \<lparr>pbkdf2_hmac_sha256 = (\<lambda>p s i n. [2]),
       hmac_sha256 = (\<lambda>k m. [1])\<rparr>, nt_err_text = dec_int\<rparr>"

end
