(* ===== verification/Tls.thy ===== *)
theory Tls
  imports Net Utf8
begin

unbundle bit_operations_syntax

text \<open>
  \<open>src/tls.rs\<close>: the TLS transport under the websocket. The functions the websocket client calls
  back run on its task, the stopper on the thread that owns the client. \<open>tw_context\<close> is the
  boxed context while there is one, \<open>tw_session\<close> the slot it shares with the application and
  \<open>tw_socket\<close> the socket it shares with its stopper.
\<close>

record settings =
  st_server_ca :: "bytes option"
  st_client_certificate :: "(bytes \<times> bytes) option"
  st_version :: tls_version

record tls_context =
  cx_settings :: settings
  cx_cfg :: tls_cfg
  cx_tls :: "nat option"
  cx_sockfd :: int
  cx_ticket_due :: "handshake option"

record tls_world = net_world +
  tw_session :: tls_session
  tw_context :: "tls_context option"
  tw_socket :: int

definition build_has :: "(build \<Rightarrow> bool) \<Rightarrow> ('s tls_world_scheme, bool) prog" where
  "build_has f = gets (\<lambda>s. f (nt_build (nw_net s)))"

definition codes :: "(error_codes \<Rightarrow> int) \<Rightarrow> ('s tls_world_scheme, int) prog" where
  "codes f = gets (\<lambda>s. f (nt_codes (nw_net s)))"

definition set_socket :: "int \<Rightarrow> ('s tls_world_scheme, unit) prog" where
  "set_socket fd = modify (\<lambda>s. s\<lparr>tw_socket := fd\<rparr>)"

definition set_context :: "(tls_context \<Rightarrow> tls_context) \<Rightarrow> ('s tls_world_scheme, unit) prog" where
  "set_context g = modify (\<lambda>s. s\<lparr>tw_context := map_option g (tw_context s)\<rparr>)"

definition set_session :: "(tls_session \<Rightarrow> tls_session) \<Rightarrow> ('s tls_world_scheme, unit) prog" where
  "set_session g = modify (\<lambda>s. s\<lparr>tw_session := g (tw_session s)\<rparr>)"

text \<open>\<open>context(t)\<close>: minus one, as most callbacks answer, when there is none.\<close>

definition with_context :: "(tls_context \<Rightarrow> ('s tls_world_scheme, int) prog) \<Rightarrow> ('s tls_world_scheme, int) prog" where
  "with_context f = andthen (gets tw_context) (\<lambda>c. case c of None \<Rightarrow> ok (- 1) | Some ctx \<Rightarrow> f ctx)"

subsection \<open>Making a transport\<close>

text \<open>Lengths count the NUL that ends a PEM, so the buffer is the text and its NUL.\<close>

definition with_nul :: "bytes \<Rightarrow> bytes" where
  "with_nul pem = pem @ [0]"

definition base_config :: "settings \<Rightarrow> tls_cfg" where
  "base_config st =
     \<lparr>cf_cacert = map_option with_nul (st_server_ca st), cf_crt_bundle = (st_server_ca st = None),
      cf_version = st_version st,
      cf_clientcert = map_option (\<lambda>p. with_nul (fst p)) (st_client_certificate st),
      cf_clientkey = map_option (\<lambda>p. with_nul (snd p)) (st_client_certificate st),
      cf_timeout_ms = 0, cf_session = None\<rparr>"

definition no_tls13 :: error where
  "no_tls13 = Error_Transport (''TLS 1.3 asked for, but this build has no TLS 1.3 '' @
     ''(CONFIG_MBEDTLS_SSL_PROTO_TLS1_3)'')"

definition tls_transport :: "settings \<Rightarrow> ('s tls_world_scheme, nat) prog" where
  "tls_transport st =
     andthen (build_has bd_tls13) (\<lambda>tls13.
     if st_version st = TlsVersion_Tls13 \<and> \<not> tls13 then fail no_tls13
     else andthen (net_ask nt_transport_init Net_TransportInit) (\<lambda>t. case t of
         None \<Rightarrow> fail (Error_Transport ''no memory for the TLS transport'')
       | Some handle \<Rightarrow>
           andthen (set_socket (- 1)) (\<lambda>_.
           andthen (modify (\<lambda>s. s\<lparr>tw_context := Some \<lparr>cx_settings = st, cx_cfg = base_config st,
             cx_tls = None, cx_sockfd = - 1, cx_ticket_due = None\<rparr>\<rparr>)) (\<lambda>_.
           ok handle))))"

text \<open>\<open>Context::close\<close>: the socket is given up before the connection is closed.\<close>

definition ctx_close :: "tls_context \<Rightarrow> ('s tls_world_scheme, unit) prog" where
  "ctx_close ctx =
     andthen (set_socket (- 1)) (\<lambda>_.
     andthen (case cx_tls ctx of
         None \<Rightarrow> ok ()
       | Some tls \<Rightarrow> net_tell (Net_TlsDestroy tls)) (\<lambda>_.
     set_context (\<lambda>c. c\<lparr>cx_tls := None, cx_sockfd := - 1, cx_ticket_due := None\<rparr>)))"

definition report_tls_error :: "nat \<Rightarrow> ('s tls_world_scheme, unit) prog" where
  "report_tls_error tls =
     andthen (net_ask (\<lambda>N h. nt_transport_error N h) Net_TransportError) (\<lambda>transport_error.
     andthen (net_ask (\<lambda>N h. nt_error_handle N h tls) (Net_ErrorHandle tls)) (\<lambda>(err, tls_error).
     only_if (err = 0 \<and> tls_error \<noteq> None \<and> transport_error \<noteq> None) (net_tell Net_ErrorCopied)))"

subsection \<open>Sessions as bytes\<close>

text \<open>\<open>redate_ticket\<close>: which clock a ticket's date is on, and moving it to the other.\<close>

datatype ticket_clock = TicketClock_Mbedtls | TicketClock_Wall

definition redate_ticket :: "mbed_session \<Rightarrow> ticket_clock \<Rightarrow> ('s tls_world_scheme, mbed_session) prog" where
  "redate_ticket ses to =
     (if \<not> ms_tls13 ses \<or> \<not> ms_ticket ses then ok ses
      else
        andthen (net_ask nt_mbed_time Net_MbedTime) (\<lambda>mbedtls_now.
        andthen (net_ask nt_wall_time Net_WallTime) (\<lambda>wall_now.
        let (from_now, to_now) = (case to of
            TicketClock_Wall \<Rightarrow> (mbedtls_now, wall_now)
          | TicketClock_Mbedtls \<Rightarrow> (wall_now, mbedtls_now))
        in ok (ses\<lparr>ms_received := rebase (ms_received ses) from_now to_now\<rparr>))))"

definition redate_if :: "mbed_session \<Rightarrow> ticket_clock \<Rightarrow> ('s tls_world_scheme, mbed_session) prog" where
  "redate_if ses to =
     andthen (build_has (\<lambda>b. bd_tls13 b \<and> bd_have_time b)) (\<lambda>dated.
     if dated then redate_ticket ses to else ok ses)"

definition load_session :: "bytes \<Rightarrow> ('s tls_world_scheme, mbed_session option) prog" where
  "load_session bs =
     andthen (net_ask (\<lambda>N h. nt_session_load N h bs) (Net_SessionLoad bs)) (\<lambda>r. case r of
       Inl _ \<Rightarrow> andthen (net_tell Net_SessionFree) (\<lambda>_. ok None)
     | Inr ses \<Rightarrow> andthen (redate_if ses TicketClock_Mbedtls) (\<lambda>ses. ok (Some ses)))"

text \<open>\<open>save_session\<close>: the length is asked first, then the bytes.\<close>

definition save_session :: "nat \<Rightarrow> ('s tls_world_scheme, bytes option) prog" where
  "save_session tls =
     andthen (net_ask (\<lambda>N h. nt_session_of N h tls) (Net_SessionOf tls)) (\<lambda>found. case found of
       None \<Rightarrow> ok None
     | Some ses \<Rightarrow>
         andthen (redate_if ses TicketClock_Wall) (\<lambda>ses.
         andthen (net_ask (\<lambda>N h. nt_session_save N h ses 0) (Net_SessionSave ses 0)) (\<lambda>(_, need).
         andthen (net_ask (\<lambda>N h. nt_session_save N h ses (length need)) (Net_SessionSave ses (length need)))
           (\<lambda>(ret, out).
         andthen (net_tell Net_SessionFree) (\<lambda>_.
         ok (if ret = 0 then Some (take (length need) out) else None))))))"

subsection \<open>What the handshake settled\<close>

text \<open>
  \<open>Net_Version\<close> answers \<open>None\<close> for no SSL context, \<open>Some None\<close> for a null name.
  \<open>is_tls13\<close> does not look for the null, so there it is as good as a crash. A certificate
  question answers \<open>None\<close> without an SSL context.
\<close>

definition tls_protocol :: "nat \<Rightarrow> ('s tls_world_scheme, string option) prog" where
  "tls_protocol tls =
     andthen (net_ask (\<lambda>N h. nt_version N h tls) (Net_Version tls)) (\<lambda>v.
     ok (map_option from_utf8_lossy (Option.bind v id)))"

definition is_tls13 :: "nat \<Rightarrow> ('s tls_world_scheme, bool) prog" where
  "is_tls13 tls =
     andthen (net_ask (\<lambda>N h. nt_version N h tls) (Net_Version tls)) (\<lambda>v. case v of
       None \<Rightarrow> ok False
     | Some None \<Rightarrow> (\<lambda>_. None)
     | Some (Some name) \<Rightarrow> ok (name = ''TLSv1.3''))"

definition tls13_handshake :: "nat \<Rightarrow> bool \<Rightarrow> ('s tls_world_scheme, handshake) prog" where
  "tls13_handshake tls was_offered =
     andthen (if was_offered then net_ask (\<lambda>N h. nt_peer_cert N h tls) (Net_PeerCert tls) else ok None) (\<lambda>peer.
     ok (if was_offered \<and> peer = Some False then Resumed else Full))"

subsection \<open>Connecting\<close>

text \<open>The session was_offered, in the form esp-tls takes, when the build has tickets.\<close>

definition offer_session :: "('s tls_world_scheme, bytes option \<times> mbed_session option) prog" where
  "offer_session =
     andthen (build_has bd_tickets) (\<lambda>tickets.
     if \<not> tickets then ok (None, None)
     else
       andthen (gets (\<lambda>s. saved (tw_session s))) (\<lambda>was_offered.
       andthen (case was_offered of None \<Rightarrow> ok None | Some bs \<Rightarrow> load_session bs) (\<lambda>loaded.
       andthen (set_context (\<lambda>c. c\<lparr>cx_cfg := (cx_cfg c)\<lparr>cf_session := loaded\<rparr>\<rparr>)) (\<lambda>_.
       ok (was_offered, loaded)))))"

text \<open>The handshake, and the was_offered session taken back and freed.\<close>

definition shake_hands ::
    "nat \<Rightarrow> string \<Rightarrow> int \<Rightarrow> mbed_session option \<Rightarrow> ('s tls_world_scheme, int) prog" where
  "shake_hands tls host port loaded =
     andthen (gets (\<lambda>s. map_option cx_cfg (tw_context s))) (\<lambda>cfg. case cfg of
       None \<Rightarrow> ok (- 1)
     | Some c \<Rightarrow>
         andthen (net_ask (\<lambda>N h. nt_handshake N h tls c host port) (Net_Handshake tls c host port)) (\<lambda>connected.
         andthen (set_context (\<lambda>c. c\<lparr>cx_cfg := (cx_cfg c)\<lparr>cf_session := None\<rparr>\<rparr>)) (\<lambda>_.
         andthen (only_if (loaded \<noteq> None) (net_tell Net_SessionFree)) (\<lambda>_. ok connected))))"

text \<open>What is kept of a handshake that succeeded.\<close>

definition settled_tls13 :: "nat \<Rightarrow> ('s tls_world_scheme, bool) prog" where
  "settled_tls13 tls =
     andthen (tls_protocol tls) (\<lambda>protocol.
     andthen (case protocol of None \<Rightarrow> ok () | Some name \<Rightarrow> set_session (negotiated name)) (\<lambda>_.
     andthen (build_has (\<lambda>b. bd_tickets b \<and> bd_tls13 b)) (\<lambda>both.
     if both then is_tls13 tls else ok False)))"

definition await_ticket :: "nat \<Rightarrow> bytes option \<Rightarrow> ('s tls_world_scheme, int) prog" where
  "await_ticket tls was_offered =
     andthen (tls13_handshake tls (was_offered \<noteq> None)) (\<lambda>handshake.
     andthen (set_session (record_handshake handshake)) (\<lambda>_.
     andthen (set_context (\<lambda>c. c\<lparr>cx_ticket_due := Some handshake\<rparr>)) (\<lambda>_. ok 0)))"

definition store_fresh :: "nat \<Rightarrow> bytes option \<Rightarrow> ('s tls_world_scheme, int) prog" where
  "store_fresh tls was_offered =
     andthen (build_has bd_tickets) (\<lambda>tickets.
     andthen (if tickets then save_session tls else ok None) (\<lambda>fresh.
     andthen (case fresh of
         None \<Rightarrow> ok ()
       | Some bs \<Rightarrow> set_session (store bs (if was_offered = Some bs then Resumed else Full))) (\<lambda>_. ok 0)))"

definition keep_session :: "nat \<Rightarrow> bytes option \<Rightarrow> ('s tls_world_scheme, int) prog" where
  "keep_session tls was_offered =
     andthen (settled_tls13 tls) (\<lambda>tls13.
     if tls13 then await_ticket tls was_offered else store_fresh tls was_offered)"

definition after_handshake :: "nat \<Rightarrow> bytes option \<Rightarrow> int \<Rightarrow> ('s tls_world_scheme, int) prog" where
  "after_handshake tls was_offered connected =
     (if connected \<le> 0 then
        andthen (report_tls_error tls) (\<lambda>_.
        andthen (net_tell (Net_TlsDestroy tls)) (\<lambda>_.
        andthen (only_if (was_offered \<noteq> None) (set_session forget)) (\<lambda>_. ok (- 1))))
      else
        andthen (net_ask (\<lambda>N h. nt_socket_of N h tls) (Net_SocketOf tls)) (\<lambda>r. case r of
          Inl _ \<Rightarrow> andthen (net_tell (Net_TlsDestroy tls)) (\<lambda>_. ok (- 1))
        | Inr fd \<Rightarrow>
            andthen (set_context (\<lambda>c. c\<lparr>cx_sockfd := fd, cx_tls := Some tls\<rparr>)) (\<lambda>_.
            andthen (set_socket fd) (\<lambda>_.
            keep_session tls was_offered))))"

definition connect_with :: "nat \<Rightarrow> string \<Rightarrow> int \<Rightarrow> ('s tls_world_scheme, int) prog" where
  "connect_with tls host port =
     andthen offer_session (\<lambda>(was_offered, loaded).
     andthen (shake_hands tls host port loaded) (after_handshake tls was_offered))"

definition tls_connect :: "string \<Rightarrow> int \<Rightarrow> int \<Rightarrow> ('s tls_world_scheme, int) prog" where
  "tls_connect host port timeout_ms =
     with_context (\<lambda>ctx.
     andthen (ctx_close ctx) (\<lambda>_.
     andthen (net_ask nt_stopping Net_Stopping) (\<lambda>stopping.
     if stopping then ok (- 1)
     else
       andthen (set_context (\<lambda>c. c\<lparr>cx_cfg := (cx_cfg c)\<lparr>cf_timeout_ms := timeout_ms\<rparr>\<rparr>)) (\<lambda>_.
       andthen (net_ask nt_tls_init Net_TlsInit) (\<lambda>tls. case tls of
         None \<Rightarrow> ok (- 1)
       | Some tls \<Rightarrow> connect_with tls host port)))))"

subsection \<open>Waiting for the socket\<close>

text \<open>
  \<open>fd_set\<close> is an array of words of one width. \<open>add\<close> refuses a socket outside it.
\<close>

definition fd_add :: "'w::len word list \<Rightarrow> int \<Rightarrow> 'w word list \<times> bool" where
  "fd_add fds fd =
     (if fd < 0 then (fds, False)
      else let i = nat fd div LENGTH('w); k = nat fd mod LENGTH('w)
        in if i < length fds then (fds[i := fds ! i OR push_bit k 1], True) else (fds, False))"

definition fd_contains :: "'w::len word list \<Rightarrow> int \<Rightarrow> bool" where
  "fd_contains fds fd =
     (if fd < 0 then False
      else let i = nat fd div LENGTH('w); k = nat fd mod LENGTH('w)
        in i < length fds \<and> fds ! i AND push_bit k 1 \<noteq> 0)"

definition no_fds :: "nat \<Rightarrow> u32 list" where
  "no_fds n = replicate n 0"

text \<open>
  \<open>select\<close> on the one socket, in the set for its direction and in the set of failures, which
  it answers with. A timeout is in seconds and microseconds, as a \<open>timeval\<close> has it.
\<close>

definition timeval :: "nat \<Rightarrow> nat \<times> nat" where
  "timeval ms = (ms div 1000, (ms mod 1000) * 1000)"

definition select_once :: "int \<Rightarrow> direction \<Rightarrow> nat option \<Rightarrow> ('s tls_world_scheme, int) prog" where
  "select_once fd dir timeout =
     andthen (gets (\<lambda>s. fd_add (no_fds (nt_fd_words (nw_net s))) fd)) (\<lambda>(fds, added).
     if \<not> added then ok (- 1)
     else
       let tv = map_option timeval timeout
       in andthen (net_ask (\<lambda>N h. nt_select N h dir (fd + 1) fds tv)
            (\<lambda>(n, failed). Net_Select dir (fd + 1) fds tv n failed)) (\<lambda>(n, failed).
          ok (if 0 < n \<and> fd_contains failed fd then - 1 else n)))"

definition tls_wait :: "int \<Rightarrow> direction \<Rightarrow> int \<Rightarrow> ('s tls_world_scheme, int) prog" where
  "tls_wait fd dir timeout_ms =
     andthen (net_ask nt_stopping Net_Stopping) (\<lambda>stopping.
     if stopping then ok 0
     else
       andthen (select_once fd dir (if timeout_ms < 0 then None else Some (nat timeout_ms))) (\<lambda>n.
       andthen (net_ask nt_stopping Net_Stopping) (\<lambda>stopping.
       ok (if stopping then 0 else n))))"

definition ctx_poll_read :: "tls_context \<Rightarrow> int \<Rightarrow> ('s tls_world_scheme, int) prog" where
  "ctx_poll_read ctx timeout_ms = (case cx_tls ctx of
      None \<Rightarrow> ok (- 1)
    | Some tls \<Rightarrow>
        andthen (net_ask (\<lambda>N h. nt_bytes_avail N h tls) (Net_BytesAvail tls)) (\<lambda>buffered.
        if 0 < buffered then ok buffered else tls_wait (cx_sockfd ctx) Direction_Read timeout_ms))"

definition ctx_poll_write :: "tls_context \<Rightarrow> int \<Rightarrow> ('s tls_world_scheme, int) prog" where
  "ctx_poll_write ctx timeout_ms = (case cx_tls ctx of
      None \<Rightarrow> ok (- 1)
    | Some _ \<Rightarrow> tls_wait (cx_sockfd ctx) Direction_Write timeout_ms)"

definition tls_poll_read :: "int \<Rightarrow> ('s tls_world_scheme, int) prog" where
  "tls_poll_read timeout_ms = with_context (\<lambda>ctx. ctx_poll_read ctx timeout_ms)"

definition tls_poll_write :: "int \<Rightarrow> ('s tls_world_scheme, int) prog" where
  "tls_poll_write timeout_ms = with_context (\<lambda>ctx. ctx_poll_write ctx timeout_ms)"

subsection \<open>Reading and writing\<close>

text \<open>
  A read answers bytes, or \<open>Inl\<close> a negative number. A ticket that is due is looked for after
  every one.
\<close>

definition take_ticket :: "nat \<Rightarrow> tls_context \<Rightarrow> ('s tls_world_scheme, unit) prog" where
  "take_ticket tls ctx =
     andthen (build_has (\<lambda>b. bd_tickets b \<and> bd_tls13 b)) (\<lambda>both.
     case (if both then cx_ticket_due ctx else None) of
       None \<Rightarrow> ok ()
     | Some handshake \<Rightarrow>
         andthen (save_session tls) (\<lambda>ticket. case ticket of
           None \<Rightarrow> ok ()
         | Some bs \<Rightarrow>
             andthen (set_session (store bs handshake)) (\<lambda>_.
             set_context (\<lambda>c. c\<lparr>cx_ticket_due := None\<rparr>))))"

definition read_answer :: "nat \<Rightarrow> int + bytes \<Rightarrow> ('s tls_world_scheme, int + bytes) prog" where
  "read_answer tls r =
     andthen (gets (\<lambda>s. nt_codes (nw_net s))) (\<lambda>C. case r of
       Inl n \<Rightarrow>
         if n = ec_want_read C \<or> n = ec_ssl_timeout C then ok (Inl (ec_timeout C))
         else andthen (report_tls_error tls) (\<lambda>_. ok (Inl n))
     | Inr bs \<Rightarrow> ok (if bs = [] then Inl (ec_closed_by_fin C) else Inr bs))"

definition tls_read :: "nat \<Rightarrow> int \<Rightarrow> ('s tls_world_scheme, int + bytes) prog" where
  "tls_read len timeout_ms =
     andthen (gets tw_context) (\<lambda>found. case found of
       None \<Rightarrow> ok (Inl (- 1))
     | Some ctx \<Rightarrow>
         andthen (gets (\<lambda>s. nt_codes (nw_net s))) (\<lambda>C.
         andthen (ctx_poll_read ctx timeout_ms) (\<lambda>p.
         if p < 0 then ok (Inl (ec_failed C))
         else if p = 0 then ok (Inl (ec_timeout C))
         else case cx_tls ctx of
             None \<Rightarrow> ok (Inl (ec_failed C))
           | Some tls \<Rightarrow>
               andthen (net_ask (\<lambda>N h. nt_tls_read N h tls len) (Net_TlsRead tls len)) (\<lambda>r.
               andthen (take_ticket tls ctx) (\<lambda>_.
               read_answer tls r)))))"

definition tls_write :: "bytes \<Rightarrow> int \<Rightarrow> ('s tls_world_scheme, int) prog" where
  "tls_write bs timeout_ms =
     with_context (\<lambda>ctx.
     andthen (ctx_poll_write ctx timeout_ms) (\<lambda>ready.
     if ready \<le> 0 then ok ready
     else case cx_tls ctx of
         None \<Rightarrow> ok (- 1)
       | Some tls \<Rightarrow>
           andthen (net_ask (\<lambda>N h. nt_tls_write N h tls bs) (Net_TlsWrite tls bs)) (\<lambda>n.
           andthen (only_if (n < 0) (report_tls_error tls)) (\<lambda>_. ok n))))"

definition tls_close :: "('s tls_world_scheme, int) prog" where
  "tls_close =
     andthen (gets tw_context) (\<lambda>found. case found of
       None \<Rightarrow> ok 0
     | Some ctx \<Rightarrow> andthen (ctx_close ctx) (\<lambda>_. ok 0))"

definition tls_destroy :: "('s tls_world_scheme, int) prog" where
  "tls_destroy =
     andthen (gets tw_context) (\<lambda>found. case found of
       None \<Rightarrow> ok 0
     | Some ctx \<Rightarrow>
         andthen (ctx_close ctx) (\<lambda>_.
         andthen (modify (\<lambda>s. s\<lparr>tw_context := None\<rparr>)) (\<lambda>_. ok 0)))"

text \<open>\<open>Stopper::stop\<close>, on the other thread: the flag, and the socket if one is published.\<close>

definition stopper_stop :: "('s tls_world_scheme, unit) prog" where
  "stopper_stop =
     andthen (net_tell Net_Stop) (\<lambda>_.
     andthen (gets tw_socket) (\<lambda>fd.
     only_if (0 \<le> fd) (net_tell (Net_Shutdown fd))))"

subsection \<open>Facts\<close>

lemma fd_contains_bit:
  "fd_contains (fds :: 'w::len word list) fd \<longleftrightarrow> 0 \<le> fd \<and>
     (let i = nat fd div LENGTH('w) in i < length fds \<and> bit (fds ! i) (nat fd mod LENGTH('w)))"
  by (auto simp: fd_contains_def Let_def bit_iff_and_push_bit_not_eq_0)

lemma fd_contains_add:
  fixes fds :: "'w::len word list"
  assumes "fd_add fds fd = (fds', True)"
  shows "fd_contains fds' g \<longleftrightarrow> g = fd \<or> fd_contains fds g"
proof -
  let ?i = "nat fd div LENGTH('w)" and ?k = "nat fd mod LENGTH('w)"
  have fd: "0 \<le> fd" "?i < length fds" "fds' = fds[?i := fds ! ?i OR push_bit ?k 1]"
    using assms by (auto simp: fd_add_def Let_def split: if_splits)
  have same: "g = fd \<longleftrightarrow> nat g div LENGTH('w) = ?i \<and> nat g mod LENGTH('w) = ?k" if "0 \<le> g"
    using that fd(1) by (metis div_mult_mod_eq eq_nat_nat_iff)
  have k: "bit (push_bit ?k (1 :: 'w word)) m \<longleftrightarrow> m = ?k" if "m < LENGTH('w)" for m
    using that by (auto simp: bit_exp_iff)
  show ?thesis
  proof (cases "0 \<le> g")
    case True
    then show ?thesis
      using fd same [OF True] k [of "nat g mod LENGTH('w)"]
      by (auto simp: fd_contains_bit Let_def nth_list_update bit_or_iff)
  next
    case False
    then show ?thesis using fd by (auto simp: fd_contains_bit)
  qed
qed

end
