(* ===== verification/TlsSafety.thy ===== *)
theory TlsSafety
  imports Tls
begin

text \<open>
  What the callbacks of \<open>src/tls.rs\<close> keep, whatever the libraries below answer and in any order:
  every handle of a connection is destroyed once and not used afterwards, and the session saved is
  offered at most once more after it failed.
\<close>

subsection \<open>What a connection's functions do with its handle\<close>

text \<open>The handle a call is on, and whether a call makes or destroys one.\<close>

fun on_handle :: "net_call \<Rightarrow> nat option" where
  "on_handle (Net_Handshake t _ _ _ _) = Some t"
| "on_handle (Net_SocketOf t _) = Some t"
| "on_handle (Net_TlsDestroy t) = Some t"
| "on_handle (Net_TlsRead t _ _) = Some t"
| "on_handle (Net_TlsWrite t _ _) = Some t"
| "on_handle (Net_BytesAvail t _) = Some t"
| "on_handle (Net_ErrorHandle t _) = Some t"
| "on_handle (Net_SessionOf t _) = Some t"
| "on_handle (Net_Version t _) = Some t"
| "on_handle (Net_PeerCert t _) = Some t"
| "on_handle _ = None"

fun handles_after :: "net_call \<Rightarrow> nat list \<Rightarrow> nat list" where
  "handles_after (Net_TlsInit (Some t)) live = t # live"
| "handles_after (Net_TlsDestroy t) live = remove1 t live"
| "handles_after _ live = live"

text \<open>
  The rules of the handles: every call is on one that was made and not yet destroyed.
\<close>

primrec handles_used :: "nat list \<Rightarrow> net_call list \<Rightarrow> bool" where
  "handles_used live [] = True"
| "handles_used live (c # cs) =
     ((case on_handle c of None \<Rightarrow> True | Some t \<Rightarrow> t \<in> set live) \<and> handles_used (handles_after c live) cs)"

definition handles_live :: "net_call list \<Rightarrow> nat list" where
  "handles_live cs = fold handles_after cs []"

lemma handles_used_append:
  "handles_used live (a @ b) \<longleftrightarrow> handles_used live a \<and> handles_used (fold handles_after a live) b"
  by (induction a arbitrary: live) simp_all

text \<open>A run about one handle: it makes none, destroys none and uses no other.\<close>

definition about_call :: "nat \<Rightarrow> net_call \<Rightarrow> bool" where
  "about_call tls c \<longleftrightarrow> (case on_handle c of None \<Rightarrow> True | Some t \<Rightarrow> t = tls) \<and>
     (case c of Net_TlsInit _ \<Rightarrow> False | Net_TlsDestroy _ \<Rightarrow> False | _ \<Rightarrow> True)"

definition about :: "nat \<Rightarrow> 's tls_world_scheme \<Rightarrow> 's tls_world_scheme \<Rightarrow> bool" where
  "about tls s t \<longleftrightarrow> (\<exists>new. nw_calls t = nw_calls s @ new \<and> list_all (about_call tls) new) \<and>
     map_option cx_tls (tw_context t) = map_option cx_tls (tw_context s) \<and>
     tw_socket t = tw_socket s"

lemma about_trans:
  assumes "about tls s t" and "about tls t u"
  shows "about tls s u"
proof -
  from assms(1) obtain a where a: "nw_calls t = nw_calls s @ a" "list_all (about_call tls) a"
    unfolding about_def by blast
  from assms(2) obtain b where b: "nw_calls u = nw_calls t @ b" "list_all (about_call tls) b"
    unfolding about_def by blast
  have "nw_calls u = nw_calls s @ (a @ b) \<and> list_all (about_call tls) (a @ b)"
    using a b by simp
  with assms show ?thesis unfolding about_def by metis
qed

interpretation about: run_relation "about tls"
  by unfold_locales (simp add: about_def, rule about_trans)

lemma about_ask: "(\<And>a. about_call tls (ev a)) \<Longrightarrow> stays (about tls) (net_ask f ev)"
  by (rule staysI) (auto simp: net_ask_run about_def)

lemma about_tell: "about_call tls c \<Longrightarrow> stays (about tls) (net_tell c)"
  by (rule staysI) (auto simp: net_tell_run about_def)

lemma about_modify: "(\<And>s. about tls s (g s)) \<Longrightarrow> stays (about tls) (modify g)"
  by (rule staysI) (auto simp: prog_run)

lemma about_set_context: "(\<And>c. cx_tls (g c) = cx_tls c) \<Longrightarrow> stays (about tls) (set_context g)"
  unfolding set_context_def by (rule about_modify) (simp add: about_def option.map_comp comp_def)

lemma about_set_session: "stays (about tls) (set_session g)"
  unfolding set_session_def by (rule about_modify) (simp add: about_def)

lemmas about_rules = about.stays_rules about_ask about_tell about_set_context about_set_session

lemma about_report: "stays (about tls) (report_tls_error tls)"
  unfolding report_tls_error_def
  by (auto intro!: about_rules simp: about_call_def split: prod.split)

lemma about_redate: "stays (about tls) (redate_if ses to)"
  unfolding redate_if_def redate_ticket_def build_has_def Let_def
  by (auto intro!: about_rules simp: about_call_def split: prod.split if_splits)

lemma about_load: "stays (about tls) (load_session bs)"
  unfolding load_session_def
  by (auto intro!: about_rules about_redate simp: about_call_def split: sum.split)

lemma about_save: "stays (about tls) (save_session tls)"
  unfolding save_session_def
  by (auto intro!: about_rules about_redate simp: about_call_def split: option.split prod.split)

lemma about_offer: "stays (about tls) offer_session"
  unfolding offer_session_def build_has_def
  by (auto intro!: about_rules about_load split: option.split)

lemma about_shake: "stays (about tls) (shake_hands tls host port loaded)"
  unfolding shake_hands_def
  by (auto intro!: about_rules simp: about_call_def split: option.split)

lemma about_crash: "stays (about tls) (\<lambda>_. None)"
  by (simp add: stays_def)

lemma about_settled:
  "stays (about tls) (tls_protocol tls)" "stays (about tls) (is_tls13 tls)"
  "stays (about tls) (tls13_handshake tls was_offered)"
  unfolding tls_protocol_def is_tls13_def tls13_handshake_def
  by (auto intro!: about_rules about_crash simp: about_call_def split: option.split)

lemma about_keep: "stays (about tls) (keep_session tls was_offered)"
  unfolding keep_session_def settled_tls13_def await_ticket_def store_fresh_def build_has_def
  by (auto intro!: about_rules about_settled about_save split: option.split)

lemma about_wait: "stays (about tls) (tls_wait fd dir ms)"
  unfolding tls_wait_def select_once_def Let_def
  by (auto intro!: about_rules simp: about_call_def split: prod.split)

lemma about_polls:
  "cx_tls ctx = Some tls \<Longrightarrow> stays (about tls) (ctx_poll_read ctx ms)"
  "stays (about tls) (ctx_poll_write ctx ms)"
  unfolding ctx_poll_read_def ctx_poll_write_def
  by (auto intro!: about_rules about_wait simp: about_call_def split: option.split)

lemma about_ticket: "stays (about tls) (take_ticket tls ctx)"
  unfolding take_ticket_def build_has_def
  by (auto intro!: about_rules about_save split: option.split)

lemma about_answer: "stays (about tls) (read_answer tls r)"
  unfolding read_answer_def
  by (auto intro!: about_rules about_report split: sum.split)

subsection \<open>No handle is used after it is destroyed, or leaked\<close>

definition connection :: "'s tls_world_scheme \<Rightarrow> nat option" where
  "connection s = Option.bind (tw_context s) cx_tls"

definition handles_ok :: "nat list \<Rightarrow> 's tls_world_scheme \<Rightarrow> bool" where
  "handles_ok live s \<longleftrightarrow> handles_used [] (nw_calls s) \<and> handles_live (nw_calls s) = live"

text \<open>
  Between callbacks: the handles made and not destroyed are the connection's, and a socket is
  published only while there is one.
\<close>

definition tls_ok :: "'s tls_world_scheme \<Rightarrow> bool" where
  "tls_ok s \<longleftrightarrow> handles_ok (case connection s of None \<Rightarrow> [] | Some tls \<Rightarrow> [tls]) s \<and>
     (0 \<le> tw_socket s \<longrightarrow> connection s \<noteq> None)"

lemma about_calls_handles:
  "list_all (about_call tls) new \<Longrightarrow> fold handles_after new live = live \<and>
     (tls \<in> set live \<longrightarrow> handles_used live new)"
proof (induction new)
  case (Cons c new)
  then have "handles_after c live = live"
    by (cases c) (auto simp: about_call_def)
  with Cons show ?case by (auto simp: about_call_def split: option.splits)
qed simp

lemma about_handles:
  assumes "about tls s t" and "handles_ok live s" and "tls \<in> set live"
  shows "handles_ok live t"
  using assms about_calls_handles [of tls _ live]
  by (auto simp: about_def handles_ok_def handles_used_append handles_live_def)

lemma about_connection: "about tls s t \<Longrightarrow> connection t = connection s"
  by (auto simp: about_def connection_def bind_eq_Some_conv map_option_case split: option.splits)

lemma about_tls_ok:
  assumes "stays (about tls) m" and "m s = Some (r, t)" and "tls_ok s" and "connection s = Some tls"
  shows "tls_ok t \<and> connection t = Some tls"
proof -
  have a: "about tls s t" using assms(1,2) by (rule staysD)
  with assms(3,4) about_handles [OF a, of "[tls]"] about_connection [OF a]
  show ?thesis by (auto simp: tls_ok_def about_def)
qed

lemma ctx_close_ok:
  assumes "tls_ok s" and "tw_context s = Some ctx"
  shows "\<exists>t c. ctx_close ctx s = Some (Inr (), t) \<and> tls_ok t \<and> tw_context t = Some c \<and>
    cx_tls c = None \<and> tw_socket t = - 1 \<and> nw_net t = nw_net s \<and> tw_session t = tw_session s"
proof (cases "cx_tls ctx")
  case None
  with assms show ?thesis
    by (auto simp: ctx_close_def set_socket_def set_context_def prog_simps tls_ok_def connection_def
        handles_ok_def)
next
  case (Some tls)
  with assms show ?thesis
    by (auto simp: ctx_close_def set_socket_def set_context_def prog_simps tls_ok_def connection_def
        handles_ok_def handles_used_append handles_live_def)
qed

text \<open>While a connection is being made: its handle is live, and not yet the context's.\<close>

definition connecting :: "nat \<Rightarrow> 's tls_world_scheme \<Rightarrow> bool" where
  "connecting tls s \<longleftrightarrow> handles_ok [tls] s \<and> map_option cx_tls (tw_context s) = Some None \<and> tw_socket s = - 1"

lemma about_connecting:
  assumes "stays (about tls) m" and "m s = Some (r, t)" and "connecting tls s"
  shows "connecting tls t"
proof -
  have a: "about tls s t" using assms(1,2) by (rule staysD)
  with assms(3) about_handles [OF a, of "[tls]"] show ?thesis by (auto simp: connecting_def about_def)
qed

lemma connecting_destroyed:
  "connecting tls s \<Longrightarrow> tls_ok (s\<lparr>nw_calls := nw_calls s @ [Net_TlsDestroy tls]\<rparr>)"
  by (auto simp: connecting_def tls_ok_def handles_ok_def handles_used_append handles_live_def connection_def)

subsection \<open>Every callback answers\<close>

text \<open>
  None of them fails or panics, as long as mbedTLS names the version of a connection it has a
  context for, as its documentation says.
\<close>

definition versions_named :: "net \<Rightarrow> bool" where
  "versions_named N \<longleftrightarrow> (\<forall>h tls. nt_version N h tls \<noteq> Some None)"

definition answers :: "('s net_world_scheme, 'a) prog \<Rightarrow> bool" where
  "answers m \<longleftrightarrow> (\<forall>s. versions_named (nw_net s) \<longrightarrow>
     (\<exists>a t. m s = Some (Inr a, t) \<and> nw_net t = nw_net s))"

lemma answersE:
  assumes "answers m" and "versions_named (nw_net s)"
  obtains a t where "m s = Some (Inr a, t)" and "nw_net t = nw_net s" and "versions_named (nw_net t)"
  using assms by (fastforce simp: answers_def)

lemma answers_ok: "answers (ok a)" "answers (gets f)"
  by (simp_all add: answers_def prog_run)

lemma answers_ask: "answers (net_ask f ev)" "answers (net_tell c)"
  by (simp_all add: answers_def net_ask_run net_tell_run)

lemma answers_modify: "(\<And>s. nw_net (g s) = nw_net s) \<Longrightarrow> answers (modify g)"
  by (simp add: answers_def prog_run)

lemma answers_andthen:
  assumes "answers m" and "\<And>a. answers (f a)"
  shows "answers (andthen m f)"
  unfolding answers_def
proof (intro allI impI)
  fix s :: "'a net_world_scheme"
  assume "versions_named (nw_net s)"
  then obtain a t where "m s = Some (Inr a, t)" "nw_net t = nw_net s" "versions_named (nw_net t)"
    by (rule answersE [OF assms(1)])
  moreover from this obtain b u where "f a t = Some (Inr b, u)" "nw_net u = nw_net t"
    using answersE [OF assms(2)] by metis
  ultimately show "\<exists>b u. andthen m f s = Some (Inr b, u) \<and> nw_net u = nw_net s"
    by (auto simp: andthen_run)
qed

lemma answers_only_if: "answers m \<Longrightarrow> answers (only_if c m)"
  by (cases c) (simp_all add: answers_ok)

lemma answers_sets: "answers (set_context g)" "answers (set_session f)" "answers (set_socket fd)"
  unfolding set_context_def set_session_def set_socket_def by (simp_all add: answers_modify)

lemmas answers_rules = answers_ok answers_ask answers_andthen answers_only_if answers_sets

lemma answers_report: "answers (report_tls_error tls)"
  unfolding report_tls_error_def by (auto intro!: answers_rules split: prod.split)

lemma answers_redate: "answers (redate_if ses to)"
  unfolding redate_if_def redate_ticket_def build_has_def Let_def
  by (auto intro!: answers_rules split: prod.split if_splits)

lemma answers_load: "answers (load_session bs)"
  unfolding load_session_def by (auto intro!: answers_rules answers_redate split: sum.split)

lemma answers_save: "answers (save_session tls)"
  unfolding save_session_def
  by (auto intro!: answers_rules answers_redate split: option.split prod.split)

lemma answers_offer: "answers offer_session"
  unfolding offer_session_def build_has_def
  by (auto intro!: answers_rules answers_load split: option.split)

lemma answers_shake: "answers (shake_hands tls host port loaded)"
  unfolding shake_hands_def by (auto intro!: answers_rules split: option.split)

lemma answers_settled:
  "answers (tls_protocol tls)" "answers (is_tls13 tls)" "answers (tls13_handshake tls w)"
proof -
  show "answers (is_tls13 tls)"
    by (auto simp: answers_def is_tls13_def andthen_net_ask versions_named_def prog_run split: option.split)
qed (auto simp: tls_protocol_def tls13_handshake_def intro!: answers_rules)

lemma answers_keep: "answers (keep_session tls w)"
  unfolding keep_session_def settled_tls13_def await_ticket_def store_fresh_def build_has_def
  by (auto intro!: answers_rules answers_settled answers_save split: option.split)

lemma answers_wait: "answers (tls_wait fd dir ms)"
  unfolding tls_wait_def select_once_def Let_def
  by (auto intro!: answers_rules split: prod.split)

lemma answers_polls: "answers (ctx_poll_read ctx ms)" "answers (ctx_poll_write ctx ms)"
  unfolding ctx_poll_read_def ctx_poll_write_def
  by (auto intro!: answers_rules answers_wait split: option.split)

lemma answers_ticket: "answers (take_ticket tls ctx)"
  unfolding take_ticket_def build_has_def
  by (auto intro!: answers_rules answers_save split: option.split)

lemma answers_answer: "answers (read_answer tls r)"
  unfolding read_answer_def by (auto intro!: answers_rules answers_report split: sum.split)

text \<open>So a part of a callback that is about its handle runs, and keeps what held before it.\<close>

lemma runs_connecting:
  assumes "answers m" and "stays (about tls) m" and "versions_named (nw_net s)" and "connecting tls s"
  obtains a t where "m s = Some (Inr a, t)" and "versions_named (nw_net t)" and "connecting tls t"
  using answersE [OF assms(1,3)] about_connecting [OF assms(2) _ assms(4)] by metis

lemma runs_connected:
  assumes "answers m" and "stays (about tls) m" and "versions_named (nw_net s)" and "tls_ok s"
    and "connection s = Some tls"
  obtains a t where "m s = Some (Inr a, t)" and "versions_named (nw_net t)" and "tls_ok t"
    and "connection t = Some tls"
  using answersE [OF assms(1,3)] about_tls_ok [OF assms(2) _ assms(4,5)] by metis

definition callback_ok :: "('s tls_world_scheme, 'a) prog \<Rightarrow> bool" where
  "callback_ok m \<longleftrightarrow> (\<forall>s. versions_named (nw_net s) \<longrightarrow> tls_ok s \<longrightarrow>
     (\<exists>a t. m s = Some (Inr a, t) \<and> versions_named (nw_net t) \<and> tls_ok t))"

lemma connect_failed:
  assumes "versions_named (nw_net s)" and "connecting tls s"
  shows "\<exists>t. andthen (report_tls_error tls) (\<lambda>_. andthen (net_tell (Net_TlsDestroy tls)) (\<lambda>_.
      andthen (only_if w (set_session forget)) (\<lambda>_. ok (- 1)))) s = Some (Inr (- 1), t) \<and>
    versions_named (nw_net t) \<and> tls_ok t"
proof -
  obtain a u where u: "report_tls_error tls s = Some (Inr a, u)" "versions_named (nw_net u)"
      "connecting tls u"
    by (rule runs_connecting [OF answers_report about_report assms])
  let ?v = "u\<lparr>nw_calls := nw_calls u @ [Net_TlsDestroy tls]\<rparr>"
  have "tls_ok ?v" using connecting_destroyed [OF u(3)] .
  then show ?thesis
    using u by (cases w) (auto simp: andthen_run net_tell_run prog_run set_session_def tls_ok_def
        handles_ok_def connection_def)
qed

lemma connect_with_ok:
  assumes "versions_named (nw_net s)" and "connecting tls s"
  shows "\<exists>n t. connect_with tls host port s = Some (Inr n, t) \<and> versions_named (nw_net t) \<and> tls_ok t"
proof -
  obtain a s1 where s1: "offer_session s = Some (Inr a, s1)" "versions_named (nw_net s1)" "connecting tls s1"
    by (rule runs_connecting [OF answers_offer about_offer assms(1,2)])
  obtain w l where a: "a = (w, l)" by fastforce
  obtain n s2 where s2: "shake_hands tls host port l s1 = Some (Inr n, s2)" "versions_named (nw_net s2)"
      "connecting tls s2"
    by (rule runs_connecting [OF answers_shake about_shake s1(2,3)])
  have run: "connect_with tls host port s = after_handshake tls w n s2"
    using s1 s2 by (simp add: connect_with_def andthen_run a)
  show ?thesis
  proof (cases "n \<le> 0")
    case True
    then show ?thesis
      using run connect_failed [OF s2(2,3), of "w \<noteq> None"] by (simp only: after_handshake_def if_True) blast
  next
    case False
    let ?r = "nt_socket_of (nw_net s2) (nw_calls s2) tls"
    let ?s3 = "s2\<lparr>nw_calls := nw_calls s2 @ [Net_SocketOf tls ?r]\<rparr>"
    have s3: "connecting tls ?s3"
      using s2(3) by (simp add: connecting_def handles_ok_def handles_used_append handles_live_def connection_def)
    show ?thesis
    proof (cases ?r)
      case (Inl e)
      then show ?thesis using run False s2 connecting_destroyed [OF s3] by (auto simp: after_handshake_def
          andthen_net_ask andthen_net_tell prog_run)
    next
      case (Inr fd)
      obtain c where c: "tw_context s2 = Some c" using s2(3) by (auto simp: connecting_def)
      let ?s4 = "?s3\<lparr>tw_context := Some (c\<lparr>cx_sockfd := fd, cx_tls := Some tls\<rparr>), tw_socket := fd\<rparr>"
      have s4: "tls_ok ?s4" "connection ?s4 = Some tls" "versions_named (nw_net ?s4)"
        using s3 s2(2) by (simp_all add: tls_ok_def connecting_def connection_def handles_ok_def)
      obtain b u where "keep_session tls w ?s4 = Some (Inr b, u)" "versions_named (nw_net u)" "tls_ok u"
        by (rule runs_connected [OF answers_keep about_keep s4(3,1,2)])
      with run False Inr c show ?thesis
        by (auto simp: after_handshake_def andthen_net_ask andthen_modify set_context_def set_socket_def)
    qed
  qed
qed

lemma ctx_close_runs:
  assumes "versions_named (nw_net s)" and "tls_ok s" and "tw_context s = Some ctx"
  obtains t c where "ctx_close ctx s = Some (Inr (), t)" and "versions_named (nw_net t)" and "tls_ok t"
    and "tw_context t = Some c" and "cx_tls c = None" and "tw_socket t = - 1"
  using ctx_close_ok [OF assms(2,3)] assms(1) by auto

lemma tls_connect_ok: "callback_ok (tls_connect host port ms)"
  unfolding callback_ok_def
proof (intro allI impI)
  fix s :: "'a tls_world_scheme"
  assume s: "versions_named (nw_net s)" "tls_ok s"
  show "\<exists>n t. tls_connect host port ms s = Some (Inr n, t) \<and> versions_named (nw_net t) \<and> tls_ok t"
  proof (cases "tw_context s")
    case None
    with s show ?thesis by (auto simp: tls_connect_def with_context_def prog_simps)
  next
    case (Some ctx)
    obtain t c where t: "ctx_close ctx s = Some (Inr (), t)" "versions_named (nw_net t)" "tls_ok t"
        "tw_context t = Some c" "cx_tls c = None" "tw_socket t = - 1"
      by (rule ctx_close_runs [OF s Some])
    let ?stop = "nt_stopping (nw_net t) (nw_calls t)"
    let ?t1 = "t\<lparr>nw_calls := nw_calls t @ [Net_Stopping ?stop]\<rparr>"
    have t1: "tls_ok ?t1"
      using t(3) by (simp add: tls_ok_def handles_ok_def handles_used_append handles_live_def connection_def)
    show ?thesis
    proof (cases ?stop)
      case True
      then show ?thesis
        using Some t t1 by (auto simp: tls_connect_def with_context_def andthen_run prog_simps)
    next
      case False
      let ?t2 = "?t1\<lparr>tw_context := Some (c\<lparr>cx_cfg := (cx_cfg c)\<lparr>cf_timeout_ms := ms\<rparr>\<rparr>)\<rparr>"
      let ?init = "nt_tls_init (nw_net t) (nw_calls ?t1)"
      let ?t3 = "?t2\<lparr>nw_calls := nw_calls ?t1 @ [Net_TlsInit ?init]\<rparr>"
      have run: "tls_connect host port ms s = (case ?init of
          None \<Rightarrow> Some (Inr (- 1), ?t3) | Some tls \<Rightarrow> connect_with tls host port ?t3)"
        using Some t False
        by (simp add: tls_connect_def with_context_def andthen_run prog_simps set_context_def split: option.split)
      show ?thesis
      proof (cases ?init)
        case None
        moreover have "tls_ok ?t3"
          using t t1 None by (simp add: tls_ok_def handles_ok_def handles_used_append handles_live_def connection_def)
        ultimately show ?thesis using run t(2) by simp
      next
        case init: (Some tls)
        have "connecting tls ?t3"
          using t(3,4,5,6) init by (simp add: tls_ok_def connecting_def handles_ok_def handles_used_append
              handles_live_def connection_def)
        then show ?thesis using run init connect_with_ok [of ?t3 tls host port] t(2) by simp
      qed
    qed
  qed
qed

lemma callback_closeI:
  assumes "m = andthen (gets tw_context) (\<lambda>c. case c of None \<Rightarrow> ok x | Some ctx \<Rightarrow> f ctx)"
    and "\<And>s ctx. versions_named (nw_net s) \<Longrightarrow> tls_ok s \<Longrightarrow> tw_context s = Some ctx \<Longrightarrow>
      \<exists>a t. f ctx s = Some (Inr a, t) \<and> versions_named (nw_net t) \<and> tls_ok t"
  shows "callback_ok m"
  unfolding callback_ok_def
proof (intro allI impI)
  fix s :: "'a tls_world_scheme"
  assume "versions_named (nw_net s)" "tls_ok s"
  then show "\<exists>a t. m s = Some (Inr a, t) \<and> versions_named (nw_net t) \<and> tls_ok t"
    using assms(2) [of s] by (cases "tw_context s") (simp_all add: assms(1) andthen_run prog_run)
qed

lemma callback_about:
  assumes "versions_named (nw_net s)" and "tls_ok s" and "tw_context s = Some ctx"
    and "cx_tls ctx = None \<Longrightarrow> \<exists>a. f s = Some (Inr a, s)"
    and "\<And>tls. cx_tls ctx = Some tls \<Longrightarrow> answers f \<and> stays (about tls) f"
  shows "\<exists>a t. f s = Some (Inr a, t) \<and> versions_named (nw_net t) \<and> tls_ok t"
proof (cases "cx_tls ctx")
  case None
  then show ?thesis using assms by metis
next
  case (Some tls)
  with assms(3) have "connection s = Some tls" by (simp add: connection_def)
  then show ?thesis using runs_connected [of f tls s] assms(1,2) assms(5) [OF Some] by metis
qed

lemma no_connection_polls:
  assumes "cx_tls ctx = None"
  shows "ctx_poll_read ctx ms s = Some (Inr (- 1), s)" "ctx_poll_write ctx ms s = Some (Inr (- 1), s)"
  using assms by (simp_all add: ctx_poll_read_def ctx_poll_write_def prog_run)

lemma tls_poll_read_ok: "callback_ok (tls_poll_read ms)"
proof (rule callback_closeI [OF tls_poll_read_def [unfolded with_context_def]])
  fix s :: "'a tls_world_scheme" and ctx
  assume s: "versions_named (nw_net s)" "tls_ok s" "tw_context s = Some ctx"
  show "\<exists>a t. ctx_poll_read ctx ms s = Some (Inr a, t) \<and> versions_named (nw_net t) \<and> tls_ok t"
    by (rule callback_about [OF s]) (simp_all add: no_connection_polls answers_polls about_polls)
qed

lemma tls_poll_write_ok: "callback_ok (tls_poll_write ms)"
proof (rule callback_closeI [OF tls_poll_write_def [unfolded with_context_def]])
  fix s :: "'a tls_world_scheme" and ctx
  assume s: "versions_named (nw_net s)" "tls_ok s" "tw_context s = Some ctx"
  show "\<exists>a t. ctx_poll_write ctx ms s = Some (Inr a, t) \<and> versions_named (nw_net t) \<and> tls_ok t"
    by (rule callback_about [OF s]) (simp_all add: no_connection_polls answers_polls about_polls)
qed

lemma tls_read_ok: "callback_ok (tls_read len ms)"
proof (rule callback_closeI [OF tls_read_def], rule callback_about, assumption, assumption, assumption)
  fix s :: "'a tls_world_scheme" and ctx
  show "cx_tls ctx = None \<Longrightarrow> \<exists>a. andthen (gets (\<lambda>s. nt_codes (nw_net s))) (\<lambda>C.
      andthen (ctx_poll_read ctx ms) (\<lambda>p.
      if p < 0 then ok (Inl (ec_failed C))
      else if p = 0 then ok (Inl (ec_timeout C))
      else case cx_tls ctx of
          None \<Rightarrow> ok (Inl (ec_failed C))
        | Some tls \<Rightarrow>
            andthen (net_ask (\<lambda>N h. nt_tls_read N h tls len) (Net_TlsRead tls len)) (\<lambda>r.
            andthen (take_ticket tls ctx) (\<lambda>_. read_answer tls r)))) s = Some (Inr a, s)"
    by (simp add: andthen_run prog_run no_connection_polls)
qed (auto intro!: answers_rules answers_polls answers_ticket answers_answer about_rules about_polls about_ticket
    about_answer simp: about_call_def split: option.split)

lemma tls_write_ok: "callback_ok (tls_write bs ms)"
proof (rule callback_closeI [OF tls_write_def [unfolded with_context_def]], rule callback_about,
    assumption, assumption, assumption)
  fix s :: "'a tls_world_scheme" and ctx
  show "cx_tls ctx = None \<Longrightarrow> \<exists>a. andthen (ctx_poll_write ctx ms) (\<lambda>ready.
      if ready \<le> 0 then ok ready
      else case cx_tls ctx of
          None \<Rightarrow> ok (- 1)
        | Some tls \<Rightarrow>
            andthen (net_ask (\<lambda>N h. nt_tls_write N h tls bs) (Net_TlsWrite tls bs)) (\<lambda>n.
            andthen (only_if (n < 0) (report_tls_error tls)) (\<lambda>_. ok n))) s = Some (Inr a, s)"
    by (simp add: andthen_run prog_run no_connection_polls)
qed (auto intro!: answers_rules answers_polls answers_report about_rules about_polls about_report
    simp: about_call_def split: option.split)

lemma tls_close_ok: "callback_ok tls_close"
proof (rule callback_closeI [OF tls_close_def])
  fix s :: "'a tls_world_scheme" and ctx
  assume "versions_named (nw_net s)" "tls_ok s" "tw_context s = Some ctx"
  then show "\<exists>a t. andthen (ctx_close ctx) (\<lambda>_. ok 0) s = Some (Inr a, t) \<and>
      versions_named (nw_net t) \<and> tls_ok t"
    by (rule ctx_close_runs) (simp add: andthen_run prog_run)
qed

text \<open>Destroying leaves no handle.\<close>

lemma tls_destroy_runs:
  assumes "versions_named (nw_net s)" and "tls_ok s"
  shows "\<exists>t. tls_destroy s = Some (Inr 0, t) \<and> versions_named (nw_net t) \<and> tls_ok t \<and> tw_context t = None \<and>
    handles_live (nw_calls t) = []"
proof (cases "tw_context s")
  case None
  with assms show ?thesis
    by (simp add: tls_destroy_def prog_simps tls_ok_def connection_def handles_ok_def)
next
  case (Some ctx)
  obtain t c where t: "ctx_close ctx s = Some (Inr (), t)" "versions_named (nw_net t)" "tls_ok t"
      "tw_context t = Some c" "cx_tls c = None" "tw_socket t = - 1"
    by (rule ctx_close_runs [OF assms Some])
  with Some show ?thesis
    by (simp add: tls_destroy_def andthen_run prog_run tls_ok_def connection_def handles_ok_def)
qed

lemma tls_destroy_ok: "callback_ok tls_destroy"
  unfolding callback_ok_def using tls_destroy_runs by blast

lemma stopper_stop_ok: "callback_ok stopper_stop"
  unfolding callback_ok_def
  by (auto simp: stopper_stop_def prog_simps andthen_net_tell only_if_def net_tell_run tls_ok_def handles_ok_def
      handles_used_append handles_live_def connection_def)

subsection \<open>Any sequence of callbacks\<close>

datatype tls_op =
    Op_Connect string int int
  | Op_Receive nat int
  | Op_Write bytes int
  | Op_PollRead int
  | Op_PollWrite int
  | Op_Close
  | Op_Destroy
  | Op_Stop

definition tls_op :: "tls_op \<Rightarrow> ('s tls_world_scheme, unit) prog" where
  "tls_op op = (case op of
      Op_Connect host port ms \<Rightarrow> andthen (tls_connect host port ms) (\<lambda>_. ok ())
    | Op_Receive len ms \<Rightarrow> andthen (tls_read len ms) (\<lambda>_. ok ())
    | Op_Write bs ms \<Rightarrow> andthen (tls_write bs ms) (\<lambda>_. ok ())
    | Op_PollRead ms \<Rightarrow> andthen (tls_poll_read ms) (\<lambda>_. ok ())
    | Op_PollWrite ms \<Rightarrow> andthen (tls_poll_write ms) (\<lambda>_. ok ())
    | Op_Close \<Rightarrow> andthen tls_close (\<lambda>_. ok ())
    | Op_Destroy \<Rightarrow> andthen tls_destroy (\<lambda>_. ok ())
    | Op_Stop \<Rightarrow> stopper_stop)"

lemma callback_then_ok: "callback_ok m \<Longrightarrow> callback_ok (andthen m (\<lambda>_. ok ()))"
  by (fastforce simp: callback_ok_def andthen_run prog_run)

lemma tls_op_ok: "callback_ok (tls_op op)"
  by (cases op) (simp_all add: tls_op_def callback_then_ok tls_connect_ok tls_read_ok tls_write_ok
      tls_poll_read_ok tls_poll_write_ok tls_close_ok tls_destroy_ok stopper_stop_ok)

lemma tls_ops_ok:
  assumes "versions_named (nw_net s)" and "tls_ok s"
  shows "\<exists>t. for_each ops tls_op s = Some (Inr (), t) \<and> versions_named (nw_net t) \<and> tls_ok t"
  using assms
proof (induction ops arbitrary: s)
  case (Cons op ops)
  then obtain u t where "tls_op op s = Some (Inr u, t)" "versions_named (nw_net t)" "tls_ok t"
    using tls_op_ok [of op] by (auto simp: callback_ok_def)
  then show ?case using Cons.IH [of t] by (simp add: andthen_run)
qed (simp add: prog_run)

subsection \<open>What becomes of the session\<close>

text \<open>
  A run that leaves the saved session alone, and offers none: every part of a connection but the
  ones that store it.
\<close>

fun is_handshake :: "net_call \<Rightarrow> bool" where
  "is_handshake (Net_Handshake _ _ _ _ _) = True"
| "is_handshake _ = False"

definition handshakes :: "'s tls_world_scheme \<Rightarrow> net_call list" where
  "handshakes s = filter is_handshake (nw_calls s)"

text \<open>
  What the code judges a handshake by: the answers of \<open>mbedtls_ssl_session_save\<close>, of which the
  second has the bytes of a fresh session, as many as the first asked for, and, for TLS 1.3, whether
  the server showed a certificate.
\<close>

fun is_told :: "net_call \<Rightarrow> bool" where
  "is_told (Net_SessionSave _ _ _) = True"
| "is_told (Net_PeerCert _ _) = True"
| "is_told _ = False"

definition told :: "'s tls_world_scheme \<Rightarrow> net_call list" where
  "told s = filter is_told (nw_calls s)"

fun fresh_session :: "net_call list \<Rightarrow> bytes option" where
  "fresh_session [Net_SessionSave _ _ (_, need), Net_SessionSave _ _ (ret, out)] =
     (if ret = 0 then Some (take (length need) out) else None)"
| "fresh_session _ = None"

text \<open>What may be recorded of a handshake that gave no session to keep, by what was offered and asked.\<close>

fun judged :: "bytes option \<Rightarrow> handshake option \<Rightarrow> net_call list \<Rightarrow> handshake option set" where
  "judged _ _ [Net_PeerCert _ answer] = {Some (if answer = Some False then Resumed else Full)}"
| "judged was_offered before _ = (if was_offered = None then {before, Some Full} else {before})"

definition leaves_session :: "'s tls_world_scheme \<Rightarrow> 's tls_world_scheme \<Rightarrow> bool" where
  "leaves_session s t \<longleftrightarrow>
     saved (tw_session t) = saved (tw_session s) \<and> last_handshake (tw_session t) = last_handshake (tw_session s) \<and>
     nw_net t = nw_net s \<and> handshakes t = handshakes s \<and> told t = told s"

interpretation leaves_session: run_relation leaves_session
  by unfold_locales (simp_all add: leaves_session_def)

lemma leaves_ask: "(\<And>a. \<not> is_handshake (ev a) \<and> \<not> is_told (ev a)) \<Longrightarrow> stays leaves_session (net_ask f ev)"
  by (rule staysI) (auto simp: net_ask_run leaves_session_def handshakes_def told_def)

lemma leaves_tell: "\<not> is_handshake c \<and> \<not> is_told c \<Longrightarrow> stays leaves_session (net_tell c)"
  by (rule staysI) (auto simp: net_tell_run leaves_session_def handshakes_def told_def)

lemma leaves_sets: "stays leaves_session (set_context g)" "stays leaves_session (set_socket fd)"
  by (auto intro!: staysI simp: set_context_def set_socket_def prog_run leaves_session_def
      handshakes_def told_def)

lemma leaves_set_session: "(\<And>x. saved (f x) = saved x \<and> last_handshake (f x) = last_handshake x) \<Longrightarrow> stays leaves_session (set_session f)"
  by (auto intro!: staysI simp: set_session_def prog_run leaves_session_def handshakes_def told_def)

lemmas leaves_rules = leaves_session.stays_rules leaves_ask leaves_tell leaves_sets leaves_set_session

lemma leaves_redate: "stays leaves_session (redate_if ses to)"
  unfolding redate_if_def redate_ticket_def build_has_def Let_def
  by (auto intro!: leaves_rules split: prod.split if_splits)

lemma leaves_load: "stays leaves_session (load_session bs)"
  unfolding load_session_def by (auto intro!: leaves_rules leaves_redate split: sum.split)

lemma leaves_offer: "stays leaves_session offer_session"
  unfolding offer_session_def build_has_def
  by (auto intro!: leaves_rules leaves_load split: option.split)

lemma leaves_report: "stays leaves_session (report_tls_error tls)"
  unfolding report_tls_error_def by (auto intro!: leaves_rules split: prod.split)

lemma leaves_close: "stays leaves_session (ctx_close ctx)"
  unfolding ctx_close_def by (auto intro!: leaves_rules split: option.split)

lemma leaves_settled:
  "stays leaves_session (tls_protocol tls)" "stays leaves_session (is_tls13 tls)"
  unfolding tls_protocol_def is_tls13_def
  by (auto intro!: leaves_rules simp: stays_def [of _ "\<lambda>_. None"] split: option.split)

lemma load_session_context: "load_session bs s = Some (r, t) \<Longrightarrow> tw_context t = tw_context s"
  by (auto simp: load_session_def redate_if_def redate_ticket_def build_has_def prog_simps andthen_net_tell
      Let_def split: sum.splits if_splits prod.splits)

lemma offer_session_loads:
  assumes "offer_session s = Some (Inr (w, l), t)" and "bd_tickets (nt_build (nw_net s))"
    and "tw_context s = Some c"
  shows "w = saved (tw_session s) \<and> (w = None \<longrightarrow> l = None) \<and>
    tw_context t = Some (c\<lparr>cx_cfg := (cx_cfg c)\<lparr>cf_session := l\<rparr>\<rparr>)"
  using assms
  by (auto simp: offer_session_def build_has_def andthen_Inr prog_run set_context_def
      dest!: load_session_context split: option.splits)

lemma shake_hands_once:
  assumes "shake_hands tls host port l s = Some (Inr n, t)" and "tw_context s = Some c"
  shows "handshakes t = handshakes s @ [Net_Handshake tls (cx_cfg c) host port n] \<and>
    tw_session t = tw_session s \<and> nw_net t = nw_net s \<and> told t = told s"
  using assms
  by (cases l) (auto simp: shake_hands_def prog_simps set_context_def handshakes_def told_def net_tell_run
      only_if_def andthen_run)

lemma leaves_settled13: "stays leaves_session (settled_tls13 tls)"
  unfolding settled_tls13_def build_has_def
  by (auto intro!: leaves_rules leaves_settled simp: negotiated_def split: option.split)

text \<open>
  What a handshake that succeeded leaves: the session before, when esp-tls gave none, and then for
  TLS 1.3 the record that it was resumed exactly when one was offered and no certificate shown; or
  the fresh one it gave, recorded as resumed exactly when its bytes are those offered.
\<close>

definition keeps_or_stores :: "bytes option \<Rightarrow> 's tls_world_scheme \<Rightarrow> 's tls_world_scheme \<Rightarrow> bool" where
  "keeps_or_stores w s t \<longleftrightarrow> (\<exists>new. told t = told s @ new \<and> (case fresh_session new of
      None \<Rightarrow> saved (tw_session t) = saved (tw_session s) \<and>
        last_handshake (tw_session t) \<in> judged w (last_handshake (tw_session s)) new
    | Some bs \<Rightarrow> saved (tw_session t) = Some bs \<and>
        last_handshake (tw_session t) = Some (if w = Some bs then Resumed else Full)))"

lemma keeps_unchanged: "leaves_session s t \<Longrightarrow> keeps_or_stores w s t"
  by (auto simp: keeps_or_stores_def leaves_session_def intro!: exI [of _ "[]"])

lemma keeps_after: "leaves_session s u \<Longrightarrow> keeps_or_stores w u t \<Longrightarrow> keeps_or_stores w s t"
  by (simp only: keeps_or_stores_def leaves_session_def)

lemma judged_unrecorded: "length new \<noteq> 1 \<Longrightarrow> l \<in> judged w l new"
  by (cases "(w, l, new)" rule: judged.cases) auto

lemma redate_answers: "\<exists>ses' u. redate_if ses to s = Some (Inr ses', u)"
  by (cases "ms_tls13 ses \<and> ms_ticket ses")
    (auto simp: redate_if_def redate_ticket_def build_has_def prog_simps andthen_run Let_def split: ticket_clock.split)

text \<open>Asking for the session: nothing, or the two answers and the bytes they make.\<close>

lemma save_session_tells:
  assumes "save_session tls s = Some (r, t)"
  shows "\<exists>f new. r = Inr f \<and> told t = told s @ new \<and> fresh_session new = f \<and> length new \<noteq> 1 \<and>
    tw_session t = tw_session s \<and> nw_net t = nw_net s \<and> handshakes t = handshakes s"
proof (cases "nt_session_of (nw_net s) (nw_calls s) tls")
  case None
  then show ?thesis
    using assms by (auto simp: save_session_def andthen_net_ask prog_run told_def handshakes_def)
next
  case (Some ses)
  let ?s = "s\<lparr>nw_calls := nw_calls s @ [Net_SessionOf tls (Some ses)]\<rparr>"
  obtain ses' u where u: "redate_if ses TicketClock_Wall ?s = Some (Inr ses', u)"
    using redate_answers [of ses TicketClock_Wall ?s] by blast
  from staysD [OF leaves_redate u] have same: "told u = told s" "nw_net u = nw_net s" "handshakes u = handshakes s"
    by (simp_all add: leaves_session_def told_def handshakes_def)
  have session: "tw_session u = tw_session s"
    using u by (auto simp: redate_if_def redate_ticket_def build_has_def prog_simps Let_def split: if_splits)
  obtain r0 need where a: "nt_session_save (nw_net u) (nw_calls u) ses' 0 = (r0, need)" by fastforce
  obtain ret out where b: "nt_session_save (nw_net u) (nw_calls u @ [Net_SessionSave ses' 0 (r0, need)]) ses' (length need) = (ret, out)"
    by fastforce
  have "save_session tls s = Some (Inr (if ret = 0 then Some (take (length need) out) else None),
      u\<lparr>nw_calls := nw_calls u @ [Net_SessionSave ses' 0 (r0, need), Net_SessionSave ses' (length need) (ret, out), Net_SessionFree]\<rparr>)"
    using Some u a b by (simp add: save_session_def andthen_net_ask andthen_run andthen_net_tell net_ask_run net_tell_run ok_def)
  with assms same session show ?thesis
    by (auto simp: told_def handshakes_def)
qed

lemma store_fresh_saves:
  assumes "store_fresh tls w s = Some (r, t)"
  shows "handshakes t = handshakes s \<and> (\<forall>n. r = Inr n \<longrightarrow> n = 0) \<and> keeps_or_stores w s t"
proof (cases "bd_tickets (nt_build (nw_net s))")
  case False
  with assms show ?thesis by (auto simp: store_fresh_def build_has_def prog_simps keeps_or_stores_def)
next
  case True
  with assms obtain r0 u where save: "save_session tls s = Some (r0, u)"
    by (cases "save_session tls s") (auto simp: store_fresh_def build_has_def andthen_run prog_run)
  from save_session_tells [OF save] obtain f new where f: "r0 = Inr f" "told u = told s @ new" "fresh_session new = f"
    "length new \<noteq> 1" "tw_session u = tw_session s" "handshakes u = handshakes s" by blast
  have "andthen (case f of None \<Rightarrow> ok ()
      | Some bs \<Rightarrow> set_session (store bs (if w = Some bs then Resumed else Full))) (\<lambda>_. ok 0) u = Some (r, t)"
    using assms True save f(1) by (simp add: store_fresh_def build_has_def andthen_gets andthen_run [of "save_session _"])
  then show ?thesis
    using f by (cases f) (auto simp: prog_simps set_session_def store_def keeps_or_stores_def handshakes_def told_def
        judged_unrecorded)
qed

lemma await_ticket_records:
  assumes "await_ticket tls w s = Some (r, t)"
  shows "handshakes t = handshakes s \<and> (\<forall>n. r = Inr n \<longrightarrow> n = 0) \<and> keeps_or_stores w s t"
  using assms
  by (cases w) (auto simp: await_ticket_def tls13_handshake_def andthen_net_ask andthen_run net_ask_run prog_run set_session_def
      set_context_def record_handshake_def handshakes_def told_def keeps_or_stores_def)

lemma keep_session_saves:
  assumes "keep_session tls w s = Some (r, t)"
  shows "handshakes t = handshakes s \<and> (\<forall>n. r = Inr n \<longrightarrow> n = 0) \<and> keeps_or_stores w s t"
proof -
  from assms consider (failed) e where "settled_tls13 tls s = Some (Inl e, t)" "r = Inl e"
    | (tls13) u where "settled_tls13 tls s = Some (Inr True, u)" "await_ticket tls w u = Some (r, t)"
    | (tls12) u where "settled_tls13 tls s = Some (Inr False, u)" "store_fresh tls w u = Some (r, t)"
    by (auto simp: keep_session_def andthen_Some split: if_splits)
  then show ?thesis
  proof cases
    case failed
    then show ?thesis using staysD [OF leaves_settled13 failed(1)] keeps_unchanged
      by (auto simp: leaves_session_def)
  next
    case tls13
    then show ?thesis using staysD [OF leaves_settled13 tls13(1)] await_ticket_records [OF tls13(2)] keeps_after
      by (auto simp: leaves_session_def)
  next
    case tls12
    then show ?thesis using staysD [OF leaves_settled13 tls12(1)] store_fresh_saves [OF tls12(2)] keeps_after
      by (auto simp: leaves_session_def)
  qed
qed

text \<open>One attempt: what it offered, and what it leaves for the next.\<close>

definition attempt_ok :: "string \<Rightarrow> int \<Rightarrow> int \<Rightarrow> 's tls_world_scheme \<Rightarrow> int \<Rightarrow> 's tls_world_scheme \<Rightarrow> bool" where
  "attempt_ok host port ms s r t \<longleftrightarrow>
     (r = - 1 \<and> handshakes t = handshakes s \<and> saved (tw_session t) = saved (tw_session s)) \<or>
     (\<exists>tls cfg n. handshakes t = handshakes s @ [Net_Handshake tls cfg host port n] \<and>
        cf_timeout_ms cfg = ms \<and> (saved (tw_session s) = None \<longrightarrow> cf_session cfg = None) \<and>
        (if n \<le> 0 then r = - 1 \<and> saved (tw_session t) = None
         else (r = 0 \<or> r = - 1) \<and> keeps_or_stores (saved (tw_session s)) s t))"

lemma connect_with_attempt:
  assumes "connect_with tls host port s = Some (Inr r, t)" and "bd_tickets (nt_build (nw_net s))"
    and "tw_context s = Some c" and "cf_timeout_ms (cx_cfg c) = ms"
  shows "attempt_ok host port ms s r t"
proof -
  from assms(1) obtain w l s1 n s2 where
      off: "offer_session s = Some (Inr (w, l), s1)"
    and shake: "shake_hands tls host port l s1 = Some (Inr n, s2)"
    and rest: "after_handshake tls w n s2 = Some (Inr r, t)"
    by (auto simp: connect_with_def andthen_Inr)
  have l: "w = saved (tw_session s)" "w = None \<longrightarrow> l = None"
      "tw_context s1 = Some (c\<lparr>cx_cfg := (cx_cfg c)\<lparr>cf_session := l\<rparr>\<rparr>)"
    using offer_session_loads [OF off assms(2,3)] by auto
  have s1: "leaves_session s s1" using staysD [OF leaves_offer off] .
  have s2: "handshakes s2 = handshakes s @ [Net_Handshake tls ((cx_cfg c)\<lparr>cf_session := l\<rparr>) host port n]"
      "saved (tw_session s2) = saved (tw_session s)" "told s2 = told s"
      "last_handshake (tw_session s2) = last_handshake (tw_session s)"
    using shake_hands_once [OF shake l(3)] s1 by (auto simp: leaves_session_def)
  have cfg: "cf_timeout_ms ((cx_cfg c)\<lparr>cf_session := l\<rparr>) = ms"
      "saved (tw_session s) = None \<longrightarrow> cf_session ((cx_cfg c)\<lparr>cf_session := l\<rparr>) = None"
    using assms(4) l by auto
  show ?thesis
  proof (cases "n \<le> 0")
    case True
    with rest obtain u where u: "report_tls_error tls s2 = Some (Inr (), u)"
        and v: "andthen (net_tell (Net_TlsDestroy tls)) (\<lambda>_.
          andthen (only_if (w \<noteq> None) (set_session forget)) (\<lambda>_. ok (- 1))) u = Some (Inr r, t)"
      by (auto simp: after_handshake_def andthen_Inr)
    have u': "handshakes u = handshakes s2" "saved (tw_session u) = saved (tw_session s2)"
      using staysD [OF leaves_report u] by (auto simp: leaves_session_def)
    have w: "saved (tw_session u) = w" using u' s2 l by simp
    have "r = - 1 \<and> handshakes t = handshakes u \<and> saved (tw_session t) = None"
      using v w by (cases w) (auto simp: prog_simps andthen_net_tell andthen_run set_session_def
          forget_def handshakes_def)
    with True s2 cfg u' show ?thesis unfolding attempt_ok_def by auto
  next
    case False
    let ?sock = "nt_socket_of (nw_net s2) (nw_calls s2) tls"
    show ?thesis
    proof (cases ?sock)
      case (Inl e)
      with rest False have "r = - 1" "handshakes t = handshakes s2" "tw_session t = tw_session s2" "told t = told s2"
        by (auto simp: after_handshake_def prog_simps andthen_net_tell handshakes_def told_def)
      moreover from this s2 have "keeps_or_stores (saved (tw_session s)) s t"
        unfolding keeps_or_stores_def by (intro exI [of _ "[]"]) auto
      ultimately show ?thesis using False s2 cfg unfolding attempt_ok_def by auto
    next
      case (Inr fd)
      with rest False obtain s4 where s4: "keep_session tls w s4 = Some (Inr r, t)"
          "handshakes s4 = handshakes s2" "tw_session s4 = tw_session s2" "told s4 = told s2"
        by (auto simp: after_handshake_def prog_simps set_context_def set_socket_def handshakes_def told_def)
      from keep_session_saves [OF s4(1)] have kept: "keeps_or_stores w s4 t"
          "handshakes t = handshakes s4" "r = 0 \<or> r = - 1"
        by auto
      from kept(1) s4 s2 l(1) have "keeps_or_stores (saved (tw_session s)) s t"
        unfolding keeps_or_stores_def by (simp only:)
      with kept s4 s2 cfg False show ?thesis unfolding attempt_ok_def by auto
    qed
  qed
qed

lemma tls_connect_attempt:
  assumes run: "tls_connect host port ms s = Some (Inr r, t)" and tickets: "bd_tickets (nt_build (nw_net s))"
  shows "attempt_ok host port ms s r t"
proof (cases "tw_context s")
  case None
  with run show ?thesis by (auto simp: tls_connect_def with_context_def prog_simps attempt_ok_def)
next
  case (Some ctx)
  with run obtain s0 where s0: "ctx_close ctx s = Some (Inr (), s0)"
      and rest: "andthen (net_ask nt_stopping Net_Stopping) (\<lambda>stopping.
        if stopping then ok (- 1)
        else
          andthen (set_context (\<lambda>c. c\<lparr>cx_cfg := (cx_cfg c)\<lparr>cf_timeout_ms := ms\<rparr>\<rparr>)) (\<lambda>_.
          andthen (net_ask nt_tls_init Net_TlsInit) (\<lambda>tls. case tls of
            None \<Rightarrow> ok (- 1)
          | Some tls \<Rightarrow> connect_with tls host port))) s0 = Some (Inr r, t)"
    by (auto simp: tls_connect_def with_context_def andthen_Inr prog_run)
  have same: "leaves_session s s0" using staysD [OF leaves_close s0] .
  have "tw_context s0 \<noteq> None"
    using s0 Some by (cases "cx_tls ctx") (auto simp: ctx_close_def set_socket_def set_context_def prog_simps)
  then obtain c where c: "tw_context s0 = Some c" by blast
  let ?stop = "nt_stopping (nw_net s0) (nw_calls s0)"
  let ?s1 = "s0\<lparr>nw_calls := nw_calls s0 @ [Net_Stopping ?stop],
      tw_context := Some (c\<lparr>cx_cfg := (cx_cfg c)\<lparr>cf_timeout_ms := ms\<rparr>\<rparr>)\<rparr>"
  let ?init = "nt_tls_init (nw_net ?s1) (nw_calls ?s1)"
  let ?s2 = "?s1\<lparr>nw_calls := nw_calls ?s1 @ [Net_TlsInit ?init]\<rparr>"
  have s2: "leaves_session s ?s2" using same by (simp add: leaves_session_def handshakes_def told_def)
  show ?thesis
  proof (cases "?stop \<or> ?init = None")
    case True
    with rest c same show ?thesis
      by (auto simp: prog_simps set_context_def attempt_ok_def leaves_session_def handshakes_def
          split: if_splits)
  next
    case False
    then obtain tls where "?init = Some tls" by auto
    with rest c False have "connect_with tls host port ?s2 = Some (Inr r, t)"
      by (auto simp: prog_simps set_context_def)
    then have "attempt_ok host port ms ?s2 r t"
      by (rule connect_with_attempt) (use s2 tickets in \<open>auto simp: leaves_session_def\<close>)
    moreover have "saved (tw_session ?s2) = saved (tw_session s)" "handshakes ?s2 = handshakes s"
        "told ?s2 = told s" "last_handshake (tw_session ?s2) = last_handshake (tw_session s)"
      using s2 unfolding leaves_session_def by blast+
    ultimately show ?thesis unfolding attempt_ok_def keeps_or_stores_def by (simp only:)
  qed
qed

subsection \<open>Properties\<close>

text \<open>
  C20: the callbacks of a TLS transport never use a connection that was destroyed, destroy one
  twice, or lose one. In any order of connects, reads, writes, polls, closes, stops and destroys,
  for any answers of esp-tls, every one of them answers; each call was on a handle made and not
  yet destroyed; the handles still live are exactly the context's; and destroying the transport
  leaves none.
\<close>

theorem tls_handles_balanced:
  assumes "versions_named (nw_net s)" and "nw_calls s = []" and "tls_transport st s = Some (Inr h, t)"
  shows "\<exists>u v. for_each ops tls_op t = Some (Inr (), u) \<and> handles_used [] (nw_calls u) \<and>
    handles_live (nw_calls u) = (case connection u of None \<Rightarrow> [] | Some tls \<Rightarrow> [tls]) \<and>
    tls_destroy u = Some (Inr 0, v) \<and> handles_used [] (nw_calls v) \<and> handles_live (nw_calls v) = []"
proof -
  have "tls_ok t" "versions_named (nw_net t)"
    using assms by (auto simp: tls_transport_def build_has_def prog_simps set_socket_def tls_ok_def handles_ok_def
        handles_live_def connection_def split: if_splits option.splits)
  then obtain u where u: "for_each ops tls_op t = Some (Inr (), u)" "versions_named (nw_net u)" "tls_ok u"
    using tls_ops_ok by blast
  with tls_destroy_runs [OF u(2,3)] show ?thesis
    by (auto simp: tls_ok_def handles_ok_def)
qed

definition demo_settings :: settings where
  "demo_settings = \<lparr>st_server_ca = None, st_client_certificate = Some ([1], [2]),
     st_version = TlsVersion_Any\<rparr>"

definition demo_tls :: tls_world where
  "demo_tls = \<lparr>nw_net = demo_net, nw_calls = [], tw_session = restore [3, 4], tw_context = None, tw_socket = - 1\<rparr>"

lemma demo_net_named: "versions_named demo_net"
  by (simp add: versions_named_def demo_net_def)

theorem tls_handles_balanced_witness:
  "\<exists>t u. tls_transport demo_settings demo_tls = Some (Inr 7, t) \<and>
     for_each [Op_Connect ''h'' 443 100, Op_Connect ''h'' 443 100, Op_Receive 9 5, Op_Stop, Op_Close] tls_op t =
       Some (Inr (), u) \<and> handles_used [] (nw_calls u)"
proof -
  obtain t where t: "tls_transport demo_settings demo_tls = Some (Inr 7, t)"
    by (simp add: tls_transport_def build_has_def prog_simps demo_settings_def demo_tls_def demo_net_def
        set_socket_def)
  have demo: "versions_named (nw_net demo_tls)" "nw_calls demo_tls = []"
    by (simp_all add: demo_tls_def demo_net_named)
  show ?thesis using tls_handles_balanced [OF demo t] t by blast
qed


text \<open>The session restored is refused; the next attempt offers none, and stores a new one.\<close>

definition demo_ready :: tls_world where
  "demo_ready = snd (the (tls_transport demo_settings demo_tls))"

definition demo_refused :: tls_world where
  "demo_refused = snd (the (tls_connect ''h'' 443 100 demo_ready))"

definition demo_connected :: tls_world where
  "demo_connected = snd (the (tls_connect ''h'' 443 100 demo_refused))"


end
