(* ===== verification/TlsStop.thy ===== *)
theory TlsStop
  imports Tls
begin

text \<open>
  The one place where two threads meet in \<open>src/tls.rs\<close>: the websocket client's task makes and
  closes connections, and the stopper, on the thread that owns the client, shuts down the socket of
  the one there is. They share \<open>Stop\<close>, a flag and a locked socket. Here each thread goes one
  step at a time, with the system's table of open sockets, whose numbers are used again: any other
  thread may open a socket with a number that was just closed.
\<close>

datatype thread = Thread_Task | Thread_Stopper

datatype socket_owner = Owner_Transport | Owner_Other

text \<open>
  Where the task is. \<open>Task_Close_Locked c\<close> and \<open>Task_Given_Up c\<close> are in
  \<open>Context::close\<close>, before and after the socket is given up, with the socket of the connection
  it closes, if any; \<open>Task_Connecting\<close> to \<open>Task_Publish_Locked\<close> are in
  \<open>connect\<close>, from its check of the flag to publishing the socket.
\<close>

datatype task_at =
    Task_Rest "int option"
  | Task_Close_Locked "int option"
  | Task_Given_Up "int option"
  | Task_Connecting
  | Task_Connected int
  | Task_Publish_Locked int

datatype stopper_at = Stopper_Rest | Stopper_Flagged | Stopper_Locked

record stop_state =
  sp_stopping :: bool
  sp_lock :: "thread option"
  sp_socket :: int
  sp_task :: task_at
  sp_stopper :: stopper_at
  sp_owner :: "int \<Rightarrow> socket_owner option"

datatype stop_event = Step_Quiet | Step_Shutdown int

definition close_socket :: "int option \<Rightarrow> (int \<Rightarrow> socket_owner option) \<Rightarrow> int \<Rightarrow> socket_owner option" where
  "close_socket c owner = (case c of None \<Rightarrow> owner | Some fd \<Rightarrow> owner(fd := None))"

inductive stop_step :: "stop_state \<Rightarrow> stop_event \<Rightarrow> stop_state \<Rightarrow> bool" where
  close_lock: "sp_task s = Task_Rest c \<Longrightarrow> sp_lock s = None \<Longrightarrow>
    stop_step s Step_Quiet (s\<lparr>sp_task := Task_Close_Locked c, sp_lock := Some Thread_Task\<rparr>)"
| close_give_up: "sp_task s = Task_Close_Locked c \<Longrightarrow>
    stop_step s Step_Quiet (s\<lparr>sp_task := Task_Given_Up c, sp_socket := - 1, sp_lock := None\<rparr>)"
| close_destroy: "sp_task s = Task_Given_Up c \<Longrightarrow>
    stop_step s Step_Quiet (s\<lparr>sp_task := Task_Rest None, sp_owner := close_socket c (sp_owner s)\<rparr>)"
| connect_check: "sp_task s = Task_Rest None \<Longrightarrow> \<not> sp_stopping s \<Longrightarrow>
    stop_step s Step_Quiet (s\<lparr>sp_task := Task_Connecting\<rparr>)"
| connect_fail: "sp_task s = Task_Connecting \<Longrightarrow>
    stop_step s Step_Quiet (s\<lparr>sp_task := Task_Rest None\<rparr>)"
| connect_make: "sp_task s = Task_Connecting \<Longrightarrow> sp_owner s fd = None \<Longrightarrow> 0 \<le> fd \<Longrightarrow>
    stop_step s Step_Quiet (s\<lparr>sp_task := Task_Connected fd, sp_owner := (sp_owner s)(fd := Some Owner_Transport)\<rparr>)"
| publish_lock: "sp_task s = Task_Connected fd \<Longrightarrow> sp_lock s = None \<Longrightarrow>
    stop_step s Step_Quiet (s\<lparr>sp_task := Task_Publish_Locked fd, sp_lock := Some Thread_Task\<rparr>)"
| publish: "sp_task s = Task_Publish_Locked fd \<Longrightarrow>
    stop_step s Step_Quiet (s\<lparr>sp_task := Task_Rest (Some fd), sp_socket := fd, sp_lock := None\<rparr>)"
| stop_flag: "sp_stopper s = Stopper_Rest \<Longrightarrow>
    stop_step s Step_Quiet (s\<lparr>sp_stopper := Stopper_Flagged, sp_stopping := True\<rparr>)"
| stop_lock: "sp_stopper s = Stopper_Flagged \<Longrightarrow> sp_lock s = None \<Longrightarrow>
    stop_step s Step_Quiet (s\<lparr>sp_stopper := Stopper_Locked, sp_lock := Some Thread_Stopper\<rparr>)"
| stop_shutdown: "sp_stopper s = Stopper_Locked \<Longrightarrow> 0 \<le> sp_socket s \<Longrightarrow>
    stop_step s (Step_Shutdown (sp_socket s)) (s\<lparr>sp_stopper := Stopper_Rest, sp_lock := None\<rparr>)"
| stop_nothing: "sp_stopper s = Stopper_Locked \<Longrightarrow> sp_socket s < 0 \<Longrightarrow>
    stop_step s Step_Quiet (s\<lparr>sp_stopper := Stopper_Rest, sp_lock := None\<rparr>)"
| other_open: "sp_owner s fd = None \<Longrightarrow>
    stop_step s Step_Quiet (s\<lparr>sp_owner := (sp_owner s)(fd := Some Owner_Other)\<rparr>)"
| other_close: "sp_owner s fd = Some Owner_Other \<Longrightarrow>
    stop_step s Step_Quiet (s\<lparr>sp_owner := (sp_owner s)(fd := None)\<rparr>)"

inductive_cases shutdown_step: "stop_step s (Step_Shutdown fd) t"

text \<open>A transport just made: nothing published, no thread in the middle of anything.\<close>

definition stop_start :: "stop_state \<Rightarrow> bool" where
  "stop_start s \<longleftrightarrow> \<not> sp_stopping s \<and> sp_lock s = None \<and> sp_socket s = - 1 \<and>
     sp_task s = Task_Rest None \<and> sp_stopper s = Stopper_Rest"

inductive stop_reachable :: "stop_state \<Rightarrow> bool" where
  reach_start: "stop_start s \<Longrightarrow> stop_reachable s"
| reach_step: "stop_reachable s \<Longrightarrow> stop_step s e t \<Longrightarrow> stop_reachable t"

subsection \<open>The invariant\<close>

text \<open>The socket of the connection the task holds open, wherever it is.\<close>

fun task_socket :: "task_at \<Rightarrow> int option" where
  "task_socket (Task_Rest c) = c"
| "task_socket (Task_Close_Locked c) = c"
| "task_socket (Task_Given_Up c) = c"
| "task_socket Task_Connecting = None"
| "task_socket (Task_Connected fd) = Some fd"
| "task_socket (Task_Publish_Locked fd) = Some fd"

text \<open>The socket it has published: not before publishing it, nor after giving it up.\<close>

fun task_published :: "task_at \<Rightarrow> int option" where
  "task_published (Task_Rest c) = c"
| "task_published (Task_Close_Locked c) = c"
| "task_published _ = None"

fun task_locked :: "task_at \<Rightarrow> bool" where
  "task_locked (Task_Close_Locked _) = True"
| "task_locked (Task_Publish_Locked _) = True"
| "task_locked _ = False"

definition stop_inv :: "stop_state \<Rightarrow> bool" where
  "stop_inv s \<longleftrightarrow>
     (sp_lock s = Some Thread_Task \<longleftrightarrow> task_locked (sp_task s)) \<and>
     (sp_lock s = Some Thread_Stopper \<longleftrightarrow> sp_stopper s = Stopper_Locked) \<and>
     (case task_socket (sp_task s) of None \<Rightarrow> True | Some fd \<Rightarrow> 0 \<le> fd \<and> sp_owner s fd = Some Owner_Transport) \<and>
     sp_socket s = (case task_published (sp_task s) of None \<Rightarrow> - 1 | Some fd \<Rightarrow> fd)"

lemma stop_step_inv: "stop_step s e t \<Longrightarrow> stop_inv s \<Longrightarrow> stop_inv t"
proof (induction rule: stop_step.induct)
  case (close_destroy s c)
  then show ?case by (auto simp: stop_inv_def close_socket_def split: option.splits)
next
  case (other_open s fd)
  then show ?case by (auto simp: stop_inv_def split: option.splits)
next
  case (other_close s fd)
  then show ?case by (auto simp: stop_inv_def split: option.splits)
qed (auto simp: stop_inv_def split: option.splits)

lemma stop_reachable_inv: "stop_reachable s \<Longrightarrow> stop_inv s"
  by (induction rule: stop_reachable.induct) (auto simp: stop_start_def stop_inv_def dest: stop_step_inv)

lemma stop_step_stopping:
  "stop_step s e t \<Longrightarrow> sp_stopping s \<Longrightarrow>
     sp_stopping t \<and> (sp_task t = Task_Connecting \<longrightarrow> sp_task s = Task_Connecting)"
  by (induction rule: stop_step.induct) auto

subsection \<open>Properties\<close>

text \<open>
  C19: a stop reaches no socket but the transport's own, and is for good. However the websocket
  client's task, the stopping thread and any other threads interleave, the socket shut down is open
  and the transport's connection, never one that was closed and its number handed to another; and
  once a stop has begun, the transport begins no new connection.
\<close>

theorem stop_spares_other_sockets:
  assumes "stop_reachable s" and "stop_step s e t"
  shows "(case e of Step_Quiet \<Rightarrow> True | Step_Shutdown fd \<Rightarrow> sp_owner s fd = Some Owner_Transport) \<and>
    (sp_stopping s \<longrightarrow> sp_stopping t \<and> (sp_task t = Task_Connecting \<longrightarrow> sp_task s = Task_Connecting))"
proof (cases e)
  case Step_Quiet
  then show ?thesis using stop_step_stopping [OF assms(2)] by simp
next
  case (Step_Shutdown fd)
  with assms(2) have "fd = sp_socket s" "0 \<le> fd" by (auto elim: shutdown_step)
  moreover have "task_published a = Some fd \<Longrightarrow> task_socket a = Some fd" for a
    by (cases a) auto
  ultimately have "sp_owner s fd = Some Owner_Transport"
    using stop_reachable_inv [OF assms(1)] by (auto simp: stop_inv_def split: option.splits)
  then show ?thesis using Step_Shutdown stop_step_stopping [OF assms(2)] by simp
qed

text \<open>A connection on socket 54, stopped from the other thread.\<close>

definition demo_stop :: "bool \<Rightarrow> thread option \<Rightarrow> int \<Rightarrow> task_at \<Rightarrow> stopper_at \<Rightarrow> stop_state" where
  "demo_stop stopping lock fd a b = \<lparr>sp_stopping = stopping, sp_lock = lock, sp_socket = fd, sp_task = a,
     sp_stopper = b, sp_owner = (\<lambda>x. if x = 54 \<and> task_socket a = Some 54 then Some Owner_Transport else None)\<rparr>"

lemma reach_to: "stop_reachable s \<Longrightarrow> stop_step s e u \<Longrightarrow> u = t \<Longrightarrow> stop_reachable t"
  by (auto intro: reach_step)

lemma demo_stop_reached:
  "stop_reachable (demo_stop True (Some Thread_Stopper) 54 (Task_Rest (Some 54)) Stopper_Locked)"
proof -
  note start = reach_start [of "demo_stop False None (- 1) (Task_Rest None) Stopper_Rest"]
  have "stop_reachable (demo_stop False None (- 1) (Task_Rest None) Stopper_Rest)"
    by (rule start) (simp add: stop_start_def demo_stop_def)
  then have "stop_reachable (demo_stop False None (- 1) Task_Connecting Stopper_Rest)"
    by (rule reach_to [OF _ connect_check]) (simp_all add: demo_stop_def)
  then have "stop_reachable (demo_stop False None (- 1) (Task_Connected 54) Stopper_Rest)"
    by (rule reach_to [OF _ connect_make [where fd = 54]]) (auto simp: demo_stop_def)
  then have "stop_reachable (demo_stop False (Some Thread_Task) (- 1) (Task_Publish_Locked 54) Stopper_Rest)"
    by (rule reach_to [OF _ publish_lock]) (simp_all add: demo_stop_def)
  then have "stop_reachable (demo_stop False None 54 (Task_Rest (Some 54)) Stopper_Rest)"
    by (rule reach_to [OF _ publish]) (simp_all add: demo_stop_def)
  then have "stop_reachable (demo_stop True None 54 (Task_Rest (Some 54)) Stopper_Flagged)"
    by (rule reach_to [OF _ stop_flag]) (simp_all add: demo_stop_def)
  then show ?thesis
    by (rule reach_to [OF _ stop_lock]) (simp_all add: demo_stop_def)
qed

theorem stop_spares_other_sockets_witness:
  "\<exists>t. stop_step (demo_stop True (Some Thread_Stopper) 54 (Task_Rest (Some 54)) Stopper_Locked)
       (Step_Shutdown 54) t \<and>
     sp_owner (demo_stop True (Some Thread_Stopper) 54 (Task_Rest (Some 54)) Stopper_Locked) 54 =
       Some Owner_Transport"
proof -
  let ?s = "demo_stop True (Some Thread_Stopper) 54 (Task_Rest (Some 54)) Stopper_Locked"
  have "stop_step ?s (Step_Shutdown (sp_socket ?s)) (?s\<lparr>sp_stopper := Stopper_Rest, sp_lock := None\<rparr>)"
    by (rule stop_shutdown) (simp_all add: demo_stop_def)
  moreover have "sp_socket ?s = 54" by (simp add: demo_stop_def)
  ultimately have step: "stop_step ?s (Step_Shutdown 54) (?s\<lparr>sp_stopper := Stopper_Rest, sp_lock := None\<rparr>)"
    by simp
  from stop_spares_other_sockets [OF demo_stop_reached step] step show ?thesis by auto
qed

end
