(* ===== verification/Inbound.thy ===== *)
theory Inbound
  imports Message
begin

text \<open>
  \<open>src/inbound.rs\<close>: the pieces ESP-IDF's websocket client hands over, put back into whole
  messages, with a bound on what the run loop has not read, and the closes counted so that one
  from before the first connection can be told from one after.
\<close>

definition MAX_UNREAD_BYTES :: nat where "MAX_UNREAD_BYTES = 16 * 1024"

datatype incoming = Incoming_Frame frame | Incoming_Closed u32 | Incoming_Overflow

definition OPCODE_CONTINUATION :: u8 where "OPCODE_CONTINUATION = 0x0"
definition OPCODE_TEXT :: u8 where "OPCODE_TEXT = 0x1"
definition OPCODE_BINARY :: u8 where "OPCODE_BINARY = 0x2"
definition OPCODE_CLOSE :: u8 where "OPCODE_CLOSE = 0x8"

lemmas opcodes = OPCODE_CONTINUATION_def OPCODE_TEXT_def OPCODE_BINARY_def OPCODE_CLOSE_def

record piece =
  pc_opcode :: u8
  pc_fin :: bool
  pc_offset :: nat
  pc_payload_len :: nat
  pc_bytes :: bytes

record inbound =
  ib_partial :: bytes
  ib_binary :: bool
  ib_unread :: nat
  ib_overflowed :: bool
  ib_closes :: u32
  ib_closes_before_connecting :: "u32 option"

definition inbound_new :: inbound where
  "inbound_new = \<lparr>ib_partial = [], ib_binary = False, ib_unread = 0, ib_overflowed = False,
     ib_closes = 0, ib_closes_before_connecting = None\<rparr>"

definition connected :: "inbound \<Rightarrow> inbound" where
  "connected s = (case ib_closes_before_connecting s of
      None \<Rightarrow> s\<lparr>ib_closes_before_connecting := Some (ib_closes s)\<rparr>
    | Some _ \<Rightarrow> s)"

definition closed :: "inbound \<Rightarrow> incoming \<times> inbound" where
  "closed s = (let s = s\<lparr>ib_closes := ib_closes s + 1\<rparr> in (Incoming_Closed (ib_closes s), s))"

definition ends_session :: "inbound \<Rightarrow> u32 \<Rightarrow> bool" where
  "ends_session s n = (case ib_closes_before_connecting s of
      None \<Rightarrow> False | Some before \<Rightarrow> before < n)"

definition inbound_read :: "frame \<Rightarrow> inbound \<Rightarrow> inbound" where
  "inbound_read f s = s\<lparr>ib_unread := ib_unread s - frame_len f\<rparr>"

text \<open>\<open>String::from_utf8\<close>.\<close>

definition from_utf8 :: "bytes \<Rightarrow> string option" where
  "from_utf8 bs = (let text = bytes_str bs in if valid_utf8 text then Some text else None)"

text \<open>The end of a message: \<open>core::mem::take\<close>, and the frame it becomes.\<close>

definition message_done :: "inbound \<Rightarrow> incoming option \<times> inbound" where
  "message_done s =
     (let msg = ib_partial s; s = s\<lparr>ib_partial := []\<rparr>;
          done_frame = (if ib_binary s then Some (Binary msg) else map_option Text (from_utf8 msg))
      in case done_frame of
          None \<Rightarrow> (None, s)
        | Some f \<Rightarrow> (Some (Incoming_Frame f), s\<lparr>ib_unread := ib_unread s + frame_len f\<rparr>))"

text \<open>The three arms of the \<open>match\<close> on the opcode; the first is the data's.\<close>

definition is_data :: "u8 \<Rightarrow> bool" where
  "is_data opcode = (opcode = OPCODE_TEXT \<or> opcode = OPCODE_BINARY \<or> opcode = OPCODE_CONTINUATION)"

definition starts_message :: "piece \<Rightarrow> bool" where
  "starts_message p = (pc_opcode p \<noteq> OPCODE_CONTINUATION \<and> pc_offset p = 0)"

definition take_data :: "piece \<Rightarrow> inbound \<Rightarrow> incoming option \<times> inbound" where
  "take_data p s =
     (if ib_overflowed s then (None, s)
      else
        let s = (if starts_message p
                 then s\<lparr>ib_partial := [], ib_binary := (pc_opcode p = OPCODE_BINARY)\<rparr> else s)
        in if MAX_UNREAD_BYTES < ib_unread s + length (ib_partial s) + length (pc_bytes p)
           then (Some Incoming_Overflow, s\<lparr>ib_overflowed := True, ib_partial := []\<rparr>)
           else
             let s = s\<lparr>ib_partial := ib_partial s @ pc_bytes p\<rparr>;
                 frame_done = pc_payload_len p \<le> pc_offset p + length (pc_bytes p)
             in if \<not> (frame_done \<and> pc_fin p) then (None, s) else message_done s)"

definition take_piece :: "piece \<Rightarrow> inbound \<Rightarrow> incoming option \<times> inbound" where
  "take_piece p s =
     (if is_data (pc_opcode p) then take_data p s
      else if pc_opcode p = OPCODE_CLOSE then (case closed s of (i, s') \<Rightarrow> (Some i, s'))
      else (None, s))"

subsection \<open>Sequences of events\<close>

datatype inbound_op = In_Connected | In_Closed | In_Piece piece | In_Read frame

fun inbound_step :: "inbound_op \<Rightarrow> inbound \<Rightarrow> inbound" where
  "inbound_step In_Connected s = connected s"
| "inbound_step In_Closed s = snd (closed s)"
| "inbound_step (In_Piece p) s = snd (take_piece p s)"
| "inbound_step (In_Read f) s = inbound_read f s"

fun feed_pieces :: "piece list \<Rightarrow> inbound \<Rightarrow> incoming list \<times> inbound" where
  "feed_pieces [] s = ([], s)"
| "feed_pieces (p # ps) s = (case take_piece p s of (i, s') \<Rightarrow>
     (case feed_pieces ps s' of (is, s'') \<Rightarrow> ((case i of None \<Rightarrow> is | Some x \<Rightarrow> x # is), s'')))"

subsection \<open>The bound\<close>

definition inbound_ok :: "inbound \<Rightarrow> bool" where
  "inbound_ok s \<longleftrightarrow> ib_unread s + length (ib_partial s) \<le> MAX_UNREAD_BYTES"

lemma from_utf8_len: "from_utf8 bs = Some t \<Longrightarrow> length t = length bs"
  by (auto simp: from_utf8_def Let_def split: if_splits)

lemma message_done_ok: "inbound_ok s \<Longrightarrow> inbound_ok (snd (message_done s))"
  by (auto simp: inbound_ok_def message_done_def Let_def from_utf8_len split: option.splits if_splits)

lemma take_piece_ok: "inbound_ok s \<Longrightarrow> inbound_ok (snd (take_piece p s))"
  by (auto simp: take_piece_def take_data_def is_data_def starts_message_def Let_def closed_def inbound_ok_def
        intro!: message_done_ok [unfolded inbound_ok_def])

interpretation inbound_ops: preserved inbound_step inbound_ok
proof
  fix s op
  assume "inbound_ok s"
  then show "inbound_ok (inbound_step op s)"
    by (cases op) (auto simp: take_piece_ok connected_def closed_def inbound_read_def
        inbound_ok_def [of "s\<lparr>ib_closes := _\<rparr>"] inbound_ok_def split: option.splits intro: take_piece_ok [unfolded inbound_ok_def])
qed

lemma inbound_ok_new: "inbound_ok inbound_new"
  by (simp add: inbound_ok_def inbound_new_def)

text \<open>Once it has overflowed, no data comes out and no second overflow is reported.\<close>

lemma overflowed_quiet:
  assumes "ib_overflowed s"
  shows "ib_overflowed (snd (take_piece p s)) \<and>
    (\<forall>i. fst (take_piece p s) = Some i \<longrightarrow> (\<exists>n. i = Incoming_Closed n))"
  using assms by (auto simp: take_piece_def take_data_def closed_def Let_def)

lemma message_done_frame: "fst (message_done s) \<noteq> Some Incoming_Overflow"
  by (simp add: message_done_def Let_def split: option.split)

lemma overflow_sets: "fst (take_piece p s) = Some Incoming_Overflow \<Longrightarrow> ib_overflowed (snd (take_piece p s))"
  using message_done_frame
  by (auto simp: take_piece_def take_data_def closed_def Let_def split: if_split_asm)

lemma feed_overflowed:
  "ib_overflowed s \<Longrightarrow> \<forall>i \<in> set (fst (feed_pieces ps s)). \<exists>n. i = Incoming_Closed n"
proof (induction ps arbitrary: s)
  case (Cons p ps)
  then show ?case
    using overflowed_quiet [OF Cons.prems, of p] Cons.IH [of "snd (take_piece p s)"]
    by (auto split: prod.splits option.splits)
qed simp

lemma nothing_after_overflow:
  assumes "fst (feed_pieces ps s) = xs @ Incoming_Overflow # ys"
  shows "\<forall>i \<in> set ys. \<exists>n. i = Incoming_Closed n"
  using assms
proof (induction ps arbitrary: s xs)
  case (Cons p ps)
  obtain i s' where p: "take_piece p s = (i, s')" by fastforce
  obtain rest s'' where ps: "feed_pieces ps s' = (rest, s'')" by fastforce
  show ?case
  proof (cases i)
    case None
    then show ?thesis using Cons.IH [of s' xs] Cons.prems by (simp add: p ps)
  next
    case (Some x)
    show ?thesis
    proof (cases xs)
      case Nil
      then have "x = Incoming_Overflow" "ys = rest" using Cons.prems Some by (simp_all add: p ps)
      moreover have "ib_overflowed s'"
        using overflow_sets [of p s] Some \<open>x = Incoming_Overflow\<close> by (simp add: p)
      ultimately show ?thesis using feed_overflowed [of s' ps] by (simp add: ps)
    next
      case xs: (Cons y zs)
      then show ?thesis using Cons.IH [of s' zs] Cons.prems Some by (simp add: p ps)
    qed
  qed
qed simp

subsection \<open>Reassembly\<close>

text \<open>
  How the client cuts a message up: a frame into buffer-fulls, each with its offset, and a
  message into frames, the first with the kind and the last with \<open>fin\<close>.
\<close>

fun frame_pieces :: "u8 \<Rightarrow> bool \<Rightarrow> nat \<Rightarrow> nat \<Rightarrow> bytes list \<Rightarrow> piece list" where
  "frame_pieces opcode fin offset len [] = []"
| "frame_pieces opcode fin offset len (c # cs) =
     \<lparr>pc_opcode = opcode, pc_fin = fin, pc_offset = offset, pc_payload_len = len, pc_bytes = c\<rparr>
     # frame_pieces opcode fin (offset + length c) len cs"

fun message_pieces :: "u8 \<Rightarrow> bytes list list \<Rightarrow> piece list" where
  "message_pieces opcode [] = []"
| "message_pieces opcode (f # fs) =
     frame_pieces opcode (fs = []) 0 (length (concat f)) f @ message_pieces OPCODE_CONTINUATION fs"

definition cut_up :: "bytes list \<Rightarrow> bool" where
  "cut_up f = (f \<noteq> [] \<and> ([] \<notin> set f \<or> f = [[]]))"

definition finish_with :: "bool \<Rightarrow> inbound \<Rightarrow> incoming list \<times> inbound" where
  "finish_with fin s = (if fin then (case message_done s of (i, s') \<Rightarrow>
      ((case i of None \<Rightarrow> [] | Some x \<Rightarrow> [x]), s')) else ([], s))"

lemma feed_pieces_append:
  "feed_pieces (ps @ qs) s = (case feed_pieces ps s of (is, s') \<Rightarrow>
     (case feed_pieces qs s' of (js, s'') \<Rightarrow> (is @ js, s'')))"
  by (induction ps arbitrary: s) (auto split: prod.splits option.splits)

lemma upd_order:
  "s\<lparr>ib_partial := a, ib_binary := b\<rparr> = s\<lparr>ib_binary := b, ib_partial := a\<rparr>"
  by simp

text \<open>The rest of a frame, once its first piece has been dealt with.\<close>

lemma frame_rest:
  assumes "cs \<noteq> []" and "[] \<notin> set cs"
    and "opcode = OPCODE_CONTINUATION \<or> (opcode \<in> {OPCODE_TEXT, OPCODE_BINARY} \<and> offset \<noteq> 0)"
    and "offset + length (concat cs) = len" and "\<not> ib_overflowed s"
    and "ib_unread s + length (ib_partial s) + length (concat cs) \<le> MAX_UNREAD_BYTES"
  shows "feed_pieces (frame_pieces opcode fin offset len cs) s =
    finish_with fin (s\<lparr>ib_partial := ib_partial s @ concat cs\<rparr>)"
  using assms
proof (induction cs arbitrary: offset s)
  case (Cons c cs)
  let ?p = "\<lparr>pc_opcode = opcode, pc_fin = fin, pc_offset = offset, pc_payload_len = len, pc_bytes = c\<rparr>"
  let ?s = "s\<lparr>ib_partial := ib_partial s @ c\<rparr>"
  have kind: "opcode = OPCODE_TEXT \<or> opcode = OPCODE_BINARY \<or> opcode = OPCODE_CONTINUATION"
    and keep: "\<not> (opcode \<noteq> OPCODE_CONTINUATION \<and> offset = 0)" using Cons.prems(3) by auto
  have room: "\<not> MAX_UNREAD_BYTES < ib_unread s + length (ib_partial s) + length c"
    using Cons.prems(6) by simp
  show ?case
  proof (cases "cs = []")
    case True
    then have "take_piece ?p s = (if fin then message_done ?s else (None, ?s))"
      using Cons.prems kind keep room
      by (cases "opcode = OPCODE_CONTINUATION") (simp_all add: take_piece_def take_data_def is_data_def starts_message_def Let_def)
    then show ?thesis using True by (auto simp: finish_with_def split: prod.splits option.splits)
  next
    case False
    then have "concat cs \<noteq> []" using Cons.prems(2) by (cases cs) auto
    then have "\<not> len \<le> offset + length c" using Cons.prems(4) by auto
    then have "take_piece ?p s = (None, ?s)"
      using Cons.prems(5) kind keep room
      by (cases "opcode = OPCODE_CONTINUATION") (simp_all add: take_piece_def take_data_def is_data_def starts_message_def Let_def)
    moreover have "c \<noteq> []" using Cons.prems(2) by auto
    ultimately show ?thesis
      using Cons.IH [of "offset + length c" ?s] Cons.prems False by (auto simp: add.assoc)
  qed
qed simp

lemma frame_continued:
  assumes "cut_up f" and "\<not> ib_overflowed s"
    and "ib_unread s + length (ib_partial s) + length (concat f) \<le> MAX_UNREAD_BYTES"
  shows "feed_pieces (frame_pieces OPCODE_CONTINUATION fin 0 (length (concat f)) f) s =
    finish_with fin (s\<lparr>ib_partial := ib_partial s @ concat f\<rparr>)"
proof (cases "f = [[]]")
  case True
  then show ?thesis
    using assms by (auto simp: take_piece_def take_data_def is_data_def starts_message_def finish_with_def Let_def split: prod.splits option.splits)
next
  case False
  then show ?thesis using assms frame_rest [of f OPCODE_CONTINUATION 0] by (simp add: cut_up_def)
qed

lemma frame_started:
  assumes "cut_up f" and "\<not> ib_overflowed s" and "opcode \<in> {OPCODE_TEXT, OPCODE_BINARY}"
    and "ib_unread s + length (concat f) \<le> MAX_UNREAD_BYTES"
  shows "feed_pieces (frame_pieces opcode fin 0 (length (concat f)) f) s =
    finish_with fin (s\<lparr>ib_partial := concat f, ib_binary := (opcode = OPCODE_BINARY)\<rparr>)"
proof -
  let ?s0 = "s\<lparr>ib_partial := [], ib_binary := (opcode = OPCODE_BINARY)\<rparr>"
  obtain c cs where f: "f = c # cs" using assms(1) by (cases f) (auto simp: cut_up_def)
  let ?p = "\<lparr>pc_opcode = opcode, pc_fin = fin, pc_offset = 0, pc_payload_len = length (concat f), pc_bytes = c\<rparr>"
  let ?s = "?s0\<lparr>ib_partial := c\<rparr>"
  have kind: "opcode = OPCODE_TEXT \<or> opcode = OPCODE_BINARY \<or> opcode = OPCODE_CONTINUATION"
    and start: "opcode \<noteq> OPCODE_CONTINUATION" using assms(3) by (auto simp: opcodes)
  have room: "\<not> MAX_UNREAD_BYTES < ib_unread s + length c" using assms(4) f by simp
  show ?thesis
  proof (cases "cs = []")
    case True
    then have "take_piece ?p s = (if fin then message_done ?s else (None, ?s))"
      using assms(2) kind start room f by (simp add: take_piece_def take_data_def is_data_def starts_message_def Let_def)
    then show ?thesis
      using True f by (auto simp: finish_with_def upd_order split: prod.splits option.splits)
  next
    case False
    then have ne: "[] \<notin> set f" using assms(1) f by (auto simp: cut_up_def)
    then have "concat cs \<noteq> []" "c \<noteq> []" using False f by (cases cs; auto)+
    then have "\<not> length (concat f) \<le> 0 + length c" using f by auto
    then have "take_piece ?p s = (None, ?s)"
      using assms(2) kind start room by (simp add: take_piece_def take_data_def is_data_def starts_message_def Let_def upd_order)
    then show ?thesis
      using frame_rest [of cs opcode "length c" "length (concat f)" ?s fin] assms ne False f \<open>c \<noteq> []\<close>
      by (simp add: add.assoc upd_order)
  qed
qed

lemma message_continued:
  assumes "list_all cut_up fs" and "fs \<noteq> []" and "\<not> ib_overflowed s"
    and "ib_unread s + length (ib_partial s) + length (concat (concat fs)) \<le> MAX_UNREAD_BYTES"
  shows "feed_pieces (message_pieces OPCODE_CONTINUATION fs) s =
    finish_with True (s\<lparr>ib_partial := ib_partial s @ concat (concat fs)\<rparr>)"
  using assms
proof (induction fs arbitrary: s)
  case (Cons f fs)
  show ?case
  proof (cases "fs = []")
    case True
    then show ?thesis using Cons.prems frame_continued [of f s True]
      by (simp add: feed_pieces_append split: prod.splits)
  next
    case False
    then show ?thesis
      using Cons.prems frame_continued [of f s False]
        Cons.IH [of "s\<lparr>ib_partial := ib_partial s @ concat f\<rparr>"]
      by (simp add: feed_pieces_append finish_with_def [of False] add.assoc split: prod.splits)
  qed
qed simp

lemma message_reassembled:
  assumes "list_all cut_up fs" and "fs \<noteq> []" and "\<not> ib_overflowed s"
    and "opcode \<in> {OPCODE_TEXT, OPCODE_BINARY}"
    and "ib_unread s + length (concat (concat fs)) \<le> MAX_UNREAD_BYTES"
  shows "feed_pieces (message_pieces opcode fs) s =
    finish_with True (s\<lparr>ib_partial := concat (concat fs), ib_binary := (opcode = OPCODE_BINARY)\<rparr>)"
proof -
  obtain f gs where fs: "fs = f # gs" using assms(2) by (cases fs) auto
  show ?thesis
  proof (cases "gs = []")
    case True
    then show ?thesis using assms fs frame_started [of f s opcode True]
      by (simp add: feed_pieces_append split: prod.splits)
  next
    case False
    then show ?thesis
      using assms fs frame_started [of f s opcode False]
        message_continued [of gs "s\<lparr>ib_partial := concat f, ib_binary := (opcode = OPCODE_BINARY)\<rparr>"]
      by (simp add: feed_pieces_append finish_with_def [of False] add.assoc upd_order split: prod.splits)
  qed
qed

subsection \<open>Which closes end the session\<close>

definition is_close :: "inbound_op \<Rightarrow> bool" where
  "is_close op = (case op of In_Closed \<Rightarrow> True
     | In_Piece p \<Rightarrow> pc_opcode p = OPCODE_CLOSE | _ \<Rightarrow> False)"

definition close_count :: "inbound_op list \<Rightarrow> nat" where
  "close_count ops = length (filter is_close ops)"

lemma step_closes:
  "ib_closes (inbound_step op s) = ib_closes s + (if is_close op then 1 else 0)"
  by (cases op) (auto simp: is_close_def connected_def closed_def inbound_read_def take_piece_def
      take_data_def is_data_def message_done_def Let_def opcodes split: option.splits)

lemma step_before:
  "ib_closes_before_connecting (inbound_step op s) =
     (if op = In_Connected \<and> ib_closes_before_connecting s = None then Some (ib_closes s)
      else ib_closes_before_connecting s)"
  by (cases op) (auto simp: connected_def closed_def inbound_read_def take_piece_def
      take_data_def is_data_def message_done_def Let_def split: option.splits)

lemma run_closes: "ib_closes (fold inbound_step ops s) = ib_closes s + of_nat (close_count ops)"
  by (induction ops arbitrary: s) (auto simp: step_closes close_count_def)

lemma run_before_none:
  "In_Connected \<notin> set ops \<Longrightarrow>
     ib_closes_before_connecting (fold inbound_step ops s) = ib_closes_before_connecting s"
  by (induction ops arbitrary: s) (auto simp: step_before)

lemma run_before_some:
  "ib_closes_before_connecting s = Some k \<Longrightarrow>
     ib_closes_before_connecting (fold inbound_step ops s) = Some k"
  by (induction ops arbitrary: s) (auto simp: step_before)

lemma ends_session_after:
  assumes "In_Connected \<notin> set before"
  shows "ends_session (fold inbound_step (before @ In_Connected # later) inbound_new) k
    \<longleftrightarrow> of_nat (close_count before) < k"
proof -
  have "ib_closes_before_connecting (fold inbound_step before inbound_new) = None"
    using run_before_none [OF assms, of inbound_new] by (simp add: inbound_new_def)
  then have "ib_closes_before_connecting (inbound_step In_Connected (fold inbound_step before inbound_new))
      = Some (of_nat (close_count before))"
    using run_closes [of before inbound_new]
    by (simp add: step_before inbound_new_def del: inbound_step.simps)
  from run_before_some [OF this, of later] show ?thesis
    by (simp add: ends_session_def)
qed

subsection \<open>Properties\<close>

text \<open>
  What the server can make the device hold is bounded. Whatever the transport does, in any
  order, the frames not yet read and the message being put together are at most 16 KiB.
\<close>

theorem held_is_bounded:
  "ib_unread (fold inbound_step ops inbound_new) + length (ib_partial (fold inbound_step ops inbound_new))
    \<le> MAX_UNREAD_BYTES"
  using inbound_ops.run_inv [OF inbound_ok_new] by (simp add: inbound_ok_def)

text \<open>
  C22: a message comes out as it was sent, however its frames were fragmented and however the
  client cut each into buffers, when there is room: a binary message, of any bytes, as one binary
  frame with all of them; a text message as one text frame, or not at all when its bytes are not
  UTF-8; and no piece of it is kept.
\<close>

theorem fragments_reassemble:
  assumes "list_all cut_up fs" and "fs \<noteq> []" and "\<not> ib_overflowed s"
    and "ib_unread s + length (concat (concat fs)) \<le> MAX_UNREAD_BYTES"
  shows "fst (feed_pieces (message_pieces OPCODE_BINARY fs) s) = [Incoming_Frame (Binary (concat (concat fs)))] \<and>
    fst (feed_pieces (message_pieces OPCODE_TEXT fs) s) =
      (case from_utf8 (concat (concat fs)) of None \<Rightarrow> [] | Some text \<Rightarrow> [Incoming_Frame (Text text)]) \<and>
    ib_partial (snd (feed_pieces (message_pieces OPCODE_BINARY fs) s)) = [] \<and>
    ib_partial (snd (feed_pieces (message_pieces OPCODE_TEXT fs) s)) = []"
  using message_reassembled [OF assms(1-3) _ assms(4)]
  by (simp add: opcodes finish_with_def message_done_def Let_def split: prod.splits option.splits)

theorem fragments_reassemble_witness:
  "fst (feed_pieces (message_pieces OPCODE_TEXT [[[104], [101]], [[121]]]) inbound_new) =
    [Incoming_Frame (Text ''hey'')] \<and>
   fst (feed_pieces (message_pieces OPCODE_BINARY [[[0xC1], [0xFF]]]) inbound_new) =
    [Incoming_Frame (Binary [0xC1, 0xFF])]"
proof -
  have "from_utf8 (concat (concat [[[104], [101]], [[121]]])) = Some ''hey''" by code_simp
  with fragments_reassemble [of "[[[104], [101]], [[121]]]" inbound_new]
    fragments_reassemble [of "[[[0xC1], [0xFF]]]" inbound_new]
  show ?thesis by (simp add: cut_up_def inbound_new_def MAX_UNREAD_BYTES_def)
qed

text \<open>
  C23: after the server has overrun the bound, the session gets nothing more out of it: the
  overflow is reported once and only closes follow, never a message with a hole in it.
\<close>

theorem overflow_is_final:
  "fst (feed_pieces ps s) = before @ Incoming_Overflow # later \<Longrightarrow>
    list_all (\<lambda>i. \<exists>n. i = Incoming_Closed n) later"
  using nothing_after_overflow [of ps s before later] by (simp add: list_all_iff)

theorem overflow_is_final_witness:
  "let p = \<lparr>pc_opcode = OPCODE_BINARY, pc_fin = True, pc_offset = 0, pc_payload_len = 2, pc_bytes = [1, 2]\<rparr>;
       c = \<lparr>pc_opcode = OPCODE_CLOSE, pc_fin = True, pc_offset = 0, pc_payload_len = 0, pc_bytes = []\<rparr>;
       is = fst (feed_pieces [p, p, c] (inbound_new\<lparr>ib_unread := 16383\<rparr>))
   in is = [Incoming_Overflow, Incoming_Closed 1] \<and> list_all (\<lambda>i. \<exists>n. i = Incoming_Closed n) (tl is)"
proof -
  let ?p = "\<lparr>pc_opcode = OPCODE_BINARY, pc_fin = True, pc_offset = 0, pc_payload_len = 2, pc_bytes = [1, 2]\<rparr>"
  let ?c = "\<lparr>pc_opcode = OPCODE_CLOSE, pc_fin = True, pc_offset = 0, pc_payload_len = 0, pc_bytes = []\<rparr>"
  have run: "fst (feed_pieces [?p, ?p, ?c] (inbound_new\<lparr>ib_unread := 16383\<rparr>)) = [] @ Incoming_Overflow # [Incoming_Closed 1]"
    by (simp add: take_piece_def take_data_def closed_def is_data_def starts_message_def inbound_new_def opcodes
        MAX_UNREAD_BYTES_def Let_def)
  from overflow_is_final [OF run] run show ?thesis by (simp add: Let_def)
qed

text \<open>
  C24: a close the transport reports ends the session only if it came after the connection was
  made: one counted before it belongs to the attempt that failed, and is not taken for this
  session's.
\<close>

theorem stale_closes_are_ignored:
  assumes "In_Connected \<notin> set before"
  shows "ends_session (fold inbound_step (before @ In_Connected # later) inbound_new) k \<longleftrightarrow>
    of_nat (close_count before) < k"
  by (rule ends_session_after [OF assms])

theorem stale_closes_are_ignored_witness:
  "\<not> ends_session (fold inbound_step ([In_Closed] @ In_Connected # []) inbound_new) 1 \<and>
   ends_session (fold inbound_step ([In_Closed] @ In_Connected # []) inbound_new) 2"
  using stale_closes_are_ignored [of "[In_Closed]" "[]" 1] stale_closes_are_ignored [of "[In_Closed]" "[]" 2]
  by (simp add: close_count_def is_close_def del: fold.simps inbound_step.simps append.simps)

end
