(* ===== verification/Transport.thy ===== *)
theory Transport
  imports Tls Inbound
begin

text \<open>
  \<open>src/transport.rs\<close>: the websocket the agent speaks over, on ESP-IDF's websocket client. The
  client's task calls \<open>client_event\<close>, which turns events into what the run loop reads from a queue;
  \<open>ww_queue\<close> is that channel, first in first out. The transport under the client is
  \<open>src/tls.rs\<close>'s (theory Tls) or ESP-IDF's for TCP.
\<close>

definition WEBSOCKET_PING_INTERVAL_SECS :: nat where "WEBSOCKET_PING_INTERVAL_SECS = 24 * 60 * 60"

text \<open>\<open>Partial\<close>: what was made and is not yet a transport.\<close>

record ws_partial =
  pt_client :: "nat option"
  pt_ws :: "nat option"
  pt_base :: "nat option"
  pt_events :: bool

definition no_parts :: ws_partial where
  "no_parts = \<lparr>pt_client = None, pt_ws = None, pt_base = None, pt_events = False\<rparr>"

record ws_transport =
  wt_client :: nat
  wt_ws :: nat
  wt_base :: nat
  wt_stopper :: bool
  wt_recv_timeout :: nat
  wt_send_timeout :: nat

text \<open>The state of \<open>Events\<close>, while it is allocated, with the channel it sends into.\<close>

record ws_world = tls_world +
  ww_partial :: ws_partial
  ww_events :: bool
  ww_inbound :: inbound
  ww_queue :: "incoming list"
  ww_logged :: "string list"

definition set_partial :: "(ws_partial \<Rightarrow> ws_partial) \<Rightarrow> ('s ws_world_scheme, unit) prog" where
  "set_partial g = modify (\<lambda>s. s\<lparr>ww_partial := g (ww_partial s)\<rparr>)"

definition ws_log :: "string \<Rightarrow> ('s ws_world_scheme, unit) prog" where
  "ws_log line = modify (\<lambda>s. s\<lparr>ww_logged := ww_logged s @ [line]\<rparr>)"

subsection \<open>Small parts\<close>

definition nonnull :: "nat option \<Rightarrow> string \<Rightarrow> ('s, nat) prog" where
  "nonnull h what = (case h of
      None \<Rightarrow> fail (Error_Transport (''no memory for the '' @ what))
    | Some handle \<Rightarrow> ok handle)"

definition cstring :: "string \<Rightarrow> ('s, string) prog" where
  "cstring text = (case cstring_new (str_bytes text) of
      None \<Rightarrow> fail (Error_Transport ''a NUL byte in the socket settings'')
    | Some _ \<Rightarrow> ok text)"

definition esp :: "int \<Rightarrow> ('s net_world_scheme, unit) prog" where
  "esp err = (\<lambda>s. if err = 0 then Some (Inr (), s)
     else Some (Inl (Error_Transport (nt_err_text (nw_net s) err)), s))"

text \<open>Destroying a transport runs the callback it was made with: for the TLS one, Tls's.\<close>

definition destroy_base :: "nat \<Rightarrow> ('s tls_world_scheme, unit) prog" where
  "destroy_base h = andthen tls_destroy (\<lambda>_. net_tell (Net_TransportDestroy h))"

definition if_made :: "'a option \<Rightarrow> ('a \<Rightarrow> ('s, unit) prog) \<Rightarrow> ('s, unit) prog" where
  "if_made x f = (case x of None \<Rightarrow> ok () | Some a \<Rightarrow> f a)"

definition free_events :: "('s ws_world_scheme, unit) prog" where
  "free_events = andthen (net_tell Net_EventsFreed) (\<lambda>_. modify (\<lambda>s. s\<lparr>ww_events := False\<rparr>))"

definition partial_drop :: "('s ws_world_scheme, unit) prog" where
  "partial_drop =
     andthen (gets ww_partial) (\<lambda>p.
     andthen (if_made (pt_client p) (\<lambda>c. net_tell (Net_ClientDestroy c))) (\<lambda>_.
     andthen (if_made (pt_ws p) (\<lambda>h. net_tell (Net_TransportDestroy h))) (\<lambda>_.
     andthen (if_made (pt_base p) destroy_base) (\<lambda>_.
     only_if (pt_events p) free_events))))"

definition transport_drop :: "ws_transport \<Rightarrow> ('s ws_world_scheme, unit) prog" where
  "transport_drop w =
     andthen (only_if (wt_stopper w) stopper_stop) (\<lambda>_.
     andthen (net_tell (Net_ClientDestroy (wt_client w))) (\<lambda>_.
     andthen (net_tell (Net_TransportDestroy (wt_ws w))) (\<lambda>_.
     andthen (destroy_base (wt_base w)) (\<lambda>_.
     andthen free_events (\<lambda>_.
     ws_log ''closed the websocket'')))))"

subsection \<open>Connecting\<close>

text \<open>How the device proves itself: the certificate, or the block of headers.\<close>

definition header_block :: "(string \<times> string) list \<Rightarrow> string" where
  "header_block hs = concat (map (\<lambda>(name, v). name @ '': '' @ v @ crlf) hs)"

definition proofs_of ::
    "config \<Rightarrow> ('s net_world_scheme, (bytes \<times> bytes) option \<times> string option) prog" where
  "proofs_of cfg = (case cfg_credentials cfg of
      ClientCertificate certificate private_key \<Rightarrow> ok (Some (certificate, private_key), None)
    | SharedSecretCredentials identifier secret \<Rightarrow>
        andthen (net_ask nt_epoch Net_Epoch) (\<lambda>epoch.
        andthen (gets (\<lambda>s. nt_crypto (nw_net s))) (\<lambda>K.
        ok (None, Some (header_block (headers K secret identifier (now_secs epoch)))))))"

definition make_base :: "config \<Rightarrow> (bytes \<times> bytes) option \<Rightarrow> ('s ws_world_scheme, nat) prog" where
  "make_base cfg certificate =
     (if cfg_use_tls cfg then
        tls_transport \<lparr>st_server_ca = cfg_server_ca cfg, st_client_certificate = certificate,
          st_version = cfg_tls_version cfg\<rparr>
      else andthen (net_ask nt_tcp_init Net_TcpInit) (\<lambda>h. nonnull h ''TCP transport''))"

text \<open>The settings of the upgrade request.\<close>

definition configure_ws :: "config \<Rightarrow> nat \<Rightarrow> string option \<Rightarrow> ('s net_world_scheme, unit) prog" where
  "configure_ws cfg ws block =
     andthen (cstring (socket_path cfg)) (\<lambda>path.
     andthen (case block of None \<Rightarrow> ok None | Some b \<Rightarrow> andthen (cstring b) (\<lambda>c. ok (Some c))) (\<lambda>block.
     andthen (net_ask (\<lambda>N h. nt_ws_config N h ws path block) (Net_WsConfig ws path block)) esp))"

definition client_config_of :: "config \<Rightarrow> nat \<Rightarrow> string \<Rightarrow> client_config" where
  "client_config_of cfg ws uri =
     \<lparr>cc_uri = uri, cc_transport = ws, cc_ping_interval_sec = WEBSOCKET_PING_INTERVAL_SECS,
      cc_disable_pingpong_discon = True, cc_buffer_size = 4096,
      cc_network_timeout_ms = sint (of_nat (unat (cfg_connect_timeout_secs cfg) * 1000) :: 32 word)\<rparr>"

definition make_client :: "config \<Rightarrow> nat \<Rightarrow> ('s ws_world_scheme, nat) prog" where
  "make_client cfg ws =
     andthen (cstring (socket_url cfg)) (\<lambda>uri.
     andthen (net_ask (\<lambda>N h. nt_client_init N h (client_config_of cfg ws uri))
       (Net_ClientInit (client_config_of cfg ws uri))) (\<lambda>client.
     andthen (set_partial (\<lambda>p. p\<lparr>pt_client := client\<rparr>)) (\<lambda>_. case client of
         None \<Rightarrow> fail (Error_Transport ''could not create the websocket client'')
       | Some c \<Rightarrow> ok c)))"

definition make_events :: "('s ws_world_scheme, unit) prog" where
  "make_events =
     andthen (net_tell Net_EventsMade) (\<lambda>_.
     andthen (modify (\<lambda>s. s\<lparr>ww_events := True, ww_inbound := inbound_new, ww_queue := []\<rparr>)) (\<lambda>_.
     set_partial (\<lambda>p. p\<lparr>pt_events := True\<rparr>)))"

text \<open>
  From the first handle to the client's start; an early return leaves what was made in the partial.
\<close>

definition start_client :: "config \<Rightarrow> nat \<Rightarrow> nat \<Rightarrow> nat \<Rightarrow> ('s ws_world_scheme, ws_transport) prog" where
  "start_client cfg base ws client =
     andthen make_events (\<lambda>_.
     andthen (andthen (net_ask (\<lambda>N h. nt_register_events N h client) (Net_RegisterEvents client)) esp) (\<lambda>_.
     andthen (andthen (net_ask (\<lambda>N h. nt_client_start N h client) (Net_ClientStart client)) esp) (\<lambda>_.
     ok \<lparr>wt_client = client, wt_ws = ws, wt_base = base, wt_stopper = cfg_use_tls cfg,
         wt_recv_timeout = 500, wt_send_timeout = 10000\<rparr>)))"

definition assemble_on ::
    "config \<Rightarrow> string option \<Rightarrow> nat \<Rightarrow> ('s ws_world_scheme, ws_transport) prog" where
  "assemble_on cfg block base =
     andthen (set_partial (\<lambda>p. p\<lparr>pt_base := Some base\<rparr>)) (\<lambda>_.
     andthen (net_ask (\<lambda>N h. nt_ws_init N h base) (Net_WsInit base)) (\<lambda>h.
     andthen (nonnull h ''websocket transport'') (\<lambda>ws.
     andthen (set_partial (\<lambda>p. p\<lparr>pt_ws := Some ws\<rparr>)) (\<lambda>_.
     andthen (configure_ws cfg ws block) (\<lambda>_.
     andthen (make_client cfg ws) (\<lambda>client.
     start_client cfg base ws client))))))"

definition assemble :: "config \<Rightarrow> ('s ws_world_scheme, ws_transport) prog" where
  "assemble cfg =
     andthen (set_partial (\<lambda>_. no_parts)) (\<lambda>_.
     andthen (proofs_of cfg) (\<lambda>(certificate, block).
     andthen (make_base cfg certificate) (assemble_on cfg block)))"

definition is_connected :: "ws_transport \<Rightarrow> ('s net_world_scheme, bool) prog" where
  "is_connected w = net_ask (\<lambda>N h. nt_is_connected N h (wt_client w)) (Net_IsConnected (wt_client w))"

definition handshake_timeout :: error where
  "handshake_timeout = Error_Transport ''timed out waiting for the WebSocket handshake''"

definition await_turn :: "ws_transport \<Rightarrow> nat \<Rightarrow> unit \<Rightarrow> ('s net_world_scheme, unit + unit) prog" where
  "await_turn w deadline _ =
     andthen (is_connected w) (\<lambda>up.
     if up then ok (Inr ())
     else
       andthen (net_ask nt_clock Net_Clock) (\<lambda>now.
       if deadline \<le> now then fail handshake_timeout
       else andthen (net_tell (Net_Sleep 50)) (\<lambda>_. ok (Inl ()))))"

definition await_connection :: "config \<Rightarrow> ws_transport \<Rightarrow> ('s net_world_scheme, unit) prog" where
  "await_connection cfg w =
     andthen (net_ask nt_clock Net_Clock) (\<lambda>now.
     iterate (await_turn w (now + unat (cfg_connect_timeout_secs cfg) * 1000)) ())"

definition log_handshake :: "config \<Rightarrow> ('s ws_world_scheme, unit) prog" where
  "log_handshake cfg =
     only_if (cfg_use_tls cfg) (andthen (gets tw_session) (\<lambda>ses.
       let protocol = (case last_protocol ses of None \<Rightarrow> '''' | Some p \<Rightarrow> p)
       in case last_handshake ses of
          Some Resumed \<Rightarrow> ws_log (''TLS session resumed ('' @ protocol @ '')'')
        | Some Full \<Rightarrow> ws_log (''TLS full handshake ('' @ protocol @ '')'')
        | None \<Rightarrow> ok ()))"

text \<open>\<open>WebSocketTransport::connect\<close>: an error drops the partial, or the transport it became.\<close>

definition ws_connect :: "config \<Rightarrow> ('s ws_world_scheme, ws_transport) prog" where
  "ws_connect cfg =
     andthen (attempt (assemble cfg)) (\<lambda>r. case r of
       Inl e \<Rightarrow> andthen partial_drop (\<lambda>_. fail e)
     | Inr w \<Rightarrow>
         andthen (attempt (await_connection cfg w)) (\<lambda>r. case r of
           Inl e \<Rightarrow> andthen (transport_drop w) (\<lambda>_. fail e)
         | Inr _ \<Rightarrow> andthen (log_handshake cfg) (\<lambda>_. ok w)))"

subsection \<open>The client's events\<close>

text \<open>
  \<open>esp_websocket_event_data_t\<close>, as far as it is read. The integers are C's; the buffer is the
  bytes the pointer gives, \<open>None\<close> for null.
\<close>

record ws_data =
  wd_op_code :: u8
  wd_fin :: bool
  wd_payload_offset :: int
  wd_payload_len :: int
  wd_data :: "bytes option"
  wd_data_len :: int

datatype ws_event =
    Event_Data "ws_data option"
  | Event_Connected
  | Event_Disconnected
  | Event_Closed
  | Event_Other

definition piece_of :: "ws_data \<Rightarrow> piece" where
  "piece_of d = \<lparr>pc_opcode = wd_op_code d, pc_fin = wd_fin d,
     pc_offset = (if wd_payload_offset d < 0 then 0 else nat (wd_payload_offset d)),
     pc_payload_len = (if wd_payload_len d < 0 then 0 else nat (wd_payload_len d)),
     pc_bytes = (case wd_data d of
         None \<Rightarrow> []
       | Some bs \<Rightarrow> if wd_data_len d \<le> 0 then [] else take (nat (wd_data_len d)) bs)\<rparr>"

text \<open>What an event sends, and the reassembly after it.\<close>

definition event_sends :: "ws_event \<Rightarrow> inbound \<Rightarrow> incoming option \<times> inbound" where
  "event_sends ev ib = (case ev of
      Event_Data None \<Rightarrow> (None, ib)
    | Event_Data (Some d) \<Rightarrow> take_piece (piece_of d) ib
    | Event_Connected \<Rightarrow> (None, connected ib)
    | Event_Disconnected \<Rightarrow> (case closed ib of (c, ib') \<Rightarrow> (Some c, ib'))
    | Event_Closed \<Rightarrow> (case closed ib of (c, ib') \<Rightarrow> (Some c, ib'))
    | Event_Other \<Rightarrow> (None, ib))"

definition client_event :: "ws_event \<Rightarrow> ('s ws_world_scheme, unit) prog" where
  "client_event ev =
     andthen (gets ww_events) (\<lambda>alive.
     only_if alive (modify (\<lambda>s. case event_sends ev (ww_inbound s) of (sent, ib) \<Rightarrow>
       s\<lparr>ww_inbound := ib, ww_queue := ww_queue s @ (case sent of None \<Rightarrow> [] | Some i \<Rightarrow> [i])\<rparr>)))"

subsection \<open>Sending and receiving\<close>

definition ws_send_bytes :: "ws_transport \<Rightarrow> bool \<Rightarrow> bytes \<Rightarrow> ('s net_world_scheme, unit) prog" where
  "ws_send_bytes w binary bs =
     andthen (net_ask (\<lambda>N h. nt_send N h (wt_client w) binary bs) (Net_Send (wt_client w) binary bs)) (\<lambda>sent.
     if sent < 0 then fail (Error_Transport ''websocket send failed'') else ok ())"

definition ws_send :: "ws_transport \<Rightarrow> string \<Rightarrow> ('s net_world_scheme, unit) prog" where
  "ws_send w text = ws_send_bytes w False (str_bytes text)"

definition ws_send_binary :: "ws_transport \<Rightarrow> bytes \<Rightarrow> ('s net_world_scheme, unit) prog" where
  "ws_send_binary w bs = ws_send_bytes w True bs"

text \<open>
  \<open>recv_timeout\<close>: the first in the channel. An empty one times out, or says that its sender is
  gone, which is once the events are freed.
\<close>

definition take_queued :: "('s ws_world_scheme, incoming option) prog" where
  "take_queued = (\<lambda>s. case ww_queue s of
      [] \<Rightarrow> if ww_events s then Some (Inr None, s)
            else Some (Inl (Error_Transport ''websocket closed''), s)
    | i # queue \<Rightarrow> Some (Inr (Some i), s\<lparr>ww_queue := queue\<rparr>))"

definition overflow_text :: string where
  "overflow_text = ''more than '' @ dec_nat MAX_UNREAD_BYTES @
     '' bytes arrived from NervesHub without being read; dropping the connection''"

definition take_incoming :: "incoming option \<Rightarrow> ('s ws_world_scheme, frame option) prog" where
  "take_incoming i = (case i of
      None \<Rightarrow> ok None
    | Some (Incoming_Frame f) \<Rightarrow>
        andthen (modify (\<lambda>s. s\<lparr>ww_inbound := inbound_read f (ww_inbound s)\<rparr>)) (\<lambda>_. ok (Some f))
    | Some Incoming_Overflow \<Rightarrow>
        andthen (ws_log overflow_text) (\<lambda>_. fail (Error_Transport ''too much arrived unread''))
    | Some (Incoming_Closed n) \<Rightarrow>
        andthen (gets (\<lambda>s. ends_session (ww_inbound s) n)) (\<lambda>ends.
        if ends then
          andthen (ws_log ''websocket closed'') (\<lambda>_. fail (Error_Transport ''websocket closed''))
        else
          andthen (ws_log ''ignoring the close of an attempt from before the connection'') (\<lambda>_. ok None)))"

definition ws_recv_frame :: "('s ws_world_scheme, frame option) prog" where
  "ws_recv_frame = andthen take_queued take_incoming"

definition ws_recv :: "('s ws_world_scheme, string option) prog" where
  "ws_recv = andthen ws_recv_frame (\<lambda>f. case f of
      Some (Text text) \<Rightarrow> ok (Some text)
    | Some (Binary bs) \<Rightarrow>
        andthen (ws_log (''ignoring a '' @ dec_nat (length bs) @ ''-byte binary frame'')) (\<lambda>_. ok None)
    | None \<Rightarrow> ok None)"

subsection \<open>What is made and given back\<close>

text \<open>
  The transports and the client, the last made first. Each may only be given back when it is the
  last: the client before the transports it runs over, and a transport before the one under it.
\<close>

datatype ws_resource = Res_Transport nat | Res_Client nat

fun made_by :: "net_call \<Rightarrow> ws_resource option" where
  "made_by (Net_TransportInit h) = map_option Res_Transport h"
| "made_by (Net_TcpInit h) = map_option Res_Transport h"
| "made_by (Net_WsInit _ h) = map_option Res_Transport h"
| "made_by (Net_ClientInit _ h) = map_option Res_Client h"
| "made_by _ = None"

fun freed_by :: "net_call \<Rightarrow> ws_resource option" where
  "freed_by (Net_TransportDestroy h) = Some (Res_Transport h)"
| "freed_by (Net_ClientDestroy h) = Some (Res_Client h)"
| "freed_by _ = None"

text \<open>The stack after some calls; \<open>None\<close> once something was given back out of turn.\<close>

definition held_after :: "net_call \<Rightarrow> ws_resource list option \<Rightarrow> ws_resource list option" where
  "held_after c st = (case st of
      None \<Rightarrow> None
    | Some held \<Rightarrow> (case freed_by c of
        Some r \<Rightarrow> (if held \<noteq> [] \<and> hd held = r then Some (tl held) else None)
      | None \<Rightarrow> (case made_by c of Some r \<Rightarrow> Some (r # held) | None \<Rightarrow> Some held)))"

definition ws_held :: "net_call list \<Rightarrow> ws_resource list option" where
  "ws_held calls = fold held_after calls (Some [])"

lemma ws_held_append [simp]: "ws_held (a @ b) = fold held_after b (ws_held a)"
  by (simp add: ws_held_def)

text \<open>The events' box: made and freed in turn.\<close>

fun box_after :: "net_call \<Rightarrow> nat option \<Rightarrow> nat option" where
  "box_after Net_EventsMade n = map_option Suc n"
| "box_after Net_EventsFreed n = (case n of Some (Suc k) \<Rightarrow> Some k | _ \<Rightarrow> None)"
| "box_after _ n = n"

definition boxes :: "net_call list \<Rightarrow> nat option" where
  "boxes calls = fold box_after calls (Some 0)"

lemma boxes_append [simp]: "boxes (a @ b) = fold box_after b (boxes a)"
  by (simp add: boxes_def)

text \<open>
  The client's callback uses the box, so it is only freed when no client is left to call it.
\<close>

definition no_client :: "ws_resource list option \<Rightarrow> bool" where
  "no_client st = (case st of None \<Rightarrow> False
     | Some held \<Rightarrow> list_all (\<lambda>r. case r of Res_Client _ \<Rightarrow> False | Res_Transport _ \<Rightarrow> True) held)"

primrec box_freed_last :: "net_call list \<Rightarrow> net_call list \<Rightarrow> bool" where
  "box_freed_last past [] = True"
| "box_freed_last past (c # cs) =
     ((if c = Net_EventsFreed then no_client (ws_held past) else True) \<and> box_freed_last (past @ [c]) cs)"

definition box_outlives_client :: "net_call list \<Rightarrow> bool" where
  "box_outlives_client calls = box_freed_last [] calls"

lemma box_freed_last_append:
  "box_freed_last past (a @ b) \<longleftrightarrow> box_freed_last past a \<and> box_freed_last (past @ a) b"
  by (induction a arbitrary: past) simp_all

lemma box_outlives_append [simp]:
  "box_outlives_client (a @ b) \<longleftrightarrow> box_outlives_client a \<and> box_freed_last a b"
  by (simp add: box_outlives_client_def box_freed_last_append)

text \<open>So at every point where it is freed there is none.\<close>

lemma box_outlivesD: "box_outlives_client (a @ Net_EventsFreed # b) \<Longrightarrow> no_client (ws_held a)"
  by simp

text \<open>
  What a transport's parts hold, and the state of a run that has made them: on the network
  \<open>N\<close>, with the partial \<open>p\<close>, the resources \<open>held\<close> and \<open>n\<close> boxes.
\<close>

definition parts_held :: "ws_partial \<Rightarrow> ws_resource list" where
  "parts_held p = (case pt_client p of None \<Rightarrow> [] | Some c \<Rightarrow> [Res_Client c])
     @ (case pt_ws p of None \<Rightarrow> [] | Some h \<Rightarrow> [Res_Transport h])
     @ (case pt_base p of None \<Rightarrow> [] | Some h \<Rightarrow> [Res_Transport h])"

definition holding :: "net \<Rightarrow> ws_partial \<Rightarrow> ws_resource list \<Rightarrow> nat \<Rightarrow> 's ws_world_scheme \<Rightarrow> bool" where
  "holding N p held n s \<longleftrightarrow> nw_net s = N \<and> ww_partial s = p \<and>
     ws_held (nw_calls s) = Some held \<and> boxes (nw_calls s) = Some n \<and> box_outlives_client (nw_calls s)"

definition assembled :: "net \<Rightarrow> 's ws_world_scheme \<Rightarrow> bool" where
  "assembled N s \<longleftrightarrow> (\<exists>p. holding N p (parts_held p) (if pt_events p then 1 else 0) s)"

lemma assembledI: "holding N p held n s \<Longrightarrow> held = parts_held p \<Longrightarrow> n = (if pt_events p then 1 else 0) \<Longrightarrow> assembled N s"
  unfolding assembled_def by blast

definition neutral :: "net_call \<Rightarrow> bool" where
  "neutral c \<longleftrightarrow> made_by c = None \<and> freed_by c = None \<and> (\<forall>n. box_after c n = n)"

lemma neutral_held: "neutral c \<Longrightarrow> held_after c st = st"
  by (simp add: neutral_def held_after_def split: option.split)

lemma neutral_box: "neutral c \<Longrightarrow> box_after c n = n"
  by (simp add: neutral_def)

lemma neutral_not_freed: "neutral c \<Longrightarrow> c \<noteq> Net_EventsFreed"
  using neutral_box [of Net_EventsFreed "Some 1"] by auto

lemma runs_ask:
  assumes "\<And>s. P s \<Longrightarrow> Q (f (nw_net s) (nw_calls s))
    (s\<lparr>nw_calls := nw_calls s @ [ev (f (nw_net s) (nw_calls s))]\<rparr>)"
  shows "runs P (net_ask f ev) Q E"
  using assms by (auto simp: runs_def net_ask_run)

lemma runs_ask_neutral:
  "(\<And>a. neutral (ev a)) \<Longrightarrow> runs (holding N p held n) (net_ask f ev) (\<lambda>_. holding N p held n) E"
  by (rule runs_ask) (simp add: holding_def neutral_held neutral_box neutral_not_freed)

lemma runs_tell_neutral:
  "neutral c \<Longrightarrow> runs (holding N p held n) (net_tell c) (\<lambda>_. holding N p held n) E"
  by (simp add: net_tell_def runs_ask_neutral)

lemma runs_set_partial: "runs (holding N p held n) (set_partial g) (\<lambda>_. holding N (g p) held n) E"
  by (auto simp: runs_def set_partial_def prog_run holding_def)

lemma runs_gets_any: "runs (holding N p held n) (gets f) (\<lambda>_. holding N p held n) E"
  by (simp add: runs_gets)

lemma runs_ok_any: "runs (holding N p held n) (ok a) (\<lambda>_. holding N p held n) E"
  by (simp add: runs_ok)

lemma runs_fail_assembled:
  "held = parts_held p \<Longrightarrow> n = (if pt_events p then 1 else 0) \<Longrightarrow>
     runs (holding N p held n) (fail e) Q (assembled N)"
  by (rule runs_fail) (rule assembledI)

lemma runs_log_any: "runs (holding N p held n) (ws_log line) (\<lambda>_. holding N p held n) E"
  by (auto simp: runs_def ws_log_def prog_run holding_def)

lemma runs_cstring:
  "held = parts_held p \<Longrightarrow> n = (if pt_events p then 1 else 0) \<Longrightarrow>
     runs (holding N p held n) (cstring text) (\<lambda>_. holding N p held n) (assembled N)"
  by (auto simp: cstring_def runs_ok_any intro: runs_fail_assembled split: option.split)

lemma runs_esp:
  "held = parts_held p \<Longrightarrow> n = (if pt_events p then 1 else 0) \<Longrightarrow>
     runs (holding N p held n) (esp err) (\<lambda>_. holding N p held n) (assembled N)"
  by (auto simp: runs_def esp_def intro: assembledI)

subsection \<open>Assembling\<close>

lemma neutral_simps [simp]:
  "neutral (Net_Epoch x)" "neutral (Net_WsConfig h path block err)" "neutral (Net_RegisterEvents h err)"
  "neutral (Net_ClientStart h err)" "neutral (Net_IsConnected h up)" "neutral (Net_Clock now)"
  "neutral (Net_Sleep ms)" "neutral (Net_TlsDestroy tls)" "neutral Net_Stop" "neutral (Net_Shutdown fd)"
  "neutral (Net_TransportInit None)" "neutral (Net_ClientInit c None)" "neutral (Net_WsInit h None)" "neutral (Net_TcpInit None)"
  by (simp_all add: neutral_def)

lemma assembled_neutral: "assembled N s \<Longrightarrow> neutral c \<Longrightarrow> assembled N (s\<lparr>nw_calls := nw_calls s @ [c]\<rparr>)"
  by (auto simp: assembled_def holding_def neutral_held neutral_box neutral_not_freed)

lemma parts_no_parts [simp]: "parts_held no_parts = []" "pt_events no_parts = False"
  by (simp_all add: parts_held_def no_parts_def)

lemma runs_proofs: "runs (holding N no_parts [] 0) (proofs_of cfg) (\<lambda>_. holding N no_parts [] 0) (assembled N)"
  unfolding proofs_of_def
  by (auto intro!: runs_ok_any runs_andthen runs_ask_neutral runs_gets_any split: credentials.split)

lemma runs_make_base:
  "runs (holding N no_parts [] 0) (make_base cfg certificate)
     (\<lambda>b. holding N no_parts [Res_Transport b] 0) (assembled N)"
proof (rule runsI)
  fix s :: "'a ws_world_scheme"
  assume s: "holding N no_parts [] 0 s"
  then have a: "assembled N s" by (rule assembledI) simp_all
  show "\<exists>r t. make_base cfg certificate s = Some (r, t) \<and> (case r of Inl _ \<Rightarrow> assembled N t
      | Inr b \<Rightarrow> holding N no_parts [Res_Transport b] 0 t)"
    using s a
    by (auto simp: make_base_def tls_transport_def build_has_def set_socket_def prog_simps nonnull_def
        holding_def held_after_def assembled_neutral split: option.split sum.split)
qed

lemma runs_configure:
  "held = parts_held p \<Longrightarrow> n = (if pt_events p then 1 else 0) \<Longrightarrow>
     runs (holding N p held n) (configure_ws cfg ws block) (\<lambda>_. holding N p held n) (assembled N)"
  unfolding configure_ws_def
  by (auto intro!: runs_andthen runs_cstring runs_ask_neutral runs_esp runs_ok_any split: option.split)

lemma runs_make_client:
  assumes "pt_client p = None" and "held = parts_held p" and "n = (if pt_events p then 1 else 0)"
  shows "runs (holding N p held n) (make_client cfg ws)
    (\<lambda>c. holding N (p\<lparr>pt_client := Some c\<rparr>) (Res_Client c # held) n) (assembled N)"
  unfolding make_client_def
proof (rule runs_andthen [OF runs_cstring [OF assms(2,3)]], rule runs_andthen)
  fix uri
  let ?cfg = "client_config_of cfg ws uri"
  let ?Q = "\<lambda>c. holding N p (case c of None \<Rightarrow> held | Some h \<Rightarrow> Res_Client h # held) n"
  show "runs (holding N p held n) (net_ask (\<lambda>N h. nt_client_init N h ?cfg) (Net_ClientInit ?cfg)) ?Q (assembled N)"
    by (rule runs_ask) (auto simp: holding_def held_after_def split: option.split)
  fix client
  show "runs (?Q client) (andthen (set_partial (\<lambda>p. p\<lparr>pt_client := client\<rparr>)) (\<lambda>_. case client of
        None \<Rightarrow> fail (Error_Transport ''could not create the websocket client'')
      | Some c \<Rightarrow> ok c))
    (\<lambda>c. holding N (p\<lparr>pt_client := Some c\<rparr>) (Res_Client c # held) n) (assembled N)"
    by (rule runs_andthen [OF runs_set_partial])
      (auto intro!: runs_ok runs_fail_assembled simp: assms parts_held_def split: option.split)
qed

lemma runs_make_events:
  assumes "\<not> pt_events p"
  shows "runs (holding N p held 0) make_events (\<lambda>_. holding N (p\<lparr>pt_events := True\<rparr>) held 1) E"
  using assms by (auto simp: runs_def make_events_def andthen_net_tell andthen_modify set_partial_def prog_run
      holding_def held_after_def)

definition made :: "net \<Rightarrow> ws_transport \<Rightarrow> 's ws_world_scheme \<Rightarrow> bool" where
  "made N w s \<longleftrightarrow> (\<exists>p. holding N p [Res_Client (wt_client w), Res_Transport (wt_ws w), Res_Transport (wt_base w)] 1 s)"

lemma runs_start_client:
  assumes "parts_held p = [Res_Client c, Res_Transport ws, Res_Transport base]" and "\<not> pt_events p"
  shows "runs (holding N p (parts_held p) 0) (start_client cfg base ws c) (\<lambda>w. made N w) (assembled N)"
proof -
  let ?p = "p\<lparr>pt_events := True\<rparr>"
  have p: "parts_held ?p = parts_held p" "pt_events ?p" by (simp_all add: parts_held_def)
  have keep: "runs (holding N ?p (parts_held p) 1) (andthen (net_ask f ev) esp)
      (\<lambda>_. holding N ?p (parts_held p) 1) (assembled N)"
    if "\<And>a. neutral (ev a)" for f and ev :: "int \<Rightarrow> net_call"
    by (rule runs_andthen [OF runs_ask_neutral [OF that] runs_esp]) (simp_all add: p)
  show ?thesis
    unfolding start_client_def
    by (rule runs_andthen [OF runs_make_events [OF assms(2)]], rule runs_andthen [OF keep], simp,
        rule runs_andthen [OF keep], simp, rule runs_ok)
      (auto simp: made_def assms(1))
qed

lemma runs_assemble_on:
  "runs (holding N no_parts [Res_Transport base] 0) (assemble_on cfg block base) (\<lambda>w. made N w) (assembled N)"
proof -
  let ?p1 = "no_parts\<lparr>pt_base := Some base\<rparr>"
  let ?p2 = "\<lambda>ws. ?p1\<lparr>pt_ws := Some ws\<rparr>"
  have p1: "parts_held ?p1 = [Res_Transport base]" "\<not> pt_events ?p1"
    by (simp_all add: parts_held_def no_parts_def)
  have p2: "parts_held (?p2 ws) = [Res_Transport ws, Res_Transport base]" "\<not> pt_events (?p2 ws)"
      "pt_client (?p2 ws) = None" for ws
    by (simp_all add: parts_held_def no_parts_def)
  let ?Q = "\<lambda>h. holding N ?p1 (case h of None \<Rightarrow> [Res_Transport base] | Some ws \<Rightarrow> [Res_Transport ws, Res_Transport base]) 0"
  have init: "runs (holding N ?p1 [Res_Transport base] 0) (net_ask (\<lambda>N h. nt_ws_init N h base) (Net_WsInit base)) ?Q E" for E
    by (rule runs_ask) (auto simp: holding_def held_after_def split: option.split)
  have got: "runs (?Q h) (nonnull h what) (\<lambda>ws. holding N ?p1 [Res_Transport ws, Res_Transport base] 0) (assembled N)"
    for h what
    by (cases h) (auto simp: nonnull_def p1 intro!: runs_ok runs_fail_assembled)
  have client: "runs (holding N (?p2 ws) [Res_Transport ws, Res_Transport base] 0) (make_client cfg ws)
      (\<lambda>c. holding N ((?p2 ws)\<lparr>pt_client := Some c\<rparr>) [Res_Client c, Res_Transport ws, Res_Transport base] 0)
      (assembled N)" for ws
    by (rule runs_weaken [OF runs_make_client [OF p2(3) refl, of 0]]) (simp_all add: p2)
  have start: "runs (holding N ((?p2 ws)\<lparr>pt_client := Some c\<rparr>) [Res_Client c, Res_Transport ws, Res_Transport base] 0)
      (start_client cfg base ws c) (\<lambda>w. made N w) (assembled N)" for ws c
    by (rule runs_weaken [OF runs_start_client [of "(?p2 ws)\<lparr>pt_client := Some c\<rparr>"]])
      (simp_all add: parts_held_def no_parts_def)
  show ?thesis
    unfolding assemble_on_def
    by (rule runs_andthen [OF runs_set_partial], rule runs_andthen [OF init], rule runs_andthen [OF got],
        rule runs_andthen [OF runs_set_partial], rule runs_andthen [OF runs_configure],
        simp add: p2, simp add: p2, rule runs_andthen [OF client], rule start)
qed

lemma runs_assemble: "runs (holding N p [] 0) (assemble cfg) (\<lambda>w. made N w) (assembled N)"
  unfolding assemble_def split_def
  by (rule runs_andthen [OF runs_set_partial], rule runs_andthen [OF runs_proofs],
      rule runs_andthen [OF runs_make_base], rule runs_assemble_on)

subsection \<open>Giving back\<close>

lemma runs_tls_destroy: "runs (holding N p held n) tls_destroy (\<lambda>_. holding N p held n) E"
  by (auto simp: runs_def tls_destroy_def ctx_close_def set_socket_def set_context_def prog_simps andthen_net_tell
      holding_def neutral_held neutral_box neutral_not_freed split: option.split)

lemma runs_stopper_stop: "runs (holding N p held n) stopper_stop (\<lambda>_. holding N p held n) E"
  unfolding stopper_stop_def
  by (auto intro!: runs_andthen [OF runs_tell_neutral] runs_andthen [OF runs_gets_any] runs_only_if runs_tell_neutral)

lemma runs_free:
  assumes "freed_by c = Some r" and "\<And>n. box_after c n = n"
  shows "runs (holding N p (r # held) n) (net_tell c) (\<lambda>_. holding N p held n) E"
proof -
  have "c \<noteq> Net_EventsFreed" using assms(2) [of "Some 1"] by auto
  then show ?thesis
    unfolding net_tell_def using assms by (intro runs_ask) (simp add: holding_def held_after_def)
qed

lemma runs_destroy_base:
  "runs (holding N p (Res_Transport h # held) n) (destroy_base h) (\<lambda>_. holding N p held n) E"
  unfolding destroy_base_def by (rule runs_andthen [OF runs_tls_destroy]) (simp add: runs_free)

lemma runs_free_events: "runs (holding N p [] 1) free_events (\<lambda>_. holding N p [] 0) E"
  by (auto simp: no_client_def runs_def free_events_def andthen_net_tell prog_run holding_def held_after_def)

lemma runs_if_made:
  assumes "\<And>a. runs (P (Some a)) (f a) (\<lambda>_. P None) E"
  shows "runs (P x) (if_made x f) (\<lambda>_. P None) E"
  using assms by (cases x) (auto simp: if_made_def intro: runs_ok)

definition part_held :: "('a \<Rightarrow> ws_resource) \<Rightarrow> 'a option \<Rightarrow> ws_resource list" where
  "part_held C x = (case x of None \<Rightarrow> [] | Some a \<Rightarrow> [C a])"

lemma parts_held_eq: "parts_held p =
    part_held Res_Client (pt_client p) @ part_held Res_Transport (pt_ws p) @ part_held Res_Transport (pt_base p)"
  by (simp add: parts_held_def part_held_def)

definition none_held :: "net \<Rightarrow> 's ws_world_scheme \<Rightarrow> bool" where
  "none_held N s \<longleftrightarrow> (\<exists>p. holding N p [] 0 s)"

lemma holding_self: "holding N p held n s \<Longrightarrow> ww_partial s = p"
  by (simp add: holding_def)

lemma runs_drop_parts:
  fixes N n p held
  defines "H \<equiv> \<lambda>held. holding N p held (n :: nat)"
  shows "runs (H (part_held Res_Client x @ held)) (if_made x (\<lambda>c. net_tell (Net_ClientDestroy c))) (\<lambda>_. H held) E"
    and "runs (H (part_held Res_Transport x @ held)) (if_made x (\<lambda>h. net_tell (Net_TransportDestroy h))) (\<lambda>_. H held) E"
    and "runs (H (part_held Res_Transport x @ held)) (if_made x destroy_base) (\<lambda>_. H held) E"
  by (cases x; simp add: H_def if_made_def part_held_def runs_free runs_destroy_base runs_ok)+

lemma runs_partial_drop: "runs (assembled N) partial_drop (\<lambda>_. none_held N) E"
proof (rule runsI)
  fix s :: "'a ws_world_scheme"
  assume "assembled N s"
  then obtain p n where p: "holding N p (parts_held p) n s" and n: "n = (if pt_events p then 1 else 0)"
    by (auto simp only: assembled_def)
  have free: "runs (holding N p [] 1) free_events (\<lambda>_. none_held N) E"
    by (rule runs_weaken [OF runs_free_events]) (auto simp: none_held_def)
  have e: "runs (holding N p [] n) (only_if (pt_events p) free_events) (\<lambda>_. none_held N) E"
    by (cases "pt_events p") (use free in \<open>auto simp: n none_held_def runs_def prog_run\<close>)
  have b: "runs (holding N p (part_held Res_Transport (pt_base p)) n) (if_made (pt_base p) destroy_base)
      (\<lambda>_. holding N p [] n) E"
    using runs_drop_parts(3) [where p = p and n = n and N = N and x = "pt_base p" and held = "[]" and E = E] by simp
  have "runs (holding N p (parts_held p) n)
      (andthen (if_made (pt_client p) (\<lambda>c. net_tell (Net_ClientDestroy c))) (\<lambda>_.
       andthen (if_made (pt_ws p) (\<lambda>h. net_tell (Net_TransportDestroy h))) (\<lambda>_.
       andthen (if_made (pt_base p) destroy_base) (\<lambda>_. only_if (pt_events p) free_events))))
      (\<lambda>_. none_held N) E"
    unfolding parts_held_eq
    by (rule runs_andthen [OF runs_drop_parts(1) runs_andthen [OF runs_drop_parts(2) runs_andthen [OF b e]]])
  from this p show "\<exists>r t. partial_drop s = Some (r, t) \<and> (case r of Inl _ \<Rightarrow> E t | Inr _ \<Rightarrow> none_held N t)"
    by (cases rule: runsE) (auto simp: partial_drop_def andthen_gets holding_self [OF p])
qed

lemma runs_transport_drop: "runs (made N w) (transport_drop w) (\<lambda>_. none_held N) E"
proof (rule runsI)
  fix s :: "'a ws_world_scheme"
  let ?held = "[Res_Client (wt_client w), Res_Transport (wt_ws w), Res_Transport (wt_base w)]"
  assume "made N w s"
  then obtain p where p: "holding N p ?held 1 s" by (auto simp only: made_def)
  have stop: "runs (holding N p ?held 1) (only_if (wt_stopper w) stopper_stop) (\<lambda>_. holding N p ?held 1) E"
    by (auto intro!: runs_only_if runs_stopper_stop)
  have log: "runs (holding N p [] 0) (ws_log line) (\<lambda>_. none_held N) E" for line
    by (rule runs_weaken [OF runs_log_any]) (auto simp: none_held_def)
  have "runs (holding N p ?held 1) (transport_drop w) (\<lambda>_. none_held N) E"
    unfolding transport_drop_def
    by (rule runs_andthen [OF stop], rule runs_andthen [OF runs_free], simp, simp,
        rule runs_andthen [OF runs_free], simp, simp, rule runs_andthen [OF runs_destroy_base],
        rule runs_andthen [OF runs_free_events log])
  from this p show "\<exists>r t. transport_drop w s = Some (r, t) \<and> (case r of Inl _ \<Rightarrow> E t | Inr _ \<Rightarrow> none_held N t)"
    by (cases rule: runsE) auto
qed

subsection \<open>Waiting for the handshake\<close>

text \<open>\<open>Instant::now()\<close>, in milliseconds, counts at least what was slept.\<close>

definition slept :: "net_call list \<Rightarrow> nat" where
  "slept calls = length (filter (\<lambda>c. c = Net_Sleep 50) calls)"

definition clock_counts_sleep :: "net \<Rightarrow> bool" where
  "clock_counts_sleep N \<longleftrightarrow> (\<forall>h. 50 * slept h \<le> nt_clock N h)"

lemma holding_call:
  "neutral c \<Longrightarrow> holding N p held n (s\<lparr>nw_calls := nw_calls s @ [c]\<rparr>) \<longleftrightarrow> holding N p held n s"
  by (simp add: holding_def neutral_held neutral_box neutral_not_freed)

lemma await_turn_run:
  assumes "clock_counts_sleep N" and "holding N p held n s"
  shows "\<exists>r t. await_turn w deadline () s = Some (r, t) \<and> (case r of
      Inl _ \<Rightarrow> holding N p held n t
    | Inr (Inl _) \<Rightarrow> holding N p held n t \<and> deadline - slept (nw_calls t) < deadline - slept (nw_calls s)
    | Inr (Inr _) \<Rightarrow> holding N p held n t)"
proof -
  let ?calls = "nw_calls s @ [Net_IsConnected (wt_client w) False]"
  have "50 * slept (nw_calls s) \<le> nt_clock N ?calls"
    using assms(1) [unfolded clock_counts_sleep_def, rule_format, of ?calls] by (simp add: slept_def)
  moreover have "slept (?calls @ [Net_Clock now, Net_Sleep 50]) = Suc (slept (nw_calls s))" for now
    by (simp add: slept_def)
  ultimately show ?thesis
    using assms(2) by (auto simp: await_turn_def is_connected_def prog_simps holding_def neutral_held neutral_box neutral_not_freed)
qed

lemma runs_await:
  assumes "clock_counts_sleep N"
  shows "runs (holding N p held n) (await_connection cfg w) (\<lambda>_. holding N p held n) (holding N p held n)"
  unfolding await_connection_def
proof (rule runs_andthen [OF runs_ask_neutral])
  fix now
  let ?deadline = "now + unat (cfg_connect_timeout_secs cfg) * 1000"
  show "runs (holding N p held n) (iterate (await_turn w ?deadline) ()) (\<lambda>_. holding N p held n) (holding N p held n)"
    apply (rule runs_iterate [where I = "\<lambda>_. holding N p held n"
        and \<mu> = "\<lambda>_ s. ?deadline - slept (nw_calls s)"])
    subgoal premises s for l s
      using await_turn_run [OF assms s, of w ?deadline] by simp
    done
qed simp

lemma runs_log_handshake: "runs (holding N p held n) (log_handshake cfg) (\<lambda>_. holding N p held n) E"
  unfolding log_handshake_def Let_def
  by (auto intro!: runs_only_if runs_andthen [OF runs_gets_any] runs_log_any runs_ok_any
      split: option.split handshake.split)

lemma runs_made:
  fixes m :: "('a ws_world_scheme, 'b) prog"
  assumes "\<And>p. runs (holding N p [Res_Client (wt_client w), Res_Transport (wt_ws w), Res_Transport (wt_base w)] 1)
    m (\<lambda>_. holding N p [Res_Client (wt_client w), Res_Transport (wt_ws w), Res_Transport (wt_base w)] 1) (\<lambda>s. made N w s)"
  shows "runs (made N w) m (\<lambda>_. made N w) (made N w)"
proof (rule runsI)
  fix s :: "'a ws_world_scheme"
  assume "made N w s"
  then obtain p where "holding N p [Res_Client (wt_client w), Res_Transport (wt_ws w), Res_Transport (wt_base w)] 1 s"
    unfolding made_def by blast
  from assms [of p] this show "\<exists>r t. m s = Some (r, t) \<and> (case r of Inl _ \<Rightarrow> made N w t | Inr _ \<Rightarrow> made N w t)"
    by (cases rule: runsE) (auto simp: made_def)
qed

lemma runs_log_made: "runs (made N w) (log_handshake cfg) (\<lambda>_. made N w) E"
proof (rule runsI)
  fix s :: "'a ws_world_scheme"
  assume "made N w s"
  then obtain p where
    "holding N p [Res_Client (wt_client w), Res_Transport (wt_ws w), Res_Transport (wt_base w)] 1 s"
    unfolding made_def by blast
  from runs_log_handshake [of N p _ 1 cfg] this show "\<exists>r t. log_handshake cfg s = Some (r, t) \<and>
      (case r of Inl _ \<Rightarrow> E t | Inr _ \<Rightarrow> made N w t)"
    by (cases rule: runsE) (auto simp: made_def)
qed

lemma runs_connect:
  assumes "clock_counts_sleep N"
  shows "runs (none_held N) (ws_connect cfg) (\<lambda>w. made N w) (none_held N)"
proof (rule runsI)
  fix s :: "'a ws_world_scheme"
  assume "none_held N s"
  then obtain p where p: "holding N p [] 0 s" by (auto simp only: none_held_def)
  have refused: "runs (assembled N) (andthen partial_drop (\<lambda>_. fail e)) (\<lambda>w. made N w) (none_held N)" for e
    by (rule runs_andthen [OF runs_partial_drop runs_fail]) simp
  have dropped: "runs (made N w) (andthen (transport_drop w) (\<lambda>_. fail e)) (\<lambda>w. made N w) (none_held N)" for w e
    by (rule runs_andthen [OF runs_transport_drop runs_fail]) simp
  have wait: "runs (made N w) (await_connection cfg w) (\<lambda>_. made N w) (made N w)" for w
    by (rule runs_made, rule runs_weaken [OF runs_await [OF assms]]) (auto simp: made_def)
  have log: "runs (made N w) (andthen (log_handshake cfg) (\<lambda>_. ok w)) (\<lambda>w. made N w) (none_held N)" for w
    by (rule runs_andthen [OF _ runs_ok]) (rule runs_log_made)
  have "runs (holding N p [] 0) (ws_connect cfg) (\<lambda>w. made N w) (none_held N)"
    unfolding ws_connect_def
  proof (rule runs_andthen [OF runs_attempt [OF runs_assemble]])
    fix r
    show "runs ((case r of Inl _ \<Rightarrow> assembled N | Inr w \<Rightarrow> made N w)) (case r of
        Inl e \<Rightarrow> andthen partial_drop (\<lambda>_. fail e)
      | Inr w \<Rightarrow> andthen (attempt (await_connection cfg w)) (\<lambda>r. case r of
          Inl e \<Rightarrow> andthen (transport_drop w) (\<lambda>_. fail e)
        | Inr _ \<Rightarrow> andthen (log_handshake cfg) (\<lambda>_. ok w))) (\<lambda>w. made N w) (none_held N)"
      by (cases r) (auto intro!: refused runs_andthen [OF runs_attempt [OF wait]] simp: dropped log split: sum.split)
  qed
  from this p show "\<exists>r t. ws_connect cfg s = Some (r, t) \<and>
      (case r of Inl _ \<Rightarrow> none_held N t | Inr w \<Rightarrow> made N w t)"
    by (cases rule: runsE) auto
qed

subsection \<open>Properties\<close>

text \<open>
  C17: connecting gives back what it makes. From a state that holds nothing, \<open>connect\<close> returns,
  as the clock counts what is slept: if it fails, wherever it did, the client, the transports and the
  box the client's events use are all released, none twice, and none before what runs over it: the
  client before the transports, a transport before the one under it, and the box at a moment when
  there is no client left. If it succeeds it holds one of each, and dropping the transport releases
  them in the same way.
\<close>

theorem connect_gives_back:
  assumes "clock_counts_sleep (nw_net s)" and "ws_held (nw_calls s) = Some []" and "boxes (nw_calls s) = Some 0"
    and "box_outlives_client (nw_calls s)"
  shows "\<exists>r t. ws_connect cfg s = Some (r, t) \<and> box_outlives_client (nw_calls t) \<and> (case r of
      Inl e \<Rightarrow> ws_held (nw_calls t) = Some [] \<and> boxes (nw_calls t) = Some 0
    | Inr w \<Rightarrow> ws_held (nw_calls t) =
          Some [Res_Client (wt_client w), Res_Transport (wt_ws w), Res_Transport (wt_base w)] \<and>
        boxes (nw_calls t) = Some 1 \<and>
        (\<exists>u. transport_drop w t = Some (Inr (), u) \<and> ws_held (nw_calls u) = Some [] \<and> boxes (nw_calls u) = Some 0 \<and>
          box_outlives_client (nw_calls u)))"
proof -
  have "none_held (nw_net s) s" using assms(2-4) by (simp add: none_held_def holding_def)
  from runs_connect [OF assms(1), of cfg] this show ?thesis
  proof (cases rule: runsE)
    case (answered w t)
    from runs_transport_drop [of "nw_net s" w "\<lambda>_. False"] answered(2) show ?thesis
      by (cases rule: runsE) (use answered in \<open>auto simp: none_held_def made_def holding_def\<close>)
  qed (auto simp: none_held_def holding_def)
qed

definition demo_socket :: ws_world where
  "demo_socket = \<lparr>nw_net = demo_net, nw_calls = [], tw_session = new_session, tw_context = None, tw_socket = - 1,
     ww_partial = no_parts, ww_events = False, ww_inbound = inbound_new, ww_queue = [], ww_logged = []\<rparr>"

definition demo_socket_config :: config where
  "demo_socket_config = config_new ''hub.example'' (ClientCertificate [67] [75])\<lparr>cfg_use_tls := False\<rparr>"

lemma esp_0: "esp 0 = ok ()"
  by (simp add: esp_def ok_def)

lemma demo_settings_clean:
  "cstring (socket_path demo_socket_config) = ok (socket_path demo_socket_config)"
  "cstring (socket_url demo_socket_config) = ok (socket_url demo_socket_config)"
  "\<not> cfg_use_tls demo_socket_config" "cfg_credentials demo_socket_config = ClientCertificate [67] [75]"
proof -
  have "cstring_new (str_bytes (socket_path demo_socket_config)) \<noteq> None"
    "cstring_new (str_bytes (socket_url demo_socket_config)) \<noteq> None"
    by code_simp+
  then show "cstring (socket_path demo_socket_config) = ok (socket_path demo_socket_config)"
    "cstring (socket_url demo_socket_config) = ok (socket_url demo_socket_config)"
    by (auto simp: cstring_def)
qed (simp_all add: demo_socket_config_def config_new_def)

lemma demo_awaits: "nw_net s = demo_net \<Longrightarrow> await_connection cfg w s =
    Some (Inr (), s\<lparr>nw_calls := nw_calls s @ [Net_Clock (nt_clock demo_net (nw_calls s)), Net_IsConnected (wt_client w) True]\<rparr>)"
  unfolding await_connection_def
  by (simp add: andthen_net_ask, subst iterate.simps)
    (simp add: await_turn_def is_connected_def andthen_net_ask prog_run demo_net_def)

lemma demo_answers:
  "nt_tcp_init demo_net h = Some 7" "nt_ws_init demo_net h base = Some 8" "nt_ws_config demo_net h ws path block = 0"
  "nt_client_init demo_net h c = Some 9" "nt_register_events demo_net h client = 0" "nt_client_start demo_net h client = 0"
  by (simp_all add: demo_net_def)

lemma demo_client:
  fixes s :: "'s ws_world_scheme"
  assumes "nw_net s = demo_net"
  shows "\<exists>t. make_client demo_socket_config ws s = Some (Inr 9, t) \<and> nw_net t = demo_net"
  using assms by (simp add: make_client_def demo_settings_clean set_partial_def andthen_net_ask andthen_modify
      demo_answers prog_run)

lemma demo_start:
  fixes s :: "'s ws_world_scheme"
  assumes "nw_net s = demo_net"
  shows "\<exists>w t. start_client demo_socket_config base ws client s = Some (Inr w, t) \<and> nw_net t = demo_net"
  using assms by (simp add: start_client_def make_events_def set_partial_def andthen_net_ask andthen_net_tell
      andthen_modify demo_answers esp_0 prog_run)

lemma demo_configured:
  fixes s :: "'s ws_world_scheme"
  assumes "nw_net s = demo_net"
  shows "\<exists>t. configure_ws demo_socket_config ws None s = Some (Inr (), t) \<and> nw_net t = demo_net"
  using assms by (simp add: configure_ws_def demo_settings_clean andthen_net_ask demo_answers esp_0 prog_run)

lemma demo_assembles: "\<exists>w t. assemble demo_socket_config demo_socket = Some (Inr w, t) \<and> nw_net t = demo_net"
proof -
  have client: "\<exists>w t. andthen (make_client demo_socket_config ws) (start_client demo_socket_config base ws) s = Some (Inr w, t) \<and>
      nw_net t = demo_net" if "nw_net s = demo_net" for s :: ws_world and base ws
    using demo_client [OF that, of ws] demo_start by (fastforce simp: andthen_run)
  have rest: "\<exists>w t. andthen (configure_ws demo_socket_config ws None)
      (\<lambda>_. andthen (make_client demo_socket_config ws) (start_client demo_socket_config base ws)) s = Some (Inr w, t) \<and>
      nw_net t = demo_net" if "nw_net s = demo_net" for s :: ws_world and base ws
    using demo_configured [OF that, of ws] client by (fastforce simp: andthen_run)
  show ?thesis
    by (simp add: assemble_def assemble_on_def proofs_of_def make_base_def set_partial_def nonnull_def
        demo_settings_clean andthen_modify andthen_net_ask demo_socket_def demo_answers rest)
qed

lemma demo_socket_connects: "\<exists>w t. ws_connect demo_socket_config demo_socket = Some (Inr w, t)"
  using demo_assembles
  by (auto simp: ws_connect_def andthen_attempt demo_awaits log_handshake_def demo_settings_clean prog_run)

theorem connect_gives_back_witness:
  "\<exists>w t u. ws_connect demo_socket_config demo_socket = Some (Inr w, t) \<and>
     transport_drop w t = Some (Inr (), u) \<and> ws_held (nw_calls u) = Some [] \<and> boxes (nw_calls u) = Some 0 \<and>
     box_outlives_client (nw_calls u)"
proof -
  have "clock_counts_sleep (nw_net demo_socket)"
    by (simp add: clock_counts_sleep_def slept_def demo_socket_def demo_net_def)
  moreover have "ws_held (nw_calls demo_socket) = Some []" "boxes (nw_calls demo_socket) = Some 0"
    "box_outlives_client (nw_calls demo_socket)"
    by (simp_all add: ws_held_def boxes_def box_outlives_client_def demo_socket_def)
  ultimately show ?thesis
    using connect_gives_back [of demo_socket demo_socket_config] demo_socket_connects
    by (fastforce split: sum.splits)
qed

end
