(* ===== verification/Mailbox.thy ===== *)
theory Mailbox
  imports Transport
begin

text \<open>
  The client's task and the run loop, which meet in the channel of \<open>src/transport.rs\<close>, and what
  they promise one another: a first-in, first-out mailbox that puts the client's pieces together,
  never holds more than \<open>MAX_UNREAD_BYTES\<close> and goes quiet once it has been overrun. The code
  keeps a counter of the bytes that wait; the mailbox has none, and looks at the frames themselves.
\<close>

subsection \<open>The two threads\<close>

text \<open>
  \<open>recv_frame\<close> takes from the channel first and locks the events after, so the client's
  task may run in between: \<open>rl_taken\<close> is what it has taken and not yet dealt with.
\<close>

record run_loop =
  rl_world :: ws_world
  rl_taken :: "incoming option"
  rl_heard :: "(error + frame option) list"

datatype loop_op = Loop_Event ws_event | Loop_Take | Loop_Settle

definition hears :: "(error + frame option) \<Rightarrow> run_loop \<Rightarrow> run_loop" where
  "hears r c = c\<lparr>rl_heard := rl_heard c @ [r]\<rparr>"

fun loop_step :: "loop_op \<Rightarrow> run_loop \<Rightarrow> run_loop" where
  "loop_step (Loop_Event ev) c = (case client_event ev (rl_world c) of
      None \<Rightarrow> c | Some (_, w) \<Rightarrow> c\<lparr>rl_world := w\<rparr>)"
| "loop_step Loop_Take c = (case rl_taken c of Some _ \<Rightarrow> c | None \<Rightarrow> (case take_queued (rl_world c) of
      None \<Rightarrow> c
    | Some (Inl e, w) \<Rightarrow> hears (Inl e) (c\<lparr>rl_world := w\<rparr>)
    | Some (Inr None, w) \<Rightarrow> hears (Inr None) (c\<lparr>rl_world := w\<rparr>)
    | Some (Inr (Some i), w) \<Rightarrow> c\<lparr>rl_world := w, rl_taken := Some i\<rparr>))"
| "loop_step Loop_Settle c = (case rl_taken c of None \<Rightarrow> c
    | Some i \<Rightarrow> (case take_incoming (Some i) (rl_world c) of
        None \<Rightarrow> c | Some (r, w) \<Rightarrow> hears r (c\<lparr>rl_world := w, rl_taken := None\<rparr>)))"

definition loop_start :: "ws_world \<Rightarrow> run_loop" where
  "loop_start w = \<lparr>rl_world = (case make_events w of None \<Rightarrow> w | Some (_, w') \<Rightarrow> w'),
     rl_taken = None, rl_heard = []\<rparr>"

text \<open>Undisturbed, the two steps are \<open>recv_frame\<close>.\<close>

lemma recv_frame_steps:
  assumes "rl_taken c = None" and "ws_recv_frame (rl_world c) = Some (r, w)"
  shows "loop_step Loop_Settle (loop_step Loop_Take c) = hears r (c\<lparr>rl_world := w, rl_taken := None\<rparr>)"
  using assms
  by (cases "ww_queue (rl_world c)")
    (auto simp: ws_recv_frame_def andthen_run take_queued_def take_incoming_def prog_run hears_def
      split: if_splits)

subsection \<open>The mailbox\<close>

text \<open>
  Its state: the message in pieces (whether it is binary, and its bytes so far), what waits, whether
  the first of it is being read, whether it was overrun, the closes, how many of them came before
  the first connection, and all that was heard.
\<close>

type_synonym message_so_far = "bool \<times> bytes"

record mailbox =
  mb_message :: message_so_far
  mb_waiting :: "incoming list"
  mb_reading :: bool
  mb_overrun :: bool
  mb_closes :: u32
  mb_before :: "u32 option"
  mb_heard :: "(error + frame option) list"

definition mailbox_empty :: mailbox where
  "mailbox_empty = \<lparr>mb_message = (False, []), mb_waiting = [], mb_reading = False, mb_overrun = False,
     mb_closes = 0, mb_before = None, mb_heard = []\<rparr>"

fun incoming_len :: "incoming \<Rightarrow> nat" where
  "incoming_len (Incoming_Frame f) = frame_len f"
| "incoming_len _ = 0"

definition waiting_len :: "incoming list \<Rightarrow> nat" where
  "waiting_len is = sum_list (map incoming_len is)"

text \<open>A piece of a message, what it makes of the message so far, and the frame of a whole one.\<close>

fun with_piece :: "piece \<Rightarrow> message_so_far \<Rightarrow> message_so_far" where
  "with_piece p (binary, bs) =
     (if starts_message p then (pc_opcode p = OPCODE_BINARY, pc_bytes p) else (binary, bs @ pc_bytes p))"

definition ends_message :: "piece \<Rightarrow> bool" where
  "ends_message p \<longleftrightarrow> pc_fin p \<and> pc_payload_len p \<le> pc_offset p + length (pc_bytes p)"

fun whole_message :: "message_so_far \<Rightarrow> frame list" where
  "whole_message (True, bs) = [Binary bs]"
| "whole_message (False, bs) = (case from_utf8 bs of None \<Rightarrow> [] | Some chars \<Rightarrow> [Text chars])"

definition put_together :: "piece \<Rightarrow> message_so_far \<Rightarrow> frame list \<times> message_so_far" where
  "put_together p m = (let m' = with_piece p m in
     if ends_message p then (whole_message m', (fst m', [])) else ([], m'))"

text \<open>What an event, a take and a settle do to it.\<close>

definition mailbox_data :: "piece \<Rightarrow> mailbox \<Rightarrow> mailbox" where
  "mailbox_data p m =
     (if mb_overrun m then m
      else if MAX_UNREAD_BYTES < waiting_len (mb_waiting m) + length (snd (with_piece p (mb_message m)))
      then m\<lparr>mb_message := (fst (with_piece p (mb_message m)), []), mb_overrun := True,
             mb_waiting := mb_waiting m @ [Incoming_Overflow]\<rparr>
      else m\<lparr>mb_message := snd (put_together p (mb_message m)),
             mb_waiting := mb_waiting m @ map Incoming_Frame (fst (put_together p (mb_message m)))\<rparr>)"

definition mailbox_close :: "mailbox \<Rightarrow> mailbox" where
  "mailbox_close m = m\<lparr>mb_closes := mb_closes m + 1,
     mb_waiting := mb_waiting m @ [Incoming_Closed (mb_closes m + 1)]\<rparr>"

fun mailbox_event :: "ws_event \<Rightarrow> mailbox \<Rightarrow> mailbox" where
  "mailbox_event (Event_Data (Some d)) m =
     (if is_data (wd_op_code d) then mailbox_data (piece_of d) m
      else if wd_op_code d = OPCODE_CLOSE then mailbox_close m else m)"
| "mailbox_event Event_Connected m = (if mb_before m = None then m\<lparr>mb_before := Some (mb_closes m)\<rparr> else m)"
| "mailbox_event Event_Disconnected m = mailbox_close m"
| "mailbox_event Event_Closed m = mailbox_close m"
| "mailbox_event _ m = m"

fun heard_as :: "u32 option \<Rightarrow> incoming \<Rightarrow> error + frame option" where
  "heard_as _ (Incoming_Frame f) = Inr (Some f)"
| "heard_as _ Incoming_Overflow = Inl (Error_Transport ''too much arrived unread'')"
| "heard_as None (Incoming_Closed n) = Inr None"
| "heard_as (Some k) (Incoming_Closed n) =
     (if k < n then Inl (Error_Transport ''websocket closed'') else Inr None)"

fun mailbox_step :: "loop_op \<Rightarrow> mailbox \<Rightarrow> mailbox" where
  "mailbox_step (Loop_Event ev) m = mailbox_event ev m"
| "mailbox_step Loop_Take m =
     (if mb_reading m then m
      else if mb_waiting m = [] then m\<lparr>mb_heard := mb_heard m @ [Inr None]\<rparr>
      else m\<lparr>mb_reading := True\<rparr>)"
| "mailbox_step Loop_Settle m =
     (if \<not> mb_reading m then m
      else m\<lparr>mb_reading := False, mb_waiting := tl (mb_waiting m),
             mb_heard := mb_heard m @ [heard_as (mb_before m) (hd (mb_waiting m))]\<rparr>)"

subsection \<open>What the mailbox gives its users\<close>

text \<open>The bound, and silence after an overrun.\<close>

fun quiet_after_overrun :: "incoming list \<Rightarrow> bool" where
  "quiet_after_overrun [] = True"
| "quiet_after_overrun (Incoming_Overflow # is) = (\<forall>i \<in> set is. \<exists>n. i = Incoming_Closed n)"
| "quiet_after_overrun (_ # is) = quiet_after_overrun is"

definition mailbox_ok :: "mailbox \<Rightarrow> bool" where
  "mailbox_ok m \<longleftrightarrow> waiting_len (mb_waiting m) + length (snd (mb_message m)) \<le> MAX_UNREAD_BYTES \<and>
    quiet_after_overrun (mb_waiting m) \<and> (Incoming_Overflow \<in> set (mb_waiting m) \<longrightarrow> mb_overrun m) \<and>
    (mb_reading m \<longrightarrow> mb_waiting m \<noteq> [])"

lemma waiting_len_simps [simp]:
  "waiting_len [] = 0" "waiting_len (i # is) = incoming_len i + waiting_len is"
  "waiting_len (is @ js) = waiting_len is + waiting_len js"
  by (simp_all add: waiting_len_def)

lemma quiet_append:
  "quiet_after_overrun is \<Longrightarrow> Incoming_Overflow \<notin> set is \<or> (\<exists>n. i = Incoming_Closed n) \<Longrightarrow>
     quiet_after_overrun (is @ [i])"
proof (induction "is" rule: quiet_after_overrun.induct)
  case 1
  then show ?case by (cases i) auto
qed auto

lemma quiet_all_closed: "\<forall>i \<in> set is. \<exists>n. i = Incoming_Closed n \<Longrightarrow> quiet_after_overrun is"
  by (induction "is" rule: quiet_after_overrun.induct) auto

lemma quiet_tl: "quiet_after_overrun is \<Longrightarrow> quiet_after_overrun (tl is)"
  by (cases "is" rule: quiet_after_overrun.cases) (auto simp: quiet_all_closed)

lemma waiting_tl: "waiting_len (tl is) \<le> waiting_len is"
  by (cases "is") auto

lemma whole_message_cases:
  "whole_message m = [] \<or> (\<exists>f. whole_message m = [f] \<and> frame_len f = length (snd m))"
  by (cases m rule: whole_message.cases) (auto simp: from_utf8_len split: option.split)

lemma mailbox_data_ok:
  assumes "mailbox_ok m"
  shows "mailbox_ok (mailbox_data p m)"
proof (cases "mb_overrun m \<or>
    MAX_UNREAD_BYTES < waiting_len (mb_waiting m) + length (snd (with_piece p (mb_message m)))")
  case True
  then show ?thesis
    using assms by (cases "mb_message m") (auto simp: mailbox_data_def mailbox_ok_def quiet_append)
next
  case False
  then show ?thesis
    using assms whole_message_cases [of "with_piece p (mb_message m)"]
    by (auto simp: mailbox_data_def mailbox_ok_def put_together_def quiet_append Let_def)
qed

lemma mailbox_close_ok: "mailbox_ok m \<Longrightarrow> mailbox_ok (mailbox_close m)"
  by (simp add: mailbox_close_def mailbox_ok_def quiet_append)

lemma mailbox_event_ok: "mailbox_ok m \<Longrightarrow> mailbox_ok (mailbox_event ev m)"
proof (cases "(ev, m)" rule: mailbox_event.cases)
  case 2
  then show "mailbox_ok m \<Longrightarrow> mailbox_ok (mailbox_event ev m)" by (simp add: mailbox_ok_def)
qed (simp_all add: mailbox_data_ok mailbox_close_ok)

interpretation mailbox_ops: preserved mailbox_step mailbox_ok
proof
  fix m op
  assume ok: "mailbox_ok m"
  show "mailbox_ok (mailbox_step op m)"
  proof (cases op)
    case (Loop_Event ev)
    then show ?thesis using ok by (simp add: mailbox_event_ok)
  next
    case Loop_Take
    then show ?thesis using ok by (simp add: mailbox_ok_def)
  next
    case Loop_Settle
    then show ?thesis
      using ok quiet_tl [of "mb_waiting m"] waiting_tl [of "mb_waiting m"] list.set_sel(2) [of "mb_waiting m"]
      by (auto simp: mailbox_ok_def)
  qed
qed

text \<open>
  The history: the messages that a run of events carries, put together with no bound and no channel,
  and the frames among what was heard and what waits.
\<close>

fun messages :: "message_so_far \<Rightarrow> ws_event list \<Rightarrow> frame list" where
  "messages m [] = []"
| "messages m (Event_Data (Some d) # evs) =
     (if is_data (wd_op_code d)
      then fst (put_together (piece_of d) m) @ messages (snd (put_together (piece_of d) m)) evs
      else messages m evs)"
| "messages m (_ # evs) = messages m evs"

fun events_of :: "loop_op list \<Rightarrow> ws_event list" where
  "events_of [] = []"
| "events_of (Loop_Event ev # ops) = ev # events_of ops"
| "events_of (_ # ops) = events_of ops"

fun frames_heard :: "(error + frame option) list \<Rightarrow> frame list" where
  "frames_heard [] = []"
| "frames_heard (Inr (Some f) # rs) = f # frames_heard rs"
| "frames_heard (_ # rs) = frames_heard rs"

fun frames_waiting :: "incoming list \<Rightarrow> frame list" where
  "frames_waiting [] = []"
| "frames_waiting (Incoming_Frame f # is) = f # frames_waiting is"
| "frames_waiting (_ # is) = frames_waiting is"

definition frames_come :: "mailbox \<Rightarrow> frame list" where
  "frames_come m = frames_heard (mb_heard m) @ frames_waiting (mb_waiting m)"

lemma frames_heard_append [simp]: "frames_heard (rs @ qs) = frames_heard rs @ frames_heard qs"
  by (induction rs rule: frames_heard.induct) auto

lemma frames_waiting_append [simp]: "frames_waiting (is @ js) = frames_waiting is @ frames_waiting js"
  by (induction "is" rule: frames_waiting.induct) auto

lemma frames_waiting_map [simp]: "frames_waiting (map Incoming_Frame fs) = fs"
  by (induction fs) auto

lemma frames_read:
  "mb_waiting m \<noteq> [] \<Longrightarrow> frames_heard [heard_as k (hd (mb_waiting m))] @ frames_waiting (tl (mb_waiting m)) =
     frames_waiting (mb_waiting m)"
  by (cases "mb_waiting m"; cases "(k, hd (mb_waiting m))" rule: heard_as.cases) auto

text \<open>One event: nothing of it comes after an overrun, and its messages otherwise, unless it overruns.\<close>

lemma event_comes:
  "mb_heard (mailbox_event ev m) = mb_heard m \<and> (if mb_overrun (mailbox_event ev m)
     then frames_waiting (mb_waiting (mailbox_event ev m)) = frames_waiting (mb_waiting m)
     else \<not> mb_overrun m \<and> frames_waiting (mb_waiting (mailbox_event ev m)) @
         messages (mb_message (mailbox_event ev m)) evs =
       frames_waiting (mb_waiting m) @ messages (mb_message m) (ev # evs)) \<and>
   (mb_overrun m \<longrightarrow> mb_overrun (mailbox_event ev m))"
  by (cases "(ev, m)" rule: mailbox_event.cases) (auto simp: mailbox_data_def mailbox_close_def)

lemma read_comes:
  assumes "mailbox_ok m" and "op = Loop_Take \<or> op = Loop_Settle"
  shows "frames_come (mailbox_step op m) = frames_come m \<and> mb_overrun (mailbox_step op m) = mb_overrun m \<and>
    mb_message (mailbox_step op m) = mb_message m \<and> events_of (op # ops) = events_of ops"
  using assms frames_read [of m "mb_before m"] by (auto simp: frames_come_def mailbox_ok_def split: if_splits)

lemma nothing_after_overrun:
  "mailbox_ok m \<Longrightarrow> mb_overrun m \<Longrightarrow>
     frames_come (fold mailbox_step ops m) = frames_come m \<and> mb_overrun (fold mailbox_step ops m)"
proof (induction ops arbitrary: m)
  case (Cons op ops)
  have "frames_come (mailbox_step op m) = frames_come m \<and> mb_overrun (mailbox_step op m)"
  proof (cases op)
    case (Loop_Event ev)
    then show ?thesis using event_comes [of ev m "[]"] Cons.prems by (simp add: frames_come_def)
  qed (use read_comes [of m op] Cons.prems in auto)
  then show ?case using Cons.IH [OF mailbox_ops.step_inv [OF Cons.prems(1)], of op] by simp
qed simp

lemma nothing_lost:
  "mailbox_ok m \<Longrightarrow> \<not> mb_overrun m \<Longrightarrow> (if mb_overrun (fold mailbox_step ops m)
     then prefix (frames_come (fold mailbox_step ops m)) (frames_come m @ messages (mb_message m) (events_of ops))
     else frames_come (fold mailbox_step ops m) = frames_come m @ messages (mb_message m) (events_of ops))"
proof (induction ops arbitrary: m)
  case (Cons op ops)
  note ok = mailbox_ops.step_inv [OF Cons.prems(1), of op]
  show ?case
  proof (cases "mb_overrun (mailbox_step op m)")
    case True
    then obtain ev where "op = Loop_Event ev" using read_comes [OF Cons.prems(1), of op] Cons.prems by (cases op) auto
    then have "frames_come (mailbox_step op m) = frames_come m"
      using event_comes [of ev m "[]"] True by (simp add: frames_come_def)
    with nothing_after_overrun [OF ok True, of ops] show ?thesis by simp
  next
    case False
    have come: "frames_come (mailbox_step op m) @ messages (mb_message (mailbox_step op m)) (events_of ops) =
        frames_come m @ messages (mb_message m) (events_of (op # ops))"
    proof (cases op)
      case (Loop_Event ev)
      then show ?thesis using event_comes [of ev m "events_of ops"] False by (simp add: frames_come_def)
    qed (use read_comes [OF Cons.prems(1), of op ops] in auto)
    show ?thesis using Cons.IH [OF ok False] unfolding come by (simp only: fold_simps)
  qed
qed (simp add: frames_come_def)

subsection \<open>The code as a mailbox\<close>

definition waiting_of :: "run_loop \<Rightarrow> incoming list" where
  "waiting_of c = (case rl_taken c of None \<Rightarrow> [] | Some i \<Rightarrow> [i]) @ ww_queue (rl_world c)"

definition mailbox_of :: "run_loop \<Rightarrow> mailbox" where
  "mailbox_of c = (let ib = ww_inbound (rl_world c) in
     \<lparr>mb_message = (ib_binary ib, ib_partial ib), mb_waiting = waiting_of c,
      mb_reading = (rl_taken c \<noteq> None), mb_overrun = ib_overflowed ib, mb_closes = ib_closes ib,
      mb_before = ib_closes_before_connecting ib, mb_heard = rl_heard c\<rparr>)"

definition counts :: "run_loop \<Rightarrow> bool" where
  "counts c \<longleftrightarrow> ww_events (rl_world c) \<and> ib_unread (ww_inbound (rl_world c)) = waiting_len (waiting_of c)"

definition sent_list :: "incoming option \<Rightarrow> incoming list" where
  "sent_list sent = (case sent of None \<Rightarrow> [] | Some i \<Rightarrow> [i])"

text \<open>A message that ends, and a piece of one: what the code sends, and what it keeps.\<close>

lemma message_done_whole:
  "message_done s = (i, t) \<Longrightarrow>
     sent_list i = map Incoming_Frame (whole_message (ib_binary s, ib_partial s)) \<and>
     t = s\<lparr>ib_partial := [], ib_unread := ib_unread s + waiting_len (sent_list i)\<rparr>"
  by (cases "ib_binary s") (auto simp: message_done_def sent_list_def Let_def split: option.splits)

lemma take_data_puts_together:
  assumes "take_data p s = (i, t)" and "\<not> ib_overflowed s"
    and "m = with_piece p (ib_binary s, ib_partial s)"
  shows "if MAX_UNREAD_BYTES < ib_unread s + length (snd m)
    then i = Some Incoming_Overflow \<and>
      t = s\<lparr>ib_partial := [], ib_binary := fst m, ib_overflowed := True\<rparr>
    else sent_list i = map Incoming_Frame (fst (put_together p (ib_binary s, ib_partial s))) \<and>
      t = s\<lparr>ib_partial := snd (snd (put_together p (ib_binary s, ib_partial s))),
        ib_binary := fst (snd (put_together p (ib_binary s, ib_partial s))),
        ib_unread := ib_unread s + waiting_len (sent_list i)\<rparr>"
proof -
  let ?s = "s\<lparr>ib_partial := snd m, ib_binary := fst m\<rparr>"
  have run: "take_data p s = (if MAX_UNREAD_BYTES < ib_unread s + length (snd m)
      then (Some Incoming_Overflow, s\<lparr>ib_partial := [], ib_binary := fst m, ib_overflowed := True\<rparr>)
      else if ends_message p then message_done ?s else (None, ?s))"
    using assms(2,3) by (auto simp: take_data_def Let_def ends_message_def add.assoc upd_order)
  have whole: "message_done ?s = (i, t) \<Longrightarrow> sent_list i = map Incoming_Frame (whole_message m) \<and>
      t = s\<lparr>ib_partial := [], ib_binary := fst m, ib_unread := ib_unread s + waiting_len (sent_list i)\<rparr>"
    using message_done_whole [of ?s i t] by simp
  show ?thesis
    using assms(1) whole unfolding run put_together_def assms(3) [symmetric]
    by (auto simp: sent_list_def Let_def)
qed

subsection \<open>The code keeps the contract\<close>

lemma client_event_run:
  "ww_events w \<Longrightarrow> event_sends ev (ww_inbound w) = (sent, ib) \<Longrightarrow>
     client_event ev w = Some (Inr (), w\<lparr>ww_inbound := ib, ww_queue := ww_queue w @ sent_list sent\<rparr>)"
  by (simp add: client_event_def andthen_gets prog_run sent_list_def)

text \<open>What an event does to the channel, once what it sends is known.\<close>

lemma event_step_runs:
  assumes "counts c" and "event_sends ev (ww_inbound (rl_world c)) = (sent, ib)"
  shows "loop_step (Loop_Event ev) c =
    c\<lparr>rl_world := (rl_world c)\<lparr>ww_inbound := ib, ww_queue := ww_queue (rl_world c) @ sent_list sent\<rparr>\<rparr>"
  using assms by (simp add: client_event_run counts_def)

definition refines_event :: "run_loop \<Rightarrow> ws_event \<Rightarrow> bool" where
  "refines_event c ev \<longleftrightarrow> counts (loop_step (Loop_Event ev) c) \<and>
     mailbox_of (loop_step (Loop_Event ev) c) = mailbox_event ev (mailbox_of c)"

lemma close_refined:
  assumes "counts c"
    and "\<And>ib. event_sends ev ib = (Some (Incoming_Closed (ib_closes ib + 1)), ib\<lparr>ib_closes := ib_closes ib + 1\<rparr>)"
    and "\<And>m. mailbox_event ev m = mailbox_close m"
  shows "refines_event c ev"
  using assms(1) unfolding refines_event_def event_step_runs [OF assms(1) assms(2)] assms(3)
  by (simp add: counts_def mailbox_of_def waiting_of_def sent_list_def mailbox_close_def Let_def)

lemma nothing_refined:
  assumes "counts c" and "\<And>ib. event_sends ev ib = (None, ib)" and "\<And>m. mailbox_event ev m = m"
  shows "refines_event c ev"
  using assms(1) unfolding refines_event_def event_step_runs [OF assms(1) assms(2)] assms(3)
  by (simp add: counts_def mailbox_of_def waiting_of_def sent_list_def Let_def)

lemma data_refined:
  assumes "counts c" and "is_data (wd_op_code d)"
  shows "refines_event c (Event_Data (Some d))"
proof -
  let ?ib = "ww_inbound (rl_world c)" and ?p = "piece_of d"
  obtain i t where take: "take_data ?p ?ib = (i, t)" by fastforce
  then have sends: "event_sends (Event_Data (Some d)) ?ib = (i, t)"
    using assms(2) by (simp add: event_sends_def take_piece_def piece_of_def)
  have unread: "ib_unread ?ib = waiting_len (waiting_of c)" using assms(1) by (simp add: counts_def)
  show ?thesis
  proof (cases "ib_overflowed ?ib")
    case True
    then have "i = None" "t = ?ib" using take by (simp_all add: take_data_def)
    then show ?thesis using assms True unfolding refines_event_def event_step_runs [OF assms(1) sends]
      by (simp add: counts_def mailbox_of_def waiting_of_def sent_list_def mailbox_data_def Let_def)
  next
    case False
    show ?thesis
      using take_data_puts_together [OF take False refl] assms False unread
      unfolding refines_event_def event_step_runs [OF assms(1) sends]
      by (simp add: counts_def mailbox_of_def waiting_of_def mailbox_data_def Let_def sent_list_def
          split: if_splits)
  qed
qed

lemma event_refined: "counts c \<Longrightarrow> refines_event c ev"
proof (cases ev)
  case (Event_Data found)
  assume "counts c"
  show ?thesis
  proof (cases found)
    case None
    then show ?thesis using Event_Data nothing_refined [OF \<open>counts c\<close>] by (simp add: event_sends_def)
  next
    case (Some d)
    consider (data) "is_data (wd_op_code d)" | (close) "\<not> is_data (wd_op_code d)" "wd_op_code d = OPCODE_CLOSE"
      | (other) "\<not> is_data (wd_op_code d)" "wd_op_code d \<noteq> OPCODE_CLOSE" by blast
    then show ?thesis
    proof cases
      case data
      then show ?thesis using Event_Data Some data_refined [OF \<open>counts c\<close>] by simp
    next
      case close
      then show ?thesis unfolding Event_Data Some
        by (intro close_refined [OF \<open>counts c\<close>])
          (auto simp: event_sends_def take_piece_def piece_of_def closed_def Let_def)
    next
      case other
      then show ?thesis unfolding Event_Data Some
        by (intro nothing_refined [OF \<open>counts c\<close>]) (auto simp: event_sends_def take_piece_def piece_of_def)
    qed
  qed
next
  case Event_Connected
  assume c: "counts c"
  have sends: "event_sends ev (ww_inbound (rl_world c)) = (None, connected (ww_inbound (rl_world c)))"
    using Event_Connected by (simp add: event_sends_def)
  from c show ?thesis unfolding refines_event_def event_step_runs [OF c sends]
    by (simp add: Event_Connected counts_def mailbox_of_def waiting_of_def sent_list_def connected_def Let_def
        split: option.split)
next
  case Event_Disconnected
  then show "counts c \<Longrightarrow> ?thesis" by (intro close_refined) (simp_all add: event_sends_def closed_def Let_def)
next
  case Event_Closed
  then show "counts c \<Longrightarrow> ?thesis" by (intro close_refined) (simp_all add: event_sends_def closed_def Let_def)
next
  case Event_Other
  then show "counts c \<Longrightarrow> ?thesis" by (intro nothing_refined) (simp_all add: event_sends_def)
qed

lemma take_refined:
  assumes "counts c"
  shows "counts (loop_step Loop_Take c) \<and>
    mailbox_of (loop_step Loop_Take c) = mailbox_step Loop_Take (mailbox_of c)"
proof (cases "rl_taken c")
  case None
  then show ?thesis
    using assms by (cases "ww_queue (rl_world c)")
      (auto simp: take_queued_def counts_def mailbox_of_def waiting_of_def hears_def Let_def)
qed (use assms in \<open>simp add: mailbox_of_def Let_def\<close>)

lemma settle_refined:
  assumes "counts c"
  shows "counts (loop_step Loop_Settle c) \<and>
    mailbox_of (loop_step Loop_Settle c) = mailbox_step Loop_Settle (mailbox_of c)"
proof (cases "rl_taken c")
  case (Some i)
  note run = take_incoming_def andthen_gets andthen_modify prog_run ws_log_def hears_def andthen_run
  show ?thesis
    using assms Some
    by (cases i) (auto simp: run counts_def mailbox_of_def waiting_of_def inbound_read_def Let_def
        ends_session_def split: option.split)
qed (use assms in \<open>simp add: mailbox_of_def Let_def\<close>)

text \<open>A step of the code is one of the contract's, and so is a run of it.\<close>

locale refined = preserved step inv
  for step :: "'op \<Rightarrow> 's \<Rightarrow> 's" and inv :: "'s \<Rightarrow> bool" +
  fixes abs :: "'s \<Rightarrow> 'a" and spec :: "'op \<Rightarrow> 'a \<Rightarrow> 'a"
  assumes step_refined: "inv s \<Longrightarrow> abs (step op s) = spec op (abs s)"
begin

lemma run_refined: "inv s \<Longrightarrow> abs (fold step ops s) = fold spec ops (abs s)"
  by (induction ops arbitrary: s) (simp_all add: step_inv step_refined)

end

interpretation mailbox_loop: refined loop_step counts mailbox_of mailbox_step
proof
  fix c op
  assume "counts c"
  then show "counts (loop_step op c)" "mailbox_of (loop_step op c) = mailbox_step op (mailbox_of c)"
    using event_refined take_refined settle_refined
    by (cases op; simp add: refines_event_def del: loop_step.simps)+
qed

lemma loop_start_empty: "counts (loop_start w) \<and> mailbox_of (loop_start w) = mailbox_empty"
  by (simp add: loop_start_def make_events_def andthen_net_tell andthen_modify set_partial_def prog_run
      counts_def waiting_of_def mailbox_of_def mailbox_empty_def inbound_new_def Let_def)

lemma mailbox_empty_ok: "mailbox_ok mailbox_empty"
  by (simp add: mailbox_empty_def mailbox_ok_def)

lemma mailbox_empty_comes:
  "frames_come mailbox_empty = [] \<and> mb_message mailbox_empty = (False, []) \<and> \<not> mb_overrun mailbox_empty"
  by (simp add: mailbox_empty_def frames_come_def)

subsection \<open>Properties\<close>

text \<open>
  C16: the channel between the client's task and the run loop is the mailbox it is meant to be.
  However the client's events and the two halves of \<open>recv_frame\<close> are interleaved, the channel
  is in the state of the mailbox after the same steps, though the code only counts what waits: each
  event's bytes are put together, each message queued, each close numbered, and what is heard is
  what came first. Nothing is lost or reordered: the frames heard and those that wait are the
  messages the events carried, all of them while it was not overrun, and else the first of them.
  What waits, whole and in pieces, is within the 16 KiB at every point; and after an overrun only
  closes follow.
\<close>

theorem channel_is_mailbox:
  "mailbox_of (fold loop_step ops (loop_start w)) = fold mailbox_step ops mailbox_empty \<and>
   (let ib = ww_inbound (rl_world (fold loop_step ops (loop_start w)));
        heard = rl_heard (fold loop_step ops (loop_start w));
        unheard = waiting_of (fold loop_step ops (loop_start w))
    in (if ib_overflowed ib
        then prefix (frames_heard heard @ frames_waiting unheard) (messages (False, []) (events_of ops))
        else frames_heard heard @ frames_waiting unheard = messages (False, []) (events_of ops)) \<and>
      waiting_len unheard + length (ib_partial ib) \<le> MAX_UNREAD_BYTES \<and>
      quiet_after_overrun unheard)"
proof -
  let ?m = "fold mailbox_step ops mailbox_empty"
  have run: "mailbox_of (fold loop_step ops (loop_start w)) = ?m"
    using mailbox_loop.run_refined [of "loop_start w" ops] loop_start_empty [of w] by simp
  have "mailbox_ok ?m" by (rule mailbox_ops.run_inv [OF mailbox_empty_ok])
  moreover have "if mb_overrun ?m then prefix (frames_come ?m) (messages (False, []) (events_of ops))
      else frames_come ?m = messages (False, []) (events_of ops)"
    using nothing_lost [OF mailbox_empty_ok, of ops] by (simp add: mailbox_empty_comes cong: if_cong)
  ultimately show ?thesis
    unfolding run [symmetric] by (simp add: mailbox_ok_def mailbox_of_def frames_come_def Let_def cong: if_cong)
qed

end
