(* ===== verification/F64.thy ===== *)
theory F64
  imports Json
begin

unbundle bit_operations_syntax

text \<open>
  Rust's \<open>f64\<close>, IEEE 754's binary64, as far as the code computes with it: conversion from
  integers, division, multiplication and subtraction of finite values that are not negative, and
  \<open>str::parse\<close>. Every result is the exact one rounded once, to the nearest, ties to even.

  An \<open>f64\<close> is its bit pattern. Values are counted in units of the least subnormal,
  \<open>2 ^ (- 1074)\<close>, so that they are natural numbers: \<open>round_ratio n d\<close> is the pattern
  of the \<open>f64\<close> nearest to \<open>n / d\<close> units.
\<close>

fun bit_length :: "nat \<Rightarrow> nat" where
  "bit_length n = (if n = 0 then 0 else Suc (bit_length (n div 2)))"

declare bit_length.simps [simp del]

text \<open>The weight of the exponent in a pattern: the 52 bits below it are the mantissa's.\<close>

definition MANTISSA :: nat where "MANTISSA = 2 ^ 52"

definition INFINITY_BITS :: nat where "INFINITY_BITS = 2047 * MANTISSA"

text \<open>
  The exponent \<open>k\<close> is the least for which the quotient has no more than 53 bits. A pattern is
  then the mantissa on top of \<open>k\<close>, whether subnormal, normal, or rounded up to the next power of
  two; past the largest it is infinity.
\<close>

definition round_half_even :: "nat \<Rightarrow> nat \<Rightarrow> nat" where
  "round_half_even n d =
     (let q = n div d; r = n mod d
      in if 2 * r < d then q else if d < 2 * r then q + 1 else if even q then q else q + 1)"

definition exponent_for :: "nat \<Rightarrow> nat \<Rightarrow> nat" where
  "exponent_for n d = bit_length (n div d) - 53"

definition round_ratio :: "nat \<Rightarrow> nat \<Rightarrow> nat" where
  "round_ratio n d =
     (let k = exponent_for n d
      in min INFINITY_BITS (k * MANTISSA + round_half_even n (d * 2 ^ k)))"

text \<open>The value of a finite pattern that is not negative, in units.\<close>

definition units_of :: "nat \<Rightarrow> nat" where
  "units_of p =
     (let e = p div MANTISSA; m = p mod MANTISSA
      in if e = 0 then m else (MANTISSA + m) * 2 ^ (e - 1))"

definition UNIT :: nat where "UNIT = 2 ^ 1074"

definition SIGN_BIT :: f64 where "SIGN_BIT = 2 ^ 63"

definition f64_of_nat :: "nat \<Rightarrow> f64" where
  "f64_of_nat n = of_nat (round_ratio (n * UNIT) 1)"

definition f64_of_int :: "int \<Rightarrow> f64" where
  "f64_of_int i = (if i < 0 then SIGN_BIT OR f64_of_nat (nat (- i)) else f64_of_nat (nat i))"

definition f64_units :: "f64 \<Rightarrow> nat" where
  "f64_units x = units_of (unat x)"

definition f64_nan :: f64 where "f64_nan = of_nat (INFINITY_BITS + 2 ^ 51)"

definition f64_infinity :: f64 where "f64_infinity = of_nat INFINITY_BITS"

definition f64_is_nan :: "f64 \<Rightarrow> bool" where
  "f64_is_nan x = (\<not> f64_is_finite x \<and> unat x mod MANTISSA \<noteq> 0)"

text \<open>
  The operations, on values that are not negative: IEEE 754's special cases first, then the exact
  result rounded once. Which of the NaNs comes out is left open by Rust; here it is one of them.
\<close>

definition f64_div :: "f64 \<Rightarrow> f64 \<Rightarrow> f64" where
  "f64_div x y =
     (if f64_is_nan x \<or> f64_is_nan y then f64_nan
      else if \<not> f64_is_finite x then (if f64_is_finite y then f64_infinity else f64_nan)
      else if \<not> f64_is_finite y then 0
      else if f64_units y = 0 then (if f64_units x = 0 then f64_nan else f64_infinity)
      else of_nat (round_ratio (f64_units x * UNIT) (f64_units y)))"

definition f64_mul :: "f64 \<Rightarrow> f64 \<Rightarrow> f64" where
  "f64_mul x y =
     (if f64_is_nan x \<or> f64_is_nan y then f64_nan
      else if \<not> f64_is_finite x \<or> \<not> f64_is_finite y then
        (if (f64_is_finite x \<and> f64_units x = 0) \<or> (f64_is_finite y \<and> f64_units y = 0)
         then f64_nan else f64_infinity)
      else of_nat (round_ratio (f64_units x * f64_units y) UNIT))"

definition f64_sub :: "f64 \<Rightarrow> f64 \<Rightarrow> f64" where
  "f64_sub x y =
     (if f64_is_nan x \<or> f64_is_nan y then f64_nan
      else if \<not> f64_is_finite x then (if f64_is_finite y then f64_infinity else f64_nan)
      else if \<not> f64_is_finite y then SIGN_BIT OR f64_infinity
      else if f64_units y \<le> f64_units x then of_nat (round_ratio (f64_units x - f64_units y) 1)
      else SIGN_BIT OR of_nat (round_ratio (f64_units y - f64_units x) 1))"

lemma f64_is_nan_finite [simp]: "f64_is_finite x \<Longrightarrow> \<not> f64_is_nan x"
  by (simp add: f64_is_nan_def)

lemma f64_div_finite:
  "f64_is_finite x \<Longrightarrow> f64_is_finite y \<Longrightarrow> 0 < f64_units y \<Longrightarrow>
     f64_div x y = of_nat (round_ratio (f64_units x * UNIT) (f64_units y))"
  by (simp add: f64_div_def)

lemma f64_mul_finite:
  "f64_is_finite x \<Longrightarrow> f64_is_finite y \<Longrightarrow> f64_mul x y = of_nat (round_ratio (f64_units x * f64_units y) UNIT)"
  by (simp add: f64_mul_def)

lemma f64_sub_finite:
  "f64_is_finite x \<Longrightarrow> f64_is_finite y \<Longrightarrow> f64_sub x y =
     (if f64_units y \<le> f64_units x then of_nat (round_ratio (f64_units x - f64_units y) 1)
      else SIGN_BIT OR of_nat (round_ratio (f64_units y - f64_units x) 1))"
  by (simp add: f64_sub_def)

text \<open>A NaN and an infinity are what their names say; zero over zero is the first.\<close>

lemma INFINITY_BITS_less: "INFINITY_BITS + 2 ^ 51 < 2 ^ 63"
  by (simp add: INFINITY_BITS_def MANTISSA_def)

lemma f64_nan_is_nan: "f64_is_nan f64_nan \<and> \<not> f64_is_finite f64_nan"
  by (simp add: f64_is_nan_def f64_is_finite_def f64_nan_def INFINITY_BITS_def MANTISSA_def drop_bit_eq_div)

lemma f64_infinity_is_not: "\<not> f64_is_nan f64_infinity \<and> \<not> f64_is_finite f64_infinity"
  by (simp add: f64_is_nan_def f64_is_finite_def f64_infinity_def INFINITY_BITS_def MANTISSA_def drop_bit_eq_div)

lemma f64_finite_below:
  assumes "unat x < INFINITY_BITS"
  shows "f64_is_finite x"
proof -
  have "unat x div 2 ^ 52 < 2047"
    using assms by (simp add: INFINITY_BITS_def MANTISSA_def less_mult_imp_div_less)
  then show ?thesis by (simp add: f64_is_finite_def drop_bit_eq_div)
qed

subsection \<open>Rounding does not pass a value that can be represented\<close>

lemma bit_length_less: "n < 2 ^ bit_length n"
proof (induction n rule: bit_length.induct)
  case (1 n)
  show ?case
  proof (cases "n = 0")
    case False
    then have "n div 2 < 2 ^ bit_length (n div 2)" by (rule 1)
    then show ?thesis using False by (subst bit_length.simps) (simp add: less_mult_imp_div_less; linarith)
  qed (simp add: bit_length.simps)
qed

lemma bit_length_le: "n < 2 ^ b \<Longrightarrow> bit_length n \<le> b"
proof (induction n arbitrary: b rule: bit_length.induct)
  case (1 n)
  show ?case
  proof (cases "n = 0")
    case False
    then obtain c where b: "b = Suc c" using 1(2) by (cases b) auto
    then have "n div 2 < 2 ^ c" using 1(2) by (simp add: less_mult_imp_div_less mult.commute)
    then show ?thesis using 1(1) [of c] False b by (subst bit_length.simps) simp
  qed (simp add: bit_length.simps)
qed

lemma bit_length_ge: "0 < n \<Longrightarrow> 2 ^ (bit_length n - 1) \<le> n"
  using bit_length_le [of n "bit_length n - 1"] bit_length_less [of n]
  by (cases "bit_length n") (auto simp: not_less [symmetric])

lemma round_half_even_bounds:
  assumes "0 < d" and "n \<le> m * d"
  shows "round_half_even n d \<le> m"
proof -
  have "n div d \<le> m" using assms by (metis div_le_mono div_mult_self_is_m)
  moreover have "n mod d = 0" if "n div d = m"
    using assms that div_mult_mod_eq [of n d] by (metis le_add1 le_antisym add_cancel_left_right)
  ultimately show ?thesis
    using assms(1) by (cases "n div d = m") (auto simp: round_half_even_def Let_def)
qed

lemma quotient_fits:
  assumes "0 < d"
  shows "round_half_even n (d * 2 ^ exponent_for n d) \<le> 2 ^ 53"
proof -
  let ?k = "exponent_for n d"
  have "n div d < 2 ^ bit_length (n div d)" by (rule bit_length_less)
  also have "\<dots> \<le> 2 ^ (53 + ?k)" by (rule power_increasing) (simp_all add: exponent_for_def)
  finally have "n < 2 ^ (53 + ?k) * d" using assms by (simp add: div_less_iff_less_mult)
  then have "n \<le> 2 ^ 53 * (d * 2 ^ ?k)" by (simp add: power_add mult_ac)
  then show ?thesis using assms by (intro round_half_even_bounds) simp_all
qed

lemma two_mantissas: "2 ^ 53 = 2 * MANTISSA"
  by (simp add: MANTISSA_def)

lemma MANTISSA_pos [simp]: "0 < MANTISSA"
  by (simp add: MANTISSA_def)

lemma round_ratio_le:
  assumes "0 < d" and "n \<le> d * (m * 2 ^ k)" and "MANTISSA \<le> m" and "m < 2 * MANTISSA"
  shows "round_ratio n d \<le> k * MANTISSA + m"
proof -
  let ?j = "exponent_for n d"
  have "n div d \<le> m * 2 ^ k" using assms(1,2) by (metis div_le_mono nonzero_mult_div_cancel_left less_numeral_extra(3))
  also have "\<dots> < 2 ^ 53 * 2 ^ k" using assms(4) unfolding two_mantissas by simp
  also have "\<dots> = 2 ^ (53 + k)" by (simp only: power_add)
  finally have "bit_length (n div d) \<le> 53 + k" by (rule bit_length_le)
  then have j: "?j \<le> k" by (simp add: exponent_for_def)
  have "?j * MANTISSA + round_half_even n (d * 2 ^ ?j) \<le> k * MANTISSA + m"
  proof (cases "?j = k")
    case True
    then show ?thesis using assms by (simp add: round_half_even_bounds mult_ac)
  next
    case False
    then have "Suc ?j * MANTISSA \<le> k * MANTISSA" using j by (intro mult_right_mono) simp_all
    then show ?thesis using quotient_fits [OF assms(1), of n] assms(3) unfolding two_mantissas by simp
  qed
  then show ?thesis by (simp add: round_ratio_def Let_def)
qed

text \<open>The units of a normal pattern with exponent \<open>k\<close> and mantissa \<open>m\<close>.\<close>

lemma units_of_normal:
  assumes "MANTISSA \<le> m" and "m < 2 * MANTISSA"
  shows "units_of (k * MANTISSA + m) = m * 2 ^ k"
proof -
  obtain r where r: "m = MANTISSA + r" "r < MANTISSA" using assms le_Suc_ex by fastforce
  have "k * MANTISSA + m = r + Suc k * MANTISSA" using r(1) by simp
  moreover have "(r + Suc k * MANTISSA) div MANTISSA = Suc k" "(r + Suc k * MANTISSA) mod MANTISSA = r"
    using r(2) div_mult_self1 [of MANTISSA r "Suc k"] by (simp_all del: mult_Suc)
  ultimately have "(k * MANTISSA + m) div MANTISSA = Suc k" "(k * MANTISSA + m) mod MANTISSA = r" by (simp_all only:)
  then show ?thesis using r by (simp add: units_of_def Let_def)
qed

text \<open>Patterns that are not negative are ordered as their values are.\<close>

lemma units_of_mono:
  assumes "p \<le> q"
  shows "units_of p \<le> units_of q"
proof -
  let ?e = "p div MANTISSA" and ?f = "q div MANTISSA"
  have p: "?e * MANTISSA + p mod MANTISSA = p" and q: "?f * MANTISSA + q mod MANTISSA = q"
    and m: "p mod MANTISSA < MANTISSA" by simp_all
  consider "?e = ?f" | "?e < ?f" using div_le_mono [OF assms, of MANTISSA] by linarith
  then show ?thesis
  proof cases
    case 1
    then have "p mod MANTISSA \<le> q mod MANTISSA" using assms p q by (metis add_le_cancel_left)
    then show ?thesis using 1 by (simp add: units_of_def Let_def)
  next
    case 2
    then have upper: "MANTISSA * 2 ^ (?f - 1) \<le> units_of q" by (simp add: units_of_def Let_def)
    show ?thesis
    proof (cases "?e = 0")
      case True
      then have "units_of p \<le> MANTISSA" using m by (simp add: units_of_def)
      also have "\<dots> \<le> MANTISSA * 2 ^ (?f - 1)" by simp
      finally show ?thesis using upper by linarith
    next
      case False
      then have "units_of p \<le> (2 * MANTISSA) * 2 ^ (?e - 1)" using m by (simp add: units_of_def Let_def)
      also have "\<dots> = MANTISSA * 2 ^ ?e" using False by (cases ?e) simp_all
      also have "\<dots> \<le> MANTISSA * 2 ^ (?f - 1)" using 2 by (intro mult_left_mono power_increasing) simp_all
      finally show ?thesis using upper by linarith
    qed
  qed
qed

text \<open>So the value a result is rounded to does not pass a bound that is itself a value.\<close>

lemma round_ratio_units_le:
  assumes "0 < d" and "n \<le> d * (m * 2 ^ k)" and "MANTISSA \<le> m" and "m < 2 * MANTISSA"
  shows "units_of (round_ratio n d) \<le> m * 2 ^ k"
  using units_of_mono [OF round_ratio_le [OF assms]] units_of_normal [OF assms(3,4)] by simp

lemma round_ratio_pattern: "round_ratio n d < 2 ^ 63"
proof -
  have "round_ratio n d \<le> INFINITY_BITS" by (simp add: round_ratio_def Let_def)
  also have "\<dots> < 2 ^ 63" by (simp add: INFINITY_BITS_def MANTISSA_def)
  finally show ?thesis .
qed

lemma unat_of_round [simp]: "unat (of_nat (round_ratio n d) :: f64) = round_ratio n d"
proof -
  have "round_ratio n d < 2 ^ 64" using round_ratio_pattern [of n d] by (rule less_trans) simp
  then show ?thesis by (simp add: unat_of_nat take_bit_nat_eq_self_iff)
qed

subsection \<open>Rounding keeps the order, and what can be represented\<close>

lemma round_half_even_mono:
  assumes "n \<le> n'"
  shows "round_half_even n d \<le> round_half_even n' d"
proof -
  consider "n div d = n' div d" | "Suc (n div d) \<le> n' div d" using div_le_mono [OF assms, of d] by linarith
  then show ?thesis
  proof cases
    case 1
    then have "n mod d \<le> n' mod d" using assms by (metis add_le_cancel_left div_mult_mod_eq)
    then show ?thesis using 1 by (auto simp: round_half_even_def Let_def)
  next
    case 2
    then show ?thesis by (auto simp: round_half_even_def Let_def)
  qed
qed

lemma bit_length_mono: "a \<le> b \<Longrightarrow> bit_length a \<le> bit_length b"
  using bit_length_less [of b] by (intro bit_length_le) linarith

lemma round_half_even_normal:
  assumes "0 < d" and "0 < exponent_for n d"
  shows "MANTISSA \<le> round_half_even n (d * 2 ^ exponent_for n d)"
proof -
  let ?k = "exponent_for n d"
  have "bit_length (n div d) = 53 + ?k" using assms(2) by (simp add: exponent_for_def)
  then have "0 < n div d" and "(2 :: nat) ^ (52 + ?k) \<le> n div d"
    using bit_length_ge [of "n div d"] by (cases "n div d", simp add: bit_length.simps, simp)+
  then have "MANTISSA * 2 ^ ?k \<le> n div d" by (simp add: MANTISSA_def power_add)
  then have "MANTISSA \<le> n div d div 2 ^ ?k" by (metis div_le_mono nonzero_mult_div_cancel_right power_not_zero zero_neq_numeral)
  then have "MANTISSA \<le> n div (d * 2 ^ ?k)" by (simp only: div_mult2_eq)
  then show ?thesis by (auto simp: round_half_even_def Let_def)
qed

lemma round_ratio_mono:
  assumes "0 < d" and "n \<le> n'"
  shows "round_ratio n d \<le> round_ratio n' d"
proof -
  let ?j = "exponent_for n d" and ?k = "exponent_for n' d"
  have "bit_length (n div d) \<le> bit_length (n' div d)" by (rule bit_length_mono [OF div_le_mono [OF assms(2)]])
  then have jk: "?j \<le> ?k" by (simp add: exponent_for_def)
  have "?j * MANTISSA + round_half_even n (d * 2 ^ ?j) \<le> ?k * MANTISSA + round_half_even n' (d * 2 ^ ?k)"
  proof (cases "?j = ?k")
    case True
    then show ?thesis using round_half_even_mono [OF assms(2)] by simp
  next
    case False
    then have "Suc ?j * MANTISSA \<le> ?k * MANTISSA" using jk by (intro mult_right_mono) simp_all
    moreover have "round_half_even n (d * 2 ^ ?j) \<le> 2 * MANTISSA"
      using quotient_fits [OF assms(1), of n] unfolding two_mantissas .
    moreover have "MANTISSA \<le> round_half_even n' (d * 2 ^ ?k)"
      using False jk by (intro round_half_even_normal [OF assms(1)]) simp
    ultimately show ?thesis by simp
  qed
  then show ?thesis by (simp add: round_ratio_def Let_def)
qed

lemma round_ratio_exact:
  assumes "0 < d" and "MANTISSA \<le> m" and "m < 2 * MANTISSA" and "k < 2046"
  shows "round_ratio (d * (m * 2 ^ k)) d = k * MANTISSA + m"
proof -
  have "m * 2 ^ k < 2 ^ 53 * 2 ^ k" using assms(3) unfolding two_mantissas by simp
  then have upper: "bit_length (m * 2 ^ k) \<le> 53 + k" by (intro bit_length_le) (simp add: power_add)
  have "(2 :: nat) ^ 52 * 2 ^ k \<le> m * 2 ^ k" using assms(2) by (simp add: MANTISSA_def)
  then have "(2 :: nat) ^ (52 + k) < 2 ^ bit_length (m * 2 ^ k)"
    using bit_length_less [of "m * 2 ^ k"] unfolding power_add by linarith
  then have "52 + k < bit_length (m * 2 ^ k)" by (simp only: power_strict_increasing_iff rel_simps)
  then have k: "exponent_for (d * (m * 2 ^ k)) d = k" using upper assms(1) by (simp add: exponent_for_def)
  have "d * (m * 2 ^ k) = m * (d * 2 ^ k)" by simp
  then have "round_half_even (d * (m * 2 ^ k)) (d * 2 ^ k) = m"
    using assms(1) by (simp only: round_half_even_def) simp
  moreover have "k * MANTISSA \<le> 2045 * MANTISSA" using assms(4) by (intro mult_right_mono) simp_all
  then have "k * MANTISSA + m \<le> INFINITY_BITS" using assms(3) unfolding INFINITY_BITS_def by linarith
  ultimately show ?thesis using k by (simp add: round_ratio_def Let_def)
qed

lemma units_of_exact:
  assumes "0 < d" and "n = d * (m * 2 ^ k)" and "MANTISSA \<le> m" and "m < 2 * MANTISSA" and "k < 2046"
  shows "units_of (round_ratio n d) = m * 2 ^ k"
  using round_ratio_exact [OF assms(1,3-5)] units_of_normal [OF assms(3,4)] assms(2) by simp

lemma f64_exact:
  assumes "0 < d" and "n = d * (m * 2 ^ k)" and "MANTISSA \<le> m" and "m < 2 * MANTISSA" and "k < 2046"
  shows "f64_is_finite (of_nat (round_ratio n d)) \<and> f64_units (of_nat (round_ratio n d)) = m * 2 ^ k"
proof
  have "k * MANTISSA \<le> 2045 * MANTISSA" using assms(5) by (intro mult_right_mono) simp_all
  then have "k * MANTISSA + m < INFINITY_BITS" using assms(4) unfolding INFINITY_BITS_def by linarith
  then have "round_ratio n d < INFINITY_BITS" using round_ratio_exact [OF assms(1,3-5)] assms(2) by simp
  then show "f64_is_finite (of_nat (round_ratio n d))" by (intro f64_finite_below) (simp only: unat_of_round)
  show "f64_units (of_nat (round_ratio n d)) = m * 2 ^ k"
    using units_of_exact [OF assms] by (simp add: f64_units_def)
qed

text \<open>Integers of up to 53 bits convert exactly; those that do not keep their order.\<close>

lemma f64_of_nat_mono: "a \<le> b \<Longrightarrow> f64_units (f64_of_nat a) \<le> f64_units (f64_of_nat b)"
  by (simp add: f64_units_def f64_of_nat_def units_of_mono round_ratio_mono)

lemma f64_of_nat_exact:
  assumes "n * 2 ^ s = m" and "s \<le> 52" and "MANTISSA \<le> m" and "m < 2 * MANTISSA"
  shows "f64_units (f64_of_nat n) = n * UNIT"
proof -
  have "(2 :: nat) ^ s * 2 ^ (1074 - s) = UNIT" using assms(2) unfolding UNIT_def by (simp only: power_add [symmetric]) simp
  then have units: "m * 2 ^ (1074 - s) = n * UNIT" using assms(1) by (metis mult.assoc)
  have "round_ratio (1 * (m * 2 ^ (1074 - s))) 1 = (1074 - s) * MANTISSA + m"
    by (rule round_ratio_exact) (use assms in simp_all)
  then have "units_of (round_ratio (n * UNIT) 1) = n * UNIT"
    using units units_of_normal [OF assms(3,4)] by simp
  then show ?thesis by (simp only: f64_units_def f64_of_nat_def unat_of_round)
qed

text \<open>Every \<open>u64\<close> converts to a finite value.\<close>

lemma f64_of_nat_finite:
  assumes "n < 2 ^ 64"
  shows "f64_is_finite (f64_of_nat n)"
proof (rule f64_finite_below)
  have "2 ^ 64 * UNIT = MANTISSA * 2 ^ 1086" by (simp only: UNIT_def MANTISSA_def power_add [symmetric]) simp
  then have "n * UNIT \<le> 1 * (MANTISSA * 2 ^ 1086)" using assms by (metis less_imp_le mult_le_mono1 nat_mult_1)
  then have "round_ratio (n * UNIT) 1 \<le> 1086 * MANTISSA + MANTISSA" by (intro round_ratio_le) simp_all
  also have "\<dots> < INFINITY_BITS" by (simp add: INFINITY_BITS_def MANTISSA_def)
  finally show "unat (f64_of_nat n) < INFINITY_BITS" by (simp add: f64_of_nat_def)
qed

lemma f64_of_nat_pos: "0 < n \<Longrightarrow> 0 < f64_units (f64_of_nat n)"
proof -
  assume "0 < n"
  have "f64_units (f64_of_nat 1) = 1 * UNIT" by (rule f64_of_nat_exact [where s = 52 and m = MANTISSA]) (simp_all add: MANTISSA_def)
  then have "0 < f64_units (f64_of_nat 1)" by (simp add: UNIT_def)
  also have "\<dots> \<le> f64_units (f64_of_nat n)" using \<open>0 < n\<close> by (intro f64_of_nat_mono) simp
  finally show ?thesis .
qed

end
