(* ===== verification/Http.thy ===== *)
theory Http
  imports Install Utf8
begin

text \<open>
  \<open>src/http.rs\<close>: the stream an installation reads from, over \<open>EspHttpConnection\<close>. The
  connection is not the crate's: it is a parameter, whose answers are functions of the calls made
  before. \<open>None\<close> as an answer is a panic. Connections are numbered; dropping one is a call.
\<close>

datatype http_call =
    Http_New "string + nat"
  | Http_Request nat string "string option"
  | Http_Response nat "string option"
  | Http_Status nat u16
  | Http_Header nat string "string option"
  | Http_Read nat nat "string + bytes"
  | Http_Drop nat

record http_client =
  hc_new :: "http_call list \<Rightarrow> (string + nat) option"
  hc_request :: "http_call list \<Rightarrow> nat \<Rightarrow> string \<Rightarrow> string option option"
  hc_response :: "http_call list \<Rightarrow> nat \<Rightarrow> string option option"
  hc_status :: "http_call list \<Rightarrow> nat \<Rightarrow> u16 option"
  hc_header :: "http_call list \<Rightarrow> nat \<Rightarrow> string \<Rightarrow> string option option"
  hc_read :: "http_call list \<Rightarrow> nat \<Rightarrow> nat \<Rightarrow> (string + bytes) option"

record http_world =
  hw_client :: http_client
  hw_calls :: "http_call list"
  hw_connection :: "nat option"

definition http_ask ::
    "(http_client \<Rightarrow> http_call list \<Rightarrow> 'a option) \<Rightarrow> ('a \<Rightarrow> http_call) \<Rightarrow> ('s http_world_scheme, 'a) prog" where
  "http_ask f ev = (\<lambda>s. case f (hw_client s) (hw_calls s) of
      None \<Rightarrow> None
    | Some a \<Rightarrow> Some (Inr a, s\<lparr>hw_calls := hw_calls s @ [ev a]\<rparr>))"

text \<open>\<open>map_err(|e| Error::Download(e.to_string()))\<close>, on the two shapes of result.\<close>

definition download_error :: "string option \<Rightarrow> ('s, unit) prog" where
  "download_error e = (case e of None \<Rightarrow> ok () | Some text \<Rightarrow> fail (Error_Download text))"

definition download_result :: "string + 'a \<Rightarrow> ('s, 'a) prog" where
  "download_result r = (case r of Inl text \<Rightarrow> fail (Error_Download text) | Inr a \<Rightarrow> ok a)"

definition new_connection :: "('s http_world_scheme, nat) prog" where
  "new_connection = andthen (http_ask hc_new Http_New) download_result"

definition set_connection :: "nat option \<Rightarrow> ('s http_world_scheme, unit) prog" where
  "set_connection c = modify (\<lambda>s. s\<lparr>hw_connection := c\<rparr>)"

text \<open>\<open>EspHttpStream::new\<close>.\<close>

definition stream_new :: "('s http_world_scheme, unit) prog" where
  "stream_new = andthen new_connection (\<lambda>c. set_connection (Some c))"

text \<open>\<open>take\<close>, a fresh connection if there was none, and \<open>insert\<close>.\<close>

definition take_connection :: "('s http_world_scheme, nat) prog" where
  "take_connection =
     andthen (gets hw_connection) (\<lambda>held.
     andthen (set_connection None) (\<lambda>_.
     andthen (case held of Some c \<Rightarrow> ok c | None \<Rightarrow> new_connection) (\<lambda>c.
     andthen (set_connection (Some c)) (\<lambda>_. ok c))))"

definition header :: "nat \<Rightarrow> string \<Rightarrow> ('s http_world_scheme, string option) prog" where
  "header c name = http_ask (\<lambda>C h. hc_header C h c name) (Http_Header c name)"

text \<open>A request: on the connection taken or made, what it answered with.\<close>

definition request_on :: "string \<Rightarrow> nat \<Rightarrow> ('s http_world_scheme, u64 option) prog" where
  "request_on url c =
     andthen (andthen (http_ask (\<lambda>C h. hc_request C h c url) (Http_Request c url)) download_error) (\<lambda>_.
     andthen (andthen (http_ask (\<lambda>C h. hc_response C h c) (Http_Response c)) download_error) (\<lambda>_.
     andthen (http_ask (\<lambda>C h. hc_status C h c) (Http_Status c)) (\<lambda>status.
     if \<not> (200 \<le> status \<and> status < 300) then
       andthen (header c ''Retry-After'') (\<lambda>value.
       fail (Error_DownloadStatus status (Option.bind value (\<lambda>v. parse_u64 (trim v)))))
     else
       andthen (header c ''Content-Length'') (\<lambda>value. ok (Option.bind value parse_u64)))))"

definition request :: "string \<Rightarrow> ('s http_world_scheme, u64 option) prog" where
  "request url = andthen take_connection (request_on url)"

text \<open>\<open>self.connection = None\<close>: what was held is dropped.\<close>

definition drop_connection :: "('s http_world_scheme, unit) prog" where
  "drop_connection =
     andthen (gets hw_connection) (\<lambda>held.
     andthen (case held of
         None \<Rightarrow> ok ()
       | Some c \<Rightarrow> http_ask (\<lambda>_ _. Some ()) (\<lambda>_. Http_Drop c)) (\<lambda>_.
     set_connection None))"

definition stream_open :: "string \<Rightarrow> ('s http_world_scheme, u64 option) prog" where
  "stream_open url =
     andthen (attempt (request url)) (\<lambda>opened.
     andthen (only_if (case opened of Inl _ \<Rightarrow> True | Inr _ \<Rightarrow> False) drop_connection) (\<lambda>_.
     result opened))"

definition stream_read :: "nat \<Rightarrow> ('s http_world_scheme, bytes) prog" where
  "stream_read k =
     andthen (gets hw_connection) (\<lambda>held. case held of
         None \<Rightarrow> fail (Error_Download ''read before a successful open'')
       | Some c \<Rightarrow> andthen (http_ask (\<lambda>C h. hc_read C h c k) (Http_Read c k)) download_result)"

definition esp_http_stream :: "'s http_world_scheme http_stream" where
  "esp_http_stream = \<lparr>hs_open = stream_open, hs_read = stream_read\<rparr>"

subsection \<open>A connection's phases\<close>

text \<open>
  \<open>esp-idf-svc\<close> panics on a call out of phase: a request on a connection whose last request was
  not answered, or a question about a response there is not. A new connection is
  \<open>Phase_Idle\<close>, one a request was begun on is \<open>Phase_Busy\<close> until its response came.
\<close>

datatype phase = Phase_Gone | Phase_Idle | Phase_Busy | Phase_Sent | Phase_Answered

fun phase_after :: "nat \<Rightarrow> http_call \<Rightarrow> phase \<Rightarrow> phase" where
  "phase_after c (Http_New (Inr d)) p = (if d = c then Phase_Idle else p)"
| "phase_after c (Http_Request d _ e) p =
     (if d = c then if e = None then Phase_Sent else Phase_Busy else p)"
| "phase_after c (Http_Response d e) p =
     (if d = c then if e = None then Phase_Answered else Phase_Busy else p)"
| "phase_after c (Http_Drop d) p = (if d = c then Phase_Gone else p)"
| "phase_after c _ p = p"

definition phase_of :: "http_call list \<Rightarrow> nat \<Rightarrow> phase" where
  "phase_of calls c = fold (phase_after c) calls Phase_Gone"

definition panics_only_out_of_phase :: "http_client \<Rightarrow> bool" where
  "panics_only_out_of_phase C \<longleftrightarrow> (\<forall>h c.
     hc_new C h \<noteq> None \<and>
     (phase_of h c \<in> {Phase_Idle, Phase_Answered} \<longrightarrow> (\<forall>url. hc_request C h c url \<noteq> None)) \<and>
     (phase_of h c = Phase_Sent \<longrightarrow> hc_response C h c \<noteq> None) \<and>
     (phase_of h c = Phase_Answered \<longrightarrow> hc_status C h c \<noteq> None \<and>
        (\<forall>name. hc_header C h c name \<noteq> None) \<and> (\<forall>k. hc_read C h c k \<noteq> None)))"

lemma client_answers:
  assumes "panics_only_out_of_phase C"
  shows "\<exists>r. hc_new C h = Some r"
    and "phase_of h c = Phase_Idle \<Longrightarrow> \<exists>r. hc_request C h c url = Some r"
    and "phase_of h c = Phase_Answered \<Longrightarrow> \<exists>r. hc_request C h c url = Some r"
    and "phase_of h c = Phase_Sent \<Longrightarrow> \<exists>r. hc_response C h c = Some r"
    and "phase_of h c = Phase_Answered \<Longrightarrow> \<exists>r. hc_status C h c = Some r"
    and "phase_of h c = Phase_Answered \<Longrightarrow> \<exists>r. hc_header C h c name = Some r"
    and "phase_of h c = Phase_Answered \<Longrightarrow> \<exists>r. hc_read C h c k = Some r"
  using assms unfolding panics_only_out_of_phase_def not_None_eq insert_iff empty_iff by blast+

lemma phase_of_append [simp]: "phase_of (a @ b) c = fold (phase_after c) b (phase_of a c)"
  by (simp add: phase_of_def)

lemma phase_of_Nil [simp]: "phase_of [] c = Phase_Gone"
  by (simp add: phase_of_def)


text \<open>Whether the last status read on a connection, since its last request, was a success.\<close>

fun served_after :: "nat \<Rightarrow> http_call \<Rightarrow> bool \<Rightarrow> bool" where
  "served_after c (Http_New (Inr d)) b = (d \<noteq> c \<and> b)"
| "served_after c (Http_Request d _ _) b = (d \<noteq> c \<and> b)"
| "served_after c (Http_Status d st) b = (if d = c then 200 \<le> st \<and> st < 300 else b)"
| "served_after c _ b = b"

definition served :: "http_call list \<Rightarrow> nat \<Rightarrow> bool" where
  "served calls c = fold (served_after c) calls False"

lemma served_append [simp]: "served (a @ b) c = fold (served_after c) b (served a c)"
  by (simp add: served_def)

primrec reads_from :: "http_call list \<Rightarrow> http_call list \<Rightarrow> bool" where
  "reads_from past [] = True"
| "reads_from past (x # xs) =
     ((case x of Http_Read c _ _ \<Rightarrow> served past c | _ \<Rightarrow> True) \<and> reads_from (past @ [x]) xs)"

definition reads_ok :: "http_call list \<Rightarrow> bool" where
  "reads_ok calls = reads_from [] calls"

lemma reads_from_append: "reads_from past (a @ b) \<longleftrightarrow> reads_from past a \<and> reads_from (past @ a) b"
  by (induction a arbitrary: past) simp_all

lemma reads_ok_append [simp]: "reads_ok (a @ b) \<longleftrightarrow> reads_ok a \<and> reads_from a b"
  by (simp add: reads_ok_def reads_from_append)

text \<open>So a body is never taken from a connection that did not answer with success.\<close>

lemma reads_ok_served: "reads_ok (a @ Http_Read c k r # b) \<Longrightarrow> served a c"
  by simp

text \<open>Connections made and dropped.\<close>

fun made :: "http_call \<Rightarrow> bool" where
  "made (Http_New r) = (case r of Inl _ \<Rightarrow> False | Inr _ \<Rightarrow> True)"
| "made _ = False"

fun dropped_one :: "http_call \<Rightarrow> bool" where
  "dropped_one (Http_Drop _) = True"
| "dropped_one _ = False"

definition one_connection :: "'s http_world_scheme \<Rightarrow> bool" where
  "one_connection s \<longleftrightarrow> length (filter made (hw_calls s)) =
     length (filter dropped_one (hw_calls s)) + (if hw_connection s = None then 0 else 1)"

definition stream_ok :: "'s http_world_scheme \<Rightarrow> bool" where
  "stream_ok s \<longleftrightarrow> panics_only_out_of_phase (hw_client s) \<and> reads_ok (hw_calls s) \<and> one_connection s"

definition ready :: "'s http_world_scheme \<Rightarrow> bool" where
  "ready s \<longleftrightarrow> stream_ok s \<and> (case hw_connection s of None \<Rightarrow> True
     | Some c \<Rightarrow> phase_of (hw_calls s) c \<in> {Phase_Idle, Phase_Answered})"

definition streaming :: "'s http_world_scheme \<Rightarrow> bool" where
  "streaming s \<longleftrightarrow> stream_ok s \<and> (case hw_connection s of None \<Rightarrow> True
     | Some c \<Rightarrow> phase_of (hw_calls s) c = Phase_Answered \<and> served (hw_calls s) c)"

lemma streaming_ready: "streaming s \<Longrightarrow> ready s"
  by (auto simp: streaming_def ready_def split: option.splits)

lemmas http_basic = http_ask_def andthen_run attempt_def prog_run download_error_def download_result_def
  set_connection_def

lemmas http_runs = http_basic new_connection_def take_connection_def

lemma take_connection_ready:
  assumes "ready s"
  shows "\<exists>r t. take_connection s = Some (r, t) \<and> stream_ok t \<and> hw_client t = hw_client s \<and>
    (case r of Inl _ \<Rightarrow> hw_connection t = None | Inr c \<Rightarrow> hw_connection t = Some c \<and>
       phase_of (hw_calls t) c \<in> {Phase_Idle, Phase_Answered})"
proof (cases "hw_connection s")
  case None
  obtain n where "hc_new (hw_client s) (hw_calls s) = Some n"
    using assms client_answers(1) by (fastforce simp: ready_def stream_ok_def)
  with None assms show ?thesis
    by (cases n) (auto simp: http_runs ready_def stream_ok_def one_connection_def)
next
  case (Some c)
  with assms show ?thesis
    by (auto simp: http_runs ready_def stream_ok_def one_connection_def)
qed

lemma request_on_ready:
  assumes s: "stream_ok s" "hw_connection s = Some c" "phase_of (hw_calls s) c \<in> {Phase_Idle, Phase_Answered}"
  shows "\<exists>r t. request_on url c s = Some (r, t) \<and> stream_ok t \<and> hw_client t = hw_client s \<and>
    hw_connection t = Some c \<and> ((\<exists>n. r = Inr n) \<longrightarrow> streaming t)"
proof -
  let ?C = "hw_client s"
  have C: "panics_only_out_of_phase ?C" using s(1) by (simp add: stream_ok_def)
  note answers = client_answers [OF C]
  obtain e1 where e1: "hc_request ?C (hw_calls s) c url = Some e1"
    using s(3) answers(2,3) by blast
  show ?thesis
  proof (cases e1)
    case (Some msg)
    with e1 s show ?thesis
      by (auto simp: http_runs request_on_def stream_ok_def one_connection_def)
  next
    case None
    let ?h1 = "hw_calls s @ [Http_Request c url None]"
    obtain e2 where e2: "hc_response ?C ?h1 c = Some e2"
      using answers(4) [of ?h1 c] by auto
    show ?thesis
    proof (cases e2)
      case (Some msg)
      with e1 None e2 s show ?thesis
        by (auto simp: http_runs request_on_def stream_ok_def one_connection_def)
    next
      case None2: None
      let ?h2 = "?h1 @ [Http_Response c None]"
      obtain st where st: "hc_status ?C ?h2 c = Some st" using answers(5) [of ?h2 c] by auto
      let ?h3 = "?h2 @ [Http_Status c st]"
      have h3: "phase_of ?h3 c = Phase_Answered" by simp
      obtain v w where "hc_header ?C ?h3 c ''Retry-After'' = Some v"
          "hc_header ?C ?h3 c ''Content-Length'' = Some w"
        using answers(6) [OF h3] by blast
      with e1 None e2 None2 st s show ?thesis
        by (auto simp: http_runs request_on_def header_def stream_ok_def streaming_def one_connection_def)
    qed
  qed
qed

lemma stream_open_ready:
  assumes "ready s"
  shows "\<exists>r t. stream_open url s = Some (r, t) \<and> streaming t \<and> hw_client t = hw_client s \<and>
    (hw_connection t = None \<longleftrightarrow> (\<exists>e. r = Inl e))"
proof -
  obtain r t where take: "take_connection s = Some (r, t)" "stream_ok t" "hw_client t = hw_client s"
      "case r of Inl _ \<Rightarrow> hw_connection t = None | Inr c \<Rightarrow> hw_connection t = Some c \<and>
         phase_of (hw_calls t) c \<in> {Phase_Idle, Phase_Answered}"
    using take_connection_ready [OF assms] by blast
  show ?thesis
  proof (cases r)
    case (Inl e)
    with take show ?thesis
      by (auto simp: stream_open_def request_def drop_connection_def http_basic streaming_def
          stream_ok_def one_connection_def)
  next
    case (Inr c)
    then obtain r2 u where run: "request_on url c t = Some (r2, u)" "stream_ok u"
        "hw_client u = hw_client t" "hw_connection u = Some c" "(\<exists>n. r2 = Inr n) \<longrightarrow> streaming u"
      using request_on_ready [of t c url] take by auto
    with take Inr show ?thesis
      by (cases r2) (auto simp: stream_open_def request_def drop_connection_def http_basic streaming_def
          stream_ok_def one_connection_def)
  qed
qed

lemma stream_read_streaming:
  assumes "streaming s"
  shows "\<exists>r t. stream_read k s = Some (r, t) \<and> streaming t \<and> hw_client t = hw_client s \<and>
    hw_connection t = hw_connection s"
proof (cases "hw_connection s")
  case None
  with assms show ?thesis by (auto simp: stream_read_def http_runs)
next
  case (Some c)
  with assms have c: "phase_of (hw_calls s) c = Phase_Answered" "served (hw_calls s) c" "stream_ok s"
    by (auto simp: streaming_def)
  obtain v where "hc_read (hw_client s) (hw_calls s) c k = Some v"
    using client_answers(7) [OF _ c(1)] c(3) by (auto simp: stream_ok_def)
  with Some c show ?thesis
    by (cases v) (auto simp: stream_read_def http_runs streaming_def stream_ok_def one_connection_def)
qed

subsection \<open>Any sequence of calls\<close>

datatype http_op = Op_Open string | Op_Read nat

definition http_op :: "http_op \<Rightarrow> ('s http_world_scheme, unit) prog" where
  "http_op op = (case op of
      Op_Open url \<Rightarrow> andthen (attempt (stream_open url)) (\<lambda>_. ok ())
    | Op_Read k \<Rightarrow> andthen (attempt (stream_read k)) (\<lambda>_. ok ()))"

lemma http_op_streaming:
  assumes "streaming s"
  shows "\<exists>t. http_op op s = Some (Inr (), t) \<and> streaming t"
proof (cases op)
  case (Op_Open url)
  then show ?thesis
    using stream_open_ready [OF streaming_ready [OF assms], of url]
    by (auto simp: http_op_def andthen_attempt prog_run)
next
  case (Op_Read k)
  then show ?thesis
    using stream_read_streaming [OF assms, of k] by (auto simp: http_op_def andthen_attempt prog_run)
qed

lemma http_ops_streaming:
  assumes "streaming s"
  shows "\<exists>t. for_each ops http_op s = Some (Inr (), t) \<and> streaming t"
  using assms
proof (induction ops arbitrary: s)
  case (Cons op ops)
  then show ?case using http_op_streaming [OF Cons.prems, of op] by (auto simp: andthen_run)
qed (simp add: prog_run)

subsection \<open>Properties\<close>

text \<open>
  A client that keeps to its phases strictly, as \<open>esp-idf-svc\<close> documents of \<open>read\<close>:
  without a response there is a panic.
\<close>

definition reads_only_responses :: "http_client \<Rightarrow> bool" where
  "reads_only_responses C \<longleftrightarrow> (\<forall>h c k. phase_of h c = Phase_Idle \<longrightarrow> hc_read C h c k = None)"

lemma read_before_open_panics:
  assumes "hw_connection s = Some c" and "phase_of (hw_calls s) c = Phase_Idle" and "reads_only_responses (hw_client s)"
  shows "for_each (Op_Read k # ops) http_op s = None"
proof -
  have "hc_read (hw_client s) (hw_calls s) c k = None"
    using assms(2,3) by (simp add: reads_only_responses_def)
  then have "stream_read k s = None" using assms(1) by (simp add: stream_read_def http_runs)
  then show ?thesis by (simp add: http_op_def attempt_def andthen_run)
qed

text \<open>
  C18: the stream uses a connection in its turn once it has been opened. After \<open>new\<close> and a first
  open, any sequence of opens and reads, however each ends, runs without a panic, for every client
  that panics only on calls out of phase; a body is only ever read from a connection whose last
  answer was a success; a failed open leaves no connection, and there is never more than one that was
  made and not dropped. The first open is needed: a read straight after \<open>new\<close> goes to a
  connection that was never asked for anything, and panics with a client that reads only responses.
\<close>

theorem connections_used_in_turn:
  assumes "panics_only_out_of_phase (hw_client s)" and "hw_calls s = []" and "hw_connection s = None"
    and "stream_new s = Some (Inr (), t)"
  shows "(\<exists>u. for_each (Op_Open url # ops) http_op t = Some (Inr (), u) \<and>
      reads_ok (hw_calls u) \<and> one_connection u \<and>
      (case stream_open next_url u of None \<Rightarrow> False
       | Some (r, v) \<Rightarrow> (hw_connection v = None \<longleftrightarrow> (\<exists>e. r = Inl e)))) \<and>
    (reads_only_responses (hw_client s) \<longrightarrow> for_each (Op_Read k # ops) http_op t = None)"
proof -
  obtain c where t: "hw_client t = hw_client s" "hw_calls t = [Http_New (Inr c)]" "hw_connection t = Some c"
    using assms(2-4) by (auto simp: stream_new_def http_runs split: option.splits sum.splits)
  then have "ready t"
    using assms(1) by (simp add: ready_def stream_ok_def one_connection_def reads_ok_def phase_of_def)
  then obtain t1 where "http_op (Op_Open url) t = Some (Inr (), t1)" "streaming t1"
    using stream_open_ready [of t url] by (auto simp: http_op_def andthen_attempt prog_run)
  moreover from this obtain u where "for_each ops http_op t1 = Some (Inr (), u)" "streaming u"
    using http_ops_streaming by blast
  ultimately have "for_each (Op_Open url # ops) http_op t = Some (Inr (), u) \<and> streaming u"
    by (simp add: andthen_run)
  then have "\<exists>u. for_each (Op_Open url # ops) http_op t = Some (Inr (), u) \<and>
      reads_ok (hw_calls u) \<and> one_connection u \<and>
      (case stream_open next_url u of None \<Rightarrow> False
       | Some (r, v) \<Rightarrow> (hw_connection v = None \<longleftrightarrow> (\<exists>e. r = Inl e)))"
    using stream_open_ready [OF streaming_ready, of u next_url]
    by (auto simp: streaming_def stream_ok_def)
  moreover have "for_each (Op_Read k # ops) http_op t = None" if "reads_only_responses (hw_client s)"
    using that t by (intro read_before_open_panics) (simp_all add: phase_of_def)
  ultimately show ?thesis by blast
qed

text \<open>
  A server that is busy at first, asking for a later retry, and then serves three bytes; the client
  panics on everything out of phase.
\<close>

definition in_phase :: "phase list \<Rightarrow> http_call list \<Rightarrow> nat \<Rightarrow> 'a \<Rightarrow> 'a option" where
  "in_phase ps h c a = (if phase_of h c \<in> set ps then Some a else None)"

definition busy_server :: http_client where
  "busy_server = \<lparr>hc_new = (\<lambda>h. Some (Inr (length h))),
     hc_request = (\<lambda>h c url. in_phase [Phase_Idle, Phase_Answered] h c None),
     hc_response = (\<lambda>h c. in_phase [Phase_Sent] h c None),
     hc_status = (\<lambda>h c. in_phase [Phase_Answered] h c (if c = 0 then 503 else 200)),
     hc_header = (\<lambda>h c name. in_phase [Phase_Answered] h c
       (if name = ''Retry-After'' then Some '' 7 '' else Some ''3'')),
     hc_read = (\<lambda>h c k. in_phase [Phase_Answered] h c (Inr [1, 2, 3]))\<rparr>"

definition demo_http :: http_world where
  "demo_http = \<lparr>hw_client = busy_server, hw_calls = [], hw_connection = None\<rparr>"

lemma busy_server_in_phase: "panics_only_out_of_phase busy_server"
  by (simp add: panics_only_out_of_phase_def busy_server_def in_phase_def)

theorem connections_used_in_turn_witness:
  "case stream_new demo_http of None \<Rightarrow> False
   | Some (r, t) \<Rightarrow> r = Inr () \<and>
     fst (the (stream_open ''https://x'' t)) = Inl (Error_DownloadStatus 503 (Some 7)) \<and>
     (\<exists>u. for_each [Op_Open ''https://x'', Op_Open ''https://x'', Op_Read 9] http_op t = Some (Inr (), u) \<and>
       reads_ok (hw_calls u) \<and> one_connection u) \<and>
     for_each [Op_Read 9] http_op t = None"
proof -
  have new: "stream_new demo_http =
      Some (Inr (), demo_http\<lparr>hw_calls := [Http_New (Inr 0)], hw_connection := Some 0\<rparr>)"
    by (simp add: stream_new_def http_runs demo_http_def busy_server_def)
  have demo: "panics_only_out_of_phase (hw_client demo_http)" "hw_calls demo_http = []"
      "hw_connection demo_http = None"
    by (simp_all add: demo_http_def busy_server_in_phase)
  have run: "\<exists>u. for_each [Op_Open ''https://x'', Op_Open ''https://x'', Op_Read 9] http_op
      (demo_http\<lparr>hw_calls := [Http_New (Inr 0)], hw_connection := Some 0\<rparr>) = Some (Inr (), u) \<and>
      reads_ok (hw_calls u) \<and> one_connection u"
    using connections_used_in_turn [OF demo new, of "''https://x''" "[Op_Open ''https://x'', Op_Read 9]"] by blast
  have "reads_only_responses (hw_client demo_http)"
    by (simp add: reads_only_responses_def demo_http_def busy_server_def in_phase_def)
  then have early: "for_each [Op_Read 9] http_op
      (demo_http\<lparr>hw_calls := [Http_New (Inr 0)], hw_connection := Some 0\<rparr>) = None"
    using connections_used_in_turn [OF demo new, of _ "[]"] by blast
  have "trim '' 7 '' = ''7''" by code_simp
  moreover have "parse_u64 ''7'' = Some 7" by (simp add: parse_u64_def strip_plus_def digits_value_def is_digit_def)
  ultimately have "fst (the (stream_open ''https://x''
      (demo_http\<lparr>hw_calls := [Http_New (Inr 0)], hw_connection := Some 0\<rparr>))) =
      Inl (Error_DownloadStatus 503 (Some 7))"
    by (simp add: stream_open_def request_def request_on_def header_def drop_connection_def http_runs
        demo_http_def busy_server_def in_phase_def phase_of_def)
  with new run early show ?thesis by simp
qed

end
