(* ===== verification/Whenwhere.thy ===== *)
theory Whenwhere
  imports F64 Extensions Http Inbound
begin

text \<open>
  \<open>src/whenwhere.rs\<close>: a position from the Nerves project's service. A result whose error is a
  \<open>String\<close> is a sum. The connection is the one of theory Http, the random bytes and
  \<open>serde_json::from_str\<close> are parameters; the method, the request's one header and the
  connection's configuration are constants and are left out.
\<close>

unbundle bit_operations_syntax

definition DEFAULT_URL :: string where "DEFAULT_URL = ''https://whenwhere.nerves-project.org/''"
definition NONCE_HEADER :: string where "NONCE_HEADER = ''x-nonce''"
definition NONCE_LEN :: nat where "NONCE_LEN = 31"
definition NONCE_ALPHABET :: string where "NONCE_ALPHABET = ''0123456789abcdefghijklmnopqrstuvwxyz''"

record reading =
  rd_latitude :: f64
  rd_longitude :: f64
  rd_now :: "string option"
  rd_time_zone :: "string option"
  rd_city :: "string option"
  rd_country :: "string option"

definition reading_location :: "reading \<Rightarrow> location" where
  "reading_location r = \<lparr>latitude = rd_latitude r, longitude = rd_longitude r, loc_source = ''geoip'', accuracy = None\<rparr>"

definition nonce :: "bytes \<Rightarrow> string" where
  "nonce bytes = map (\<lambda>b. NONCE_ALPHABET ! (unat b mod length NONCE_ALPHABET)) (take NONCE_LEN bytes)"

subsection \<open>Numbers from text\<close>

text \<open>\<open>str::parse::<f64>\<close>: a sign, then a word or decimal digits with a point and an exponent.\<close>

definition ascii_lower :: "char \<Rightarrow> char" where
  "ascii_lower c = (if 65 \<le> (of_char c :: nat) \<and> (of_char c :: nat) \<le> 90 then char_of ((of_char c :: nat) + 32) else c)"

definition strip_sign :: "string \<Rightarrow> bool \<times> string" where
  "strip_sign s = (if s \<noteq> [] \<and> hd s = CHR ''-'' then (True, tl s)
     else if s \<noteq> [] \<and> hd s = CHR ''+'' then (False, tl s) else (False, s))"

definition parse_exponent :: "string \<Rightarrow> int option" where
  "parse_exponent s = (case s of
      [] \<Rightarrow> Some 0
    | c # rest \<Rightarrow>
        if ascii_lower c \<noteq> CHR ''e'' then None
        else (case strip_sign rest of (neg, ds) \<Rightarrow>
          if ds \<noteq> [] \<and> list_all is_digit ds
          then Some (if neg then - int (digits_value ds) else int (digits_value ds)) else None))"

definition decimal_bits :: "nat \<Rightarrow> int \<Rightarrow> nat" where
  "decimal_bits m e = (if 0 \<le> e then round_ratio (m * 10 ^ nat e * UNIT) 1
     else round_ratio (m * UNIT) (10 ^ nat (- e)))"

definition parse_decimal :: "string \<Rightarrow> nat option" where
  "parse_decimal s =
     (let whole = takeWhile is_digit s; rest = dropWhile is_digit s;
          pointed = (rest \<noteq> [] \<and> hd rest = CHR ''.'');
          fraction = (if pointed then takeWhile is_digit (tl rest) else []);
          rest = (if pointed then dropWhile is_digit (tl rest) else rest)
      in if whole = [] \<and> fraction = [] then None
         else map_option (\<lambda>e. decimal_bits (digits_value (whole @ fraction)) (e - int (length fraction)))
           (parse_exponent rest))"

definition NAN_BITS :: nat where "NAN_BITS = 0x7FF8000000000000"

definition parse_f64 :: "string \<Rightarrow> f64 option" where
  "parse_f64 s =
     (case strip_sign s of (neg, rest) \<Rightarrow>
        let bits = (if map ascii_lower rest \<in> {''inf'', ''infinity''} then Some INFINITY_BITS
                    else if map ascii_lower rest = ''nan'' then Some NAN_BITS
                    else parse_decimal rest)
        in map_option (\<lambda>b. if neg then SIGN_BIT OR of_nat b else of_nat b) bits)"

text \<open>\<open>Value::as_f64\<close>.\<close>

fun as_f64 :: "json \<Rightarrow> f64 option" where
  "as_f64 (JNumber (PosInt n)) = Some (f64_of_nat (unat n))"
| "as_f64 (JNumber (NegInt i)) = Some (f64_of_int (sint i))"
| "as_f64 (JNumber (Float x)) = Some x"
| "as_f64 _ = None"

subsection \<open>A reply\<close>

definition reply_number :: "json \<Rightarrow> string \<Rightarrow> f64 option" where
  "reply_number j key = Option.bind (json_get j key) (\<lambda>field. case as_f64 field of
      Some x \<Rightarrow> Some x
    | None \<Rightarrow> Option.bind (as_str field) (\<lambda>s. parse_f64 (trim s)))"

definition reply_text :: "json \<Rightarrow> string \<Rightarrow> string option" where
  "reply_text j key = Option.bind (json_get j key) as_str"

definition parse_reply ::
    "(string \<Rightarrow> string + json) \<Rightarrow> string \<Rightarrow> string \<Rightarrow> string option \<Rightarrow> string + reading" where
  "parse_reply from_str body sent_nonce returned_nonce = (case returned_nonce of
      None \<Rightarrow> Inl (''the reply carried no '' @ NONCE_HEADER @ '' header'')
    | Some returned \<Rightarrow>
        if returned \<noteq> sent_nonce then Inl ''the reply answered a different nonce''
        else (case from_str body of
            Inl e \<Rightarrow> Inl (''the reply was not JSON: '' @ e)
          | Inr j \<Rightarrow> (case (reply_number j ''latitude'', reply_number j ''longitude'') of
                (Some lat, Some lon) \<Rightarrow>
                  Inr \<lparr>rd_latitude = lat, rd_longitude = lon, rd_now = reply_text j ''now'',
                    rd_time_zone = reply_text j ''time_zone'', rd_city = reply_text j ''city'',
                    rd_country = reply_text j ''country''\<rparr>
              | _ \<Rightarrow> Inl ''the reply carried no position'')))"

subsection \<open>A lookup\<close>

text \<open>\<open>?\<close> on a result whose error is text.\<close>

definition then_try :: "('s, string + 'a) prog \<Rightarrow> ('a \<Rightarrow> ('s, string + 'b) prog) \<Rightarrow> ('s, string + 'b) prog" where
  "then_try m f = andthen m (\<lambda>r. case r of Inl e \<Rightarrow> ok (Inl e) | Inr a \<Rightarrow> f a)"

definition text_error :: "string \<Rightarrow> string option \<Rightarrow> string + unit" where
  "text_error what e = (case e of None \<Rightarrow> Inr () | Some text \<Rightarrow> Inl (what @ text))"

definition lookup_url :: "string \<Rightarrow> string \<Rightarrow> string" where
  "lookup_url url sent = url @ (if CHR ''?'' \<in> set url then ''&'' else ''?'') @ ''nonce='' @ sent"

definition MAX_REPLY :: nat where "MAX_REPLY = 4096"

definition body_turn :: "nat \<Rightarrow> bytes \<Rightarrow> ('s http_world_scheme, bytes + (string + bytes)) prog" where
  "body_turn c body =
     andthen (http_ask (\<lambda>C h. hc_read C h c 256) (Http_Read c 256)) (\<lambda>r. case r of
       Inl e \<Rightarrow> ok (Inr (Inl (''reading the reply: '' @ e)))
     | Inr chunk \<Rightarrow>
         if chunk = [] then ok (Inr (Inr body))
         else if MAX_REPLY < length (body @ chunk)
         then ok (Inr (Inl ''the reply was too large to be a whenwhere answer''))
         else ok (Inl (body @ chunk)))"

definition read_body :: "nat \<Rightarrow> ('s http_world_scheme, string + bytes) prog" where
  "read_body c = iterate (body_turn c) []"

text \<open>From the request to the reading, on a connection made for it.\<close>

definition lookup_on ::
    "(string \<Rightarrow> string + json) \<Rightarrow> string \<Rightarrow> string \<Rightarrow> nat \<Rightarrow> ('s http_world_scheme, string + reading) prog" where
  "lookup_on from_str url sent c =
     then_try (andthen (http_ask (\<lambda>C h. hc_request C h c url) (Http_Request c url)) (\<lambda>e. ok (text_error ''request: '' e))) (\<lambda>_.
     then_try (andthen (http_ask (\<lambda>C h. hc_response C h c) (Http_Response c)) (\<lambda>e. ok (text_error ''response: '' e))) (\<lambda>_.
     andthen (http_ask (\<lambda>C h. hc_status C h c) (Http_Status c)) (\<lambda>status.
     if \<not> (200 \<le> status \<and> status < 300) then
       ok (Inl (''the service answered HTTP '' @ dec_nat (unat status)))
     else
       andthen (header c NONCE_HEADER) (\<lambda>returned.
       then_try (read_body c) (\<lambda>body. ok (case from_utf8 body of
           None \<Rightarrow> Inl ''the reply was not text''
         | Some text1 \<Rightarrow> parse_reply from_str text1 sent returned))))))"

text \<open>\<open>Whenwhere::read\<close>: the connection is a local variable, dropped on every way out.\<close>

definition whenwhere_read ::
    "(string \<Rightarrow> string + json) \<Rightarrow> string \<Rightarrow> bytes \<Rightarrow> ('s http_world_scheme, string + reading) prog" where
  "whenwhere_read from_str url entropy =
     (let sent = nonce entropy in
      andthen (http_ask hc_new Http_New) (\<lambda>made_one. case made_one of
        Inl e \<Rightarrow> ok (Inl (''http client: '' @ e))
      | Inr c \<Rightarrow>
          andthen (lookup_on from_str (lookup_url url sent) sent c) (\<lambda>r.
          andthen (http_ask (\<lambda>_ _. Some ()) (\<lambda>_. Http_Drop c)) (\<lambda>_. ok r))))"

text \<open>The provider: a failure is logged and is no position.\<close>

record whenwhere_world = http_world +
  wh_warned :: "string list"

definition whenwhere_location ::
    "(string \<Rightarrow> string + json) \<Rightarrow> string \<Rightarrow> bytes \<Rightarrow> ('s whenwhere_world_scheme, location option) prog" where
  "whenwhere_location from_str url entropy =
     andthen (whenwhere_read from_str url entropy) (\<lambda>r. case r of
       Inr reading \<Rightarrow> ok (Some (reading_location reading))
     | Inl reason \<Rightarrow>
         andthen (modify (\<lambda>s. s\<lparr>wh_warned := wh_warned s @ [''whenwhere lookup failed: '' @ reason]\<rparr>)) (\<lambda>_. ok None))"

subsection \<open>Nonces\<close>

lemma nonce_len: "length (nonce bytes) = min (length bytes) NONCE_LEN"
  by (simp add: nonce_def)

lemma nonce_alphabet: "set (nonce bytes) \<subseteq> set NONCE_ALPHABET"
proof -
  have "NONCE_ALPHABET ! (unat b mod length NONCE_ALPHABET) \<in> set NONCE_ALPHABET" for b :: u8
    by (rule nth_mem) (simp add: NONCE_ALPHABET_def)
  then show ?thesis by (auto simp: nonce_def)
qed

subsection \<open>What a lookup does\<close>

definition is_read_of :: "nat \<Rightarrow> http_call \<Rightarrow> bool" where
  "is_read_of c x \<longleftrightarrow> (\<exists>r. x = Http_Read c 256 r)"

definition reads_of :: "nat \<Rightarrow> bytes list \<Rightarrow> http_call list" where
  "reads_of c chunks = map (\<lambda>b. Http_Read c 256 (Inr b)) chunks"

lemma reads_keep_phase: "list_all (is_read_of c) new \<Longrightarrow> fold (phase_after d) new p = p"
  by (induction new arbitrary: p) (auto simp: is_read_of_def)

text \<open>The body: it ends, having read no more than it may keep and the chunk that passes it.\<close>

definition body_read :: "nat \<Rightarrow> bytes \<Rightarrow> string + bytes \<Rightarrow> http_call list \<Rightarrow> bool" where
  "body_read c body r new \<longleftrightarrow> list_all (is_read_of c) new \<and>
     (\<forall>b. r = Inr b \<longrightarrow> (\<exists>chunks. new = reads_of c (chunks @ [[]]) \<and> [] \<notin> set chunks \<and>
        b = body @ concat chunks \<and> length b \<le> MAX_REPLY))"

lemma body_read_again:
  assumes "body_read c (body @ chunk) r new" and "chunk \<noteq> []"
  shows "body_read c body r (Http_Read c 256 (Inr chunk) # new)"
proof -
  have "\<exists>chunks'. Http_Read c 256 (Inr chunk) # reads_of c (chunks @ [[]]) = reads_of c (chunks' @ [[]]) \<and>
      [] \<notin> set chunks' \<and> body @ chunk @ concat chunks = body @ concat chunks'" if "[] \<notin> set chunks" for chunks
    using that assms(2) by (intro exI [of _ "chunk # chunks"]) (auto simp: reads_of_def)
  then show ?thesis using assms(1) unfolding body_read_def by (auto simp: is_read_of_def)
qed

lemma read_body_run:
  assumes "panics_only_out_of_phase (hw_client s)" and "phase_of (hw_calls s) c = Phase_Answered"
    and "length body \<le> MAX_REPLY"
  shows "\<exists>r new. iterate (body_turn c) body s = Some (Inr r, s\<lparr>hw_calls := hw_calls s @ new\<rparr>) \<and> body_read c body r new"
  using assms
proof (induction "MAX_REPLY - length body" arbitrary: body s rule: less_induct)
  case less
  obtain a where a: "hc_read (hw_client s) (hw_calls s) c 256 = Some a"
    using client_answers(7) [OF less.prems(1,2)] by blast
  let ?s = "s\<lparr>hw_calls := hw_calls s @ [Http_Read c 256 a]\<rparr>"
  have ask: "http_ask (\<lambda>C h. hc_read C h c 256) (Http_Read c 256) s = Some (Inr a, ?s)"
    by (simp add: http_ask_def a)
  show ?case
  proof (cases "\<exists>chunk. a = Inr chunk \<and> chunk \<noteq> [] \<and> length (body @ chunk) \<le> MAX_REPLY")
    case True
    then obtain chunk where chunk: "a = Inr chunk" "chunk \<noteq> []" "length (body @ chunk) \<le> MAX_REPLY" by blast
    have pos: "0 < length chunk" using chunk by simp
    have turn: "body_turn c body s = Some (Inr (Inl (body @ chunk)), ?s)"
      using chunk by (simp add: body_turn_def andthen_run ask prog_run)
    have "\<exists>r new. iterate (body_turn c) (body @ chunk) ?s = Some (Inr r, ?s\<lparr>hw_calls := hw_calls ?s @ new\<rparr>) \<and>
        body_read c (body @ chunk) r new"
      by (rule less.hyps) (use chunk pos less.prems in \<open>auto simp del: length_greater_0_conv\<close>)
    then obtain r new where "iterate (body_turn c) (body @ chunk) ?s = Some (Inr r, ?s\<lparr>hw_calls := hw_calls ?s @ new\<rparr>)"
      "body_read c (body @ chunk) r new" by blast
    then have "iterate (body_turn c) body s =
        Some (Inr r, s\<lparr>hw_calls := hw_calls s @ Http_Read c 256 (Inr chunk) # new\<rparr>)"
      and "body_read c body r (Http_Read c 256 (Inr chunk) # new)"
      using turn chunk body_read_again by (subst iterate.simps, simp, blast)
    then show ?thesis by blast
  next
    case False
    have "\<exists>r. body_turn c body s = Some (Inr (Inr r), ?s) \<and> body_read c body r [Http_Read c 256 a]"
    proof (cases a)
      case (Inl e)
      then show ?thesis by (simp add: body_turn_def andthen_run ask prog_run body_read_def is_read_of_def)
    next
      case (Inr chunk)
      show ?thesis
      proof (cases "chunk = []")
        case True
        then have "body_read c body (Inr body) [Http_Read c 256 a]"
          using Inr less.prems(3) by (auto simp: body_read_def is_read_of_def reads_of_def intro: exI [of _ "[]"])
        then show ?thesis using True Inr by (simp add: body_turn_def andthen_run ask prog_run)
      next
        case long: False
        then have "MAX_REPLY < length (body @ chunk)" using False Inr by (simp add: not_le)
        then show ?thesis
          using long Inr by (simp add: body_turn_def andthen_run ask prog_run body_read_def is_read_of_def)
      qed
    qed
    then show ?thesis by (subst iterate.simps) auto
  qed
qed

text \<open>
  A lookup on an idle connection: it ends, makes no connection and drops none, and a reading comes
  from a success whose header has the nonce and whose body is all there.
\<close>

definition answered_calls :: "nat \<Rightarrow> string \<Rightarrow> string \<Rightarrow> u16 \<Rightarrow> bytes list \<Rightarrow> http_call list" where
  "answered_calls c url sent status chunks =
     [Http_Request c url None, Http_Response c None, Http_Status c status,
      Http_Header c NONCE_HEADER (Some sent)] @ reads_of c (chunks @ [[]])"

definition answered_by :: "(string \<Rightarrow> string + json) \<Rightarrow> string \<Rightarrow> bytes list \<Rightarrow> u16 \<Rightarrow> reading \<Rightarrow> bool" where
  "answered_by from_str sent chunks status reading \<longleftrightarrow> 200 \<le> status \<and> status < 300 \<and>
     length (concat chunks) \<le> MAX_REPLY \<and>
     (\<exists>text1. from_utf8 (concat chunks) = Some text1 \<and> parse_reply from_str text1 sent (Some sent) = Inr reading)"

definition neither :: "http_call \<Rightarrow> bool" where
  "neither x \<longleftrightarrow> \<not> made x \<and> \<not> dropped_one x"

definition looked_up ::
    "(string \<Rightarrow> string + json) \<Rightarrow> string \<Rightarrow> string \<Rightarrow> nat \<Rightarrow> string + reading \<Rightarrow> http_call list \<Rightarrow> bool" where
  "looked_up from_str url sent c r new \<longleftrightarrow> list_all neither new \<and>
     (\<forall>reading. r = Inr reading \<longrightarrow> (\<exists>status chunks. new = answered_calls c url sent status chunks \<and>
        answered_by from_str sent chunks status reading))"

lemma parse_reply_nonce: "parse_reply from_str body sent returned = Inr reading \<Longrightarrow> returned = Some sent"
  by (auto simp: parse_reply_def split: option.splits if_splits)

lemma neither_simps [simp]:
  "neither (Http_Request c url e)" "neither (Http_Response c e)" "neither (Http_Status c status)"
  "neither (Http_Header c name v)" "neither (Http_Read c k r)"
  by (simp_all add: neither_def)

lemma reads_neither: "list_all (is_read_of c) new \<Longrightarrow> list_all neither new"
  by (auto simp: list_all_iff is_read_of_def)

lemma lookup_on_run:
  assumes C: "panics_only_out_of_phase (hw_client s)" and idle: "phase_of (hw_calls s) c = Phase_Idle"
  shows "\<exists>r new. lookup_on from_str url sent c s = Some (Inr r, s\<lparr>hw_calls := hw_calls s @ new\<rparr>) \<and>
    looked_up from_str url sent c r new"
proof -
  note C' = client_answers [OF C]
  note run = lookup_on_def then_try_def andthen_run http_ask_def header_def text_error_def prog_run
  obtain q where q: "hc_request (hw_client s) (hw_calls s) c url = Some q" using C'(2) [OF idle] by blast
  show ?thesis
  proof (cases q)
    case (Some e)
    then show ?thesis using q by (auto simp: run looked_up_def intro: exI [of _ "[Http_Request c url (Some e)]"])
  next
    case q_ok: None
    let ?h1 = "hw_calls s @ [Http_Request c url None]"
    have "phase_of ?h1 c = Phase_Sent" by simp
    then obtain p where p: "hc_response (hw_client s) ?h1 c = Some p" using C'(4) by blast
    show ?thesis
    proof (cases p)
      case (Some e)
      then show ?thesis using q p q_ok
        by (auto simp: run looked_up_def intro: exI [of _ "[Http_Request c url None, Http_Response c (Some e)]"])
    next
      case p_ok: None
      let ?h2 = "?h1 @ [Http_Response c None]"
      have ph2: "phase_of ?h2 c = Phase_Answered" by simp
      then obtain status where st: "hc_status (hw_client s) ?h2 c = Some status" using C'(5) by blast
      let ?h3 = "?h2 @ [Http_Status c status]"
      show ?thesis
      proof (cases "200 \<le> status \<and> status < 300")
        case False
        then show ?thesis using q p q_ok p_ok st
          by (auto simp: run looked_up_def
              intro: exI [of _ "[Http_Request c url None, Http_Response c None, Http_Status c status]"])
      next
        case ok_status: True
        have "phase_of ?h3 c = Phase_Answered" using ph2 by simp
        then obtain v where v: "hc_header (hw_client s) ?h3 c NONCE_HEADER = Some v" using C'(6) by blast
        let ?h4 = "?h3 @ [Http_Header c NONCE_HEADER v]"
        have "phase_of ?h4 c = Phase_Answered" using ph2 by simp
        then obtain b new where body: "iterate (body_turn c) [] (s\<lparr>hw_calls := ?h4\<rparr>) =
            Some (Inr b, s\<lparr>hw_calls := ?h4 @ new\<rparr>)" and b: "body_read c [] b new"
          using read_body_run [of "s\<lparr>hw_calls := ?h4\<rparr>" c "[]"] C by auto
        let ?new = "[Http_Request c url None, Http_Response c None, Http_Status c status, Http_Header c NONCE_HEADER v] @ new"
        let ?r = "case b of Inl e \<Rightarrow> Inl e | Inr bs \<Rightarrow> (case from_utf8 bs of None \<Rightarrow> Inl ''the reply was not text''
            | Some text1 \<Rightarrow> parse_reply from_str text1 sent v)"
        have "lookup_on from_str url sent c s = Some (Inr ?r, s\<lparr>hw_calls := hw_calls s @ ?new\<rparr>)"
          using q p q_ok p_ok st ok_status v body by (simp add: run read_body_def split: sum.split)
        moreover have "looked_up from_str url sent c ?r ?new"
        proof -
          have "\<exists>status' chunks. ?new = answered_calls c url sent status' chunks \<and>
              answered_by from_str sent chunks status' reading" if r: "?r = Inr reading" for reading
          proof -
            from r obtain bs text1 where bs: "b = Inr bs" "from_utf8 bs = Some text1"
              "parse_reply from_str text1 sent v = Inr reading" by (auto split: sum.splits option.splits)
            from b bs obtain chunks where "new = reads_of c (chunks @ [[]])" "bs = concat chunks"
              "length bs \<le> MAX_REPLY" by (auto simp: body_read_def)
            with bs parse_reply_nonce [OF bs(3)] ok_status show ?thesis
              by (intro exI [of _ status] exI [of _ chunks]) (auto simp: answered_calls_def answered_by_def)
          qed
          then show ?thesis using b reads_neither by (auto simp: looked_up_def body_read_def)
        qed
        ultimately show ?thesis by blast
      qed
    qed
  qed
qed

subsection \<open>Properties\<close>

text \<open>
  C34: a position is one this lookup asked for. A lookup ends, and drops the connection it made; when
  it gives a position, it sent a request with its own nonce, was answered with success and that
  nonce, read the whole body, of at most 4096 bytes, and found the position there.
\<close>

theorem position_answers_lookup:
  assumes "panics_only_out_of_phase (hw_client s)"
  shows "\<exists>l t new. whenwhere_location from_str url entropy s = Some (Inr l, t) \<and> hw_calls t = hw_calls s @ new \<and>
    length (filter made new) = length (filter dropped_one new) \<and>
    (\<forall>p. l = Some p \<longrightarrow> (\<exists>c status chunks reading.
       new = Http_New (Inr c) # answered_calls c (lookup_url url (nonce entropy)) (nonce entropy) status chunks @ [Http_Drop c] \<and>
       answered_by from_str (nonce entropy) chunks status reading \<and> p = reading_location reading))"
proof -
  let ?sent = "nonce entropy"
  note run = whenwhere_location_def whenwhere_read_def Let_def andthen_run http_ask_def prog_run
  obtain n where n: "hc_new (hw_client s) (hw_calls s) = Some n" using client_answers(1) [OF assms] by blast
  show ?thesis
  proof (cases n)
    case (Inl e)
    then show ?thesis using n by (simp add: run)
  next
    case (Inr c)
    let ?s = "s\<lparr>hw_calls := hw_calls s @ [Http_New (Inr c)]\<rparr>"
    have "\<exists>r new. lookup_on from_str (lookup_url url ?sent) ?sent c ?s = Some (Inr r, ?s\<lparr>hw_calls := hw_calls ?s @ new\<rparr>) \<and>
        looked_up from_str (lookup_url url ?sent) ?sent c r new"
      by (rule lookup_on_run) (simp_all add: assms)
    then obtain r new where look: "lookup_on from_str (lookup_url url ?sent) ?sent c ?s =
        Some (Inr r, ?s\<lparr>hw_calls := hw_calls ?s @ new\<rparr>)" and new: "looked_up from_str (lookup_url url ?sent) ?sent c r new"
      by blast
    have quiet: "filter made new = []" "filter dropped_one new = []"
      using new by (auto simp: looked_up_def list_all_iff neither_def filter_empty_conv)
    have read: "whenwhere_read from_str url entropy s =
        Some (Inr r, s\<lparr>hw_calls := hw_calls s @ Http_New (Inr c) # new @ [Http_Drop c]\<rparr>)"
      using n Inr look by (simp add: run)
    show ?thesis
    proof (cases r)
      case Inl
      then show ?thesis using read quiet by (simp add: whenwhere_location_def andthen_run prog_run)
    next
      case (Inr reading)
      then obtain status chunks where "new = answered_calls c (lookup_url url ?sent) ?sent status chunks"
        "answered_by from_str ?sent chunks status reading" using new by (auto simp: looked_up_def)
      then show ?thesis using Inr read quiet by (auto simp: whenwhere_location_def andthen_run prog_run)
    qed
  qed
qed

definition demo_service :: http_client where
  "demo_service = \<lparr>hc_new = (\<lambda>h. Some (Inr (length h))), hc_request = (\<lambda>h c url. Some None),
     hc_response = (\<lambda>h c. Some None), hc_status = (\<lambda>h c. Some 200),
     hc_header = (\<lambda>h c name. Some (Some (nonce [0, 1]))),
     hc_read = (\<lambda>h c k. Some (Inr (if length h < 6 then [123, 125] else [])))\<rparr>"

definition demo_lookup :: whenwhere_world where
  "demo_lookup = \<lparr>hw_client = demo_service, hw_calls = [], hw_connection = None, wh_warned = []\<rparr>"

definition demo_reply :: "string \<Rightarrow> string + json" where
  "demo_reply text1 = Inr (JObject [(''latitude'', JNumber (Float 7)), (''longitude'', JNumber (Float 8))])"

lemma demo_reads:
  "hw_client s = demo_service \<Longrightarrow> length (hw_calls s) = 5 \<Longrightarrow> \<exists>t. read_body c s = Some (Inr (Inr [123, 125]), t)"
  by (simp add: read_body_def iterate.simps [of "body_turn c" "[]"] iterate.simps [of "body_turn c" "[123, 125]"]
      body_turn_def andthen_run http_ask_def prog_run demo_service_def MAX_REPLY_def)

lemma demo_texts:
  "nonce [0, 1] = ''01''" "lookup_url ''https://w/'' ''01'' = ''https://w/?nonce=01''"
  "from_utf8 [123, 125] = Some ''{}''"
  "parse_reply demo_reply ''{}'' ''01'' (Some ''01'') = Inr \<lparr>rd_latitude = 7, rd_longitude = 8, rd_now = None,
     rd_time_zone = None, rd_city = None, rd_country = None\<rparr>"
  by code_simp+

lemma demo_service_answers:
  "hw_client demo_lookup = demo_service" "hw_calls demo_lookup = []"
  "hc_new demo_service h = Some (Inr (length h))" "hc_request demo_service h c url = Some None"
  "hc_response demo_service h c = Some None" "hc_status demo_service h c = Some 200"
  "hc_header demo_service h c name = Some (Some ''01'')"
  by (simp_all add: demo_lookup_def demo_service_def demo_texts)

lemma demo_located:
  "\<exists>p t. whenwhere_location demo_reply ''https://w/'' [0, 1] demo_lookup = Some (Inr (Some p), t) \<and> latitude p = 7"
proof -
  note run = andthen_run http_ask_def prog_run then_try_def text_error_def header_def
  have "\<exists>p t. lookup_on demo_reply ''https://w/?nonce=01'' ''01'' 0
      (demo_lookup\<lparr>hw_calls := [Http_New (Inr 0)]\<rparr>) = Some (Inr (Inr p), t) \<and> rd_latitude p = 7"
    using demo_reads [of "demo_lookup\<lparr>hw_calls := [Http_New (Inr 0), Http_Request 0 ''https://w/?nonce=01'' None,
        Http_Response 0 None, Http_Status 0 200, Http_Header 0 NONCE_HEADER (Some ''01'')]\<rparr>" 0]
    by (auto simp: lookup_on_def run demo_texts demo_service_answers)
  then obtain p t where "lookup_on demo_reply ''https://w/?nonce=01'' ''01'' 0
      (demo_lookup\<lparr>hw_calls := [Http_New (Inr 0)]\<rparr>) = Some (Inr (Inr p), t)" "rd_latitude p = 7" by blast
  then show ?thesis
    by (simp add: whenwhere_location_def whenwhere_read_def Let_def demo_texts run demo_service_answers reading_location_def)
qed

theorem position_answers_lookup_witness:
  "\<exists>c status chunks. 200 \<le> status \<and> status < (300 :: u16) \<and> (\<exists>p t. latitude p = 7 \<and>
     whenwhere_location demo_reply ''https://w/'' [0, 1] demo_lookup = Some (Inr (Some p), t) \<and>
     hw_calls t = Http_New (Inr c) # answered_calls c ''https://w/?nonce=01'' ''01'' status chunks @ [Http_Drop c])"
proof -
  have phase: "panics_only_out_of_phase (hw_client demo_lookup)" and none: "hw_calls demo_lookup = []"
    by (simp_all add: panics_only_out_of_phase_def demo_lookup_def demo_service_def)
  obtain p t where located: "whenwhere_location demo_reply ''https://w/'' [0, 1] demo_lookup = Some (Inr (Some p), t)"
    and p: "latitude p = 7" using demo_located by blast
  from position_answers_lookup [OF phase, of demo_reply "''https://w/''" "[0, 1]"] located
  obtain c status chunks reading where calls: "hw_calls t = Http_New (Inr c) #
      answered_calls c ''https://w/?nonce=01'' ''01'' status chunks @ [Http_Drop c]"
    and answered: "answered_by demo_reply ''01'' chunks status reading" unfolding none demo_texts by auto
  from answered have "200 \<le> status" "status < 300" by (simp_all add: answered_by_def)
  with located p calls show ?thesis by blast
qed

end
