(* ===== verification/Health.thy ===== *)
theory Health
  imports F64 Extensions
begin

unbundle bit_operations_syntax

text \<open>
  \<open>src/health.rs\<close>: the metrics in a health report. What ESP-IDF says of the heap, the
  access point, the tasks and the last reset is a parameter, one reading of each.
\<close>

definition as_mb :: "u64 \<Rightarrow> f64" where
  "as_mb bytes = f64_div (f64_of_nat (unat bytes)) (f64_mul (f64_of_nat 1024) (f64_of_nat 1024))"

definition percent :: "u64 \<Rightarrow> u64 \<Rightarrow> f64" where
  "percent used whole =
     (if whole = 0 then f64_of_nat 0
      else f64_mul (f64_div (f64_of_nat (unat used)) (f64_of_nat (unat whole))) (f64_of_nat 100))"

definition memory_metrics :: "u64 \<Rightarrow> u64 \<Rightarrow> u64 \<Rightarrow> u64 \<Rightarrow> (string \<times> f64) list" where
  "memory_metrics total_bytes free_bytes min_free_bytes largest_free_block_bytes =
     (let used = saturating_sub total_bytes free_bytes in
      [(''mem_size_mb'', as_mb total_bytes),
       (''mem_used_mb'', as_mb used),
       (''mem_used_percent'', percent used total_bytes),
       (''heap_free_bytes'', f64_of_nat (unat free_bytes)),
       (''heap_min_free_bytes'', f64_of_nat (unat min_free_bytes)),
       (''heap_largest_free_block_bytes'', f64_of_nat (unat largest_free_block_bytes))])"

definition reset_reasons :: "string list" where
  "reset_reasons = [''unknown'', ''power_on'', ''external_pin'', ''software'', ''panic'', ''interrupt_watchdog'',
     ''task_watchdog'', ''other_watchdog'', ''deep_sleep'', ''brownout'', ''sdio'', ''usb'', ''jtag'', ''efuse'',
     ''power_glitch'', ''cpu_lockup'']"

definition reset_reason_name :: "u32 \<Rightarrow> string" where
  "reset_reason_name reason =
     (if unat reason < length reset_reasons then reset_reasons ! unat reason else ''unrecognised'')"

subsection \<open>The readings\<close>

text \<open>
  \<open>heap_caps_get_*\<close> of internal RAM; \<open>esp_wifi_sta_get_ap_info\<close>, its error and the
  record it fills; \<open>uxTaskGetSystemState\<close>, the tasks it fills, how many, and the total run time,
  with whether the \<open>cpu-metrics\<close> feature is on.
\<close>

record task_status =
  ts_name :: string
  ts_run_time :: u32

record ap_record =
  ap_ssid :: bytes
  ap_rssi :: int
  ap_primary :: u8

record esp_readings =
  er_heap_total :: usize
  er_heap_free :: usize
  er_heap_min_free :: usize
  er_heap_largest :: usize
  er_ap_info :: "int \<times> ap_record"
  er_cpu_metrics :: bool
  er_tasks :: "task_status list"
  er_written :: nat
  er_total_runtime :: u32
  er_reset_reason :: u32

definition internal_heap :: "esp_readings \<Rightarrow> u64 \<times> u64 \<times> u64 \<times> u64" where
  "internal_heap R = (ucast (er_heap_total R), ucast (er_heap_free R), ucast (er_heap_min_free R),
     ucast (er_heap_largest R))"

definition wifi_rssi :: "esp_readings \<Rightarrow> int option" where
  "wifi_rssi R = (case er_ap_info R of (err, info) \<Rightarrow> if err = 0 then Some (ap_rssi info) else None)"

definition is_idle_task :: "task_status \<Rightarrow> bool" where
  "is_idle_task t = prefix ''IDLE'' (ts_name t)"

text \<open>
  The sum of the run times, in \<open>u32\<close>, wraps in a release build. \<open>uxTaskGetSystemState\<close> fills no
  more than the tasks it was given room for.
\<close>

definition idle_run_time :: "task_status list \<Rightarrow> u32" where
  "idle_run_time ts = sum_list (map ts_run_time (filter is_idle_task ts))"

definition cpu_usage_percent :: "esp_readings \<Rightarrow> f64 option" where
  "cpu_usage_percent R =
     (if \<not> er_cpu_metrics R then None
      else if er_written R = 0 \<or> er_total_runtime R = 0 then None
      else Some (f64_sub (f64_of_nat 100)
        (percent (ucast (idle_run_time (take (er_written R) (er_tasks R)))) (ucast (er_total_runtime R)))))"

definition esp_health_report :: "esp_readings \<Rightarrow> health_report" where
  "esp_health_report R =
     (case internal_heap R of (whole, free, min_free, largest) \<Rightarrow>
        let report = fold (\<lambda>(name, v). add_metric name v) (memory_metrics whole free min_free largest) empty_report;
            report = (case wifi_rssi R of None \<Rightarrow> report | Some rssi \<Rightarrow> add_metric ''wifi_rssi'' (f64_of_int rssi) report);
            report = (case cpu_usage_percent R of None \<Rightarrow> report | Some cpu \<Rightarrow> add_metric ''cpu_usage_percent'' cpu report)
        in add_meta ''reset_reason'' (reset_reason_name (er_reset_reason R)) report)"

subsection \<open>Percentages\<close>

lemma f64_100: "f64_units (f64_of_nat 100) = 100 * UNIT"
  by (rule f64_of_nat_exact [where s = 46 and m = "100 * 2 ^ 46"]) (simp_all add: MANTISSA_def)

lemma UNIT_pos [simp]: "0 < UNIT"
  by (simp add: UNIT_def)

lemma u64_finite [simp]: "f64_is_finite (f64_of_nat (unat (w :: u64)))"
  using unsigned_less [of w] by (intro f64_of_nat_finite) simp

lemma small_finite [simp]:
  "f64_is_finite (f64_of_nat 100)" "f64_is_finite (f64_of_nat 200)" "f64_is_finite (f64_of_nat 1024)"
  by (simp_all add: f64_of_nat_finite)

text \<open>A share of at most all of it: a finite value, at most one.\<close>

lemma share_at_most_one:
  assumes "used \<le> whole" and "0 < whole" and "whole < 2 ^ 64"
  shows "f64_is_finite (f64_div (f64_of_nat used) (f64_of_nat whole)) \<and>
    f64_units (f64_div (f64_of_nat used) (f64_of_nat whole)) \<le> UNIT"
proof -
  let ?r = "round_ratio (f64_units (f64_of_nat used) * UNIT) (f64_units (f64_of_nat whole))"
  have div: "f64_div (f64_of_nat used) (f64_of_nat whole) = of_nat ?r"
    using assms by (intro f64_div_finite f64_of_nat_finite f64_of_nat_pos) simp_all
  have unit: "MANTISSA * 2 ^ 1022 = UNIT" by (simp add: MANTISSA_def UNIT_def power_add [symmetric])
  have "f64_units (f64_of_nat used) * UNIT \<le> f64_units (f64_of_nat whole) * (MANTISSA * 2 ^ 1022)"
    unfolding unit by (intro mult_right_mono f64_of_nat_mono assms(1)) simp
  then have le: "?r \<le> 1022 * MANTISSA + MANTISSA" and "units_of ?r \<le> MANTISSA * 2 ^ 1022"
    by (intro round_ratio_le round_ratio_units_le f64_of_nat_pos assms(2); simp)+
  moreover have "f64_is_finite (of_nat ?r)"
    using le by (intro f64_finite_below) (simp add: INFINITY_BITS_def MANTISSA_def)
  ultimately show ?thesis unfolding div unit f64_units_def [of "of_nat _"] unat_of_round by simp
qed

lemma hundred_units: "(100 * 2 ^ 46) * 2 ^ 1028 = 100 * UNIT"
  by (simp add: UNIT_def)

text \<open>As a percentage, its pattern is no more than that of \<open>100.0\<close>.\<close>

lemma percent_pattern:
  assumes "used \<le> whole"
  shows "unat (percent used whole) \<le> 1028 * MANTISSA + 100 * 2 ^ 46"
proof (cases "whole = 0")
  case True
  have "round_ratio 0 1 = 0"
    by (simp add: round_ratio_def exponent_for_def round_half_even_def bit_length.simps)
  then show ?thesis using True by (simp add: percent_def f64_of_nat_def)
next
  case False
  let ?s = "f64_div (f64_of_nat (unat used)) (f64_of_nat (unat whole))"
  have "0 < unat whole" using False by (simp add: unat_gt_0)
  then have share: "f64_is_finite ?s" "f64_units ?s \<le> UNIT"
    using share_at_most_one [of "unat used" "unat whole"] assms unsigned_less [where 'a = nat, of whole]
    by (simp_all add: word_le_nat_alt)
  then have "f64_units ?s * (100 * UNIT) \<le> UNIT * ((100 * 2 ^ 46) * 2 ^ 1028)"
    unfolding hundred_units by (intro mult_right_mono) simp_all
  then have "round_ratio (f64_units ?s * (100 * UNIT)) UNIT \<le> 1028 * MANTISSA + 100 * 2 ^ 46"
    by (intro round_ratio_le) (simp_all add: MANTISSA_def)
  then show ?thesis using False share(1) unfolding percent_def by (simp add: f64_mul_finite f64_100)
qed

lemma percent_value:
  assumes "used \<le> whole"
  shows "f64_is_finite (percent used whole) \<and> unat (percent used whole) < 2 ^ 63 \<and>
    f64_units (percent used whole) \<le> 100 * UNIT"
proof -
  let ?p = "unat (percent used whole)"
  have p: "?p \<le> 1028 * MANTISSA + 100 * 2 ^ 46" by (rule percent_pattern [OF assms])
  then have small: "?p < 1030 * MANTISSA" by (simp add: MANTISSA_def)
  then have finite: "f64_is_finite (percent used whole)"
    by (intro f64_finite_below) (simp add: INFINITY_BITS_def MANTISSA_def)
  have "units_of ?p \<le> units_of (1028 * MANTISSA + 100 * 2 ^ 46)" by (rule units_of_mono [OF p])
  also have "\<dots> = 100 * UNIT" unfolding hundred_units [symmetric] by (rule units_of_normal) (simp_all add: MANTISSA_def)
  finally show ?thesis using finite small by (simp add: f64_units_def MANTISSA_def)
qed

text \<open>The number of bytes of a megabyte, a finite value.\<close>

lemma megabyte_units:
  "f64_is_finite (f64_mul (f64_of_nat 1024) (f64_of_nat 1024))"
  "f64_units (f64_mul (f64_of_nat 1024) (f64_of_nat 1024)) = 2 ^ 20 * UNIT"
proof -
  have k: "f64_units (f64_of_nat 1024) = 1024 * UNIT"
    by (rule f64_of_nat_exact [where s = 42 and m = "2 ^ 52"]) (simp_all add: MANTISSA_def)
  have unit: "2 ^ 52 * 2 ^ 1042 = 2 ^ 20 * UNIT" by (simp add: UNIT_def)
  have "f64_is_finite (of_nat (round_ratio (1024 * UNIT * (1024 * UNIT)) UNIT)) \<and>
      f64_units (of_nat (round_ratio (1024 * UNIT * (1024 * UNIT)) UNIT)) = 2 ^ 52 * 2 ^ 1042"
    by (rule f64_exact, simp, simp only: unit) (simp_all add: MANTISSA_def)
  then show "f64_is_finite (f64_mul (f64_of_nat 1024) (f64_of_nat 1024))"
    "f64_units (f64_mul (f64_of_nat 1024) (f64_of_nat 1024)) = 2 ^ 20 * UNIT"
    unfolding unit f64_mul_finite [OF small_finite(3) small_finite(3)] k by blast+
qed

lemma as_mb_rounds:
  "as_mb a = of_nat (round_ratio (f64_units (f64_of_nat (unat a)) * UNIT) (2 ^ 20 * UNIT))"
  unfolding as_mb_def using megabyte_units by (subst f64_div_finite) (simp_all only: u64_finite, simp_all)

lemma as_mb_mono:
  assumes "a \<le> b"
  shows "f64_units (as_mb a) \<le> f64_units (as_mb b)"
proof -
  have "f64_units (f64_of_nat (unat a)) * UNIT \<le> f64_units (f64_of_nat (unat b)) * UNIT"
    using assms by (intro mult_right_mono f64_of_nat_mono) (simp_all add: word_le_nat_alt)
  then have "round_ratio (f64_units (f64_of_nat (unat a)) * UNIT) (2 ^ 20 * UNIT)
      \<le> round_ratio (f64_units (f64_of_nat (unat b)) * UNIT) (2 ^ 20 * UNIT)"
    by (intro round_ratio_mono) simp_all
  then show ?thesis
    unfolding as_mb_rounds f64_units_def [of "of_nat _"] unat_of_round by (rule units_of_mono)
qed

lemma saturating_sub_le: "saturating_sub a b \<le> a"
  by (simp add: word_le_nat_alt)

subsection \<open>The reasons\<close>

text \<open>Different known reasons have different names, and no other has one.\<close>

lemma reset_reason_names:
  "reset_reason_name a = reset_reason_name b \<longleftrightarrow> a = b \<or> (16 \<le> a \<and> 16 \<le> b)"
proof -
  have len: "length reset_reasons = 16" and names: "distinct reset_reasons" "''unrecognised'' \<notin> set reset_reasons"
    by (simp_all add: reset_reasons_def)
  have known: "reset_reasons ! i \<noteq> ''unrecognised''" if "i < 16" for i
    using names(2) nth_mem [of i reset_reasons, unfolded len, OF that] by metis
  show ?thesis
    using names(1) len known [of "unat a"] known [of "unat b"] nth_eq_iff_index_eq [of reset_reasons "unat a" "unat b"]
    by (auto simp: reset_reason_name_def word_le_nat_alt word_unat_eq_iff not_less)
qed

subsection \<open>Two cores\<close>

text \<open>
  The run times are of one core each and the total of the clock: with both idle tasks counted, an
  idle device with two cores reports a use of the CPU below zero.
\<close>

definition idle_two_cores :: esp_readings where
  "idle_two_cores = \<lparr>er_heap_total = 0, er_heap_free = 0, er_heap_min_free = 0, er_heap_largest = 0,
     er_ap_info = (- 1, \<lparr>ap_ssid = [], ap_rssi = 0, ap_primary = 0\<rparr>), er_cpu_metrics = True,
     er_tasks = [\<lparr>ts_name = ''main'', ts_run_time = 5\<rparr>, \<lparr>ts_name = ''IDLE0'', ts_run_time = 100\<rparr>,
       \<lparr>ts_name = ''IDLE1'', ts_run_time = 100\<rparr>],
     er_written = 3, er_total_runtime = 100, er_reset_reason = 1\<rparr>"

lemma percent_two_wholes: "f64_is_finite (percent 200 100)" "f64_units (percent 200 100) = 200 * UNIT"
proof -
  have two: "MANTISSA * 2 ^ 1023 = 2 * UNIT" by (simp add: MANTISSA_def UNIT_def)
  have h: "(200 * 2 ^ 45) * 2 ^ 1029 = 200 * UNIT" by (simp add: UNIT_def)
  have n: "f64_units (f64_of_nat 200) = 200 * UNIT"
    by (rule f64_of_nat_exact [where s = 45 and m = "200 * 2 ^ 45"]) (simp_all add: MANTISSA_def)
  have "f64_is_finite (of_nat (round_ratio (200 * UNIT * UNIT) (100 * UNIT))) \<and>
      f64_units (of_nat (round_ratio (200 * UNIT * UNIT) (100 * UNIT))) = MANTISSA * 2 ^ 1023"
    by (rule f64_exact, simp, simp only: two) simp_all
  then have share: "f64_is_finite (f64_div (f64_of_nat 200) (f64_of_nat 100))"
    "f64_units (f64_div (f64_of_nat 200) (f64_of_nat 100)) = 2 * UNIT"
    by (simp_all add: f64_div_finite n f64_100 two del: power_numeral)
  have "f64_is_finite (of_nat (round_ratio (2 * UNIT * (100 * UNIT)) UNIT)) \<and>
      f64_units (of_nat (round_ratio (2 * UNIT * (100 * UNIT)) UNIT)) = (200 * 2 ^ 45) * 2 ^ 1029"
    by (rule f64_exact, simp, simp only: h) (simp_all add: MANTISSA_def)
  moreover have "percent 200 100 = f64_mul (f64_div (f64_of_nat 200) (f64_of_nat 100)) (f64_of_nat 100)"
    by (simp add: percent_def)
  ultimately show "f64_is_finite (percent 200 100)" "f64_units (percent 200 100) = 200 * UNIT"
    unfolding h by (simp_all only: f64_mul_finite share small_finite f64_100)
qed

lemma two_idle_cores_below_zero: "cpu_usage_percent idle_two_cores = Some (SIGN_BIT OR f64_of_nat 100)"
proof -
  have idle: "ucast (idle_run_time (er_tasks idle_two_cores)) = (200 :: u64)"
    by (simp add: idle_run_time_def is_idle_task_def idle_two_cores_def)
  have "f64_sub (f64_of_nat 100) (percent 200 100) = SIGN_BIT OR f64_of_nat 100"
    by (simp add: f64_sub_finite f64_100 percent_two_wholes) (simp add: f64_of_nat_def)
  then show ?thesis using idle by (simp add: cpu_usage_percent_def idle_two_cores_def)
qed

subsection \<open>Properties\<close>

text \<open>
  C35: what is reported of the memory is sane for any four figures, those of a free count above the
  total or a total of zero included: the percentage is a finite number from 0.0 to 100.0, and no
  more megabytes are in use than there are, after every rounding of the arithmetic.
\<close>

theorem memory_report_in_range:
  "\<exists>share used size. map_of (memory_metrics t f m l) ''mem_used_percent'' = Some share \<and>
     map_of (memory_metrics t f m l) ''mem_used_mb'' = Some used \<and>
     map_of (memory_metrics t f m l) ''mem_size_mb'' = Some size \<and>
     f64_is_finite share \<and> unat share < 2 ^ 63 \<and> f64_units share \<le> 100 * UNIT \<and>
     f64_units used \<le> f64_units size"
  using percent_value [OF saturating_sub_le [of t f]] as_mb_mono [OF saturating_sub_le [of t f]]
  by (simp add: memory_metrics_def Let_def)

end
