(* ===== verification/Ota.thy ===== *)
theory Ota
  imports Install World
begin

text \<open>
  \<open>src/ota.rs\<close>: the writer of the inactive slot. ESP-IDF's OTA and delta-OTA functions are a
  parameter: each call is recorded with its answer, a function of the calls before it. Partitions
  and handles are numbers, a null pointer is \<open>None\<close>, an \<open>esp_err_t\<close> an integer with
  \<open>ESP_OK\<close> zero. Feeding a patch makes the component call back for blocks of the running image
  and with blocks of the rebuilt one; its answer lists them.
\<close>

definition ESP_OK :: int where "ESP_OK = 0"
definition OTA_WITH_SEQUENTIAL_WRITES :: nat where "OTA_WITH_SEQUENTIAL_WRITES = 0xfffffffe"
definition ESP_IMAGE_MAGIC :: u8 where "ESP_IMAGE_MAGIC = 0xE9"

datatype payload_kind = Payload_Image | Payload_Patch

definition classify :: "u8 \<Rightarrow> payload_kind" where
  "classify first_byte = (if first_byte = ESP_IMAGE_MAGIC then Payload_Image else Payload_Patch)"

datatype image_state = Img_New | Img_PendingVerify | Img_Valid | Img_Invalid | Img_Aborted | Img_Undefined

datatype patch_callback = Patch_Read nat nat | Patch_Write bytes

datatype idf_call =
    Idf_NextUpdatePartition "nat option"
  | Idf_RunningPartition "nat option"
  | Idf_Begin nat nat "int + nat"
  | Idf_Write nat bytes int
  | Idf_End nat int
  | Idf_SetBoot nat int
  | Idf_Abort nat
  | Idf_DeltaInit nat nat "nat option"
  | Idf_DeltaFeed nat bytes "patch_callback list" int
  | Idf_PartitionRead nat nat nat int
  | Idf_DeltaFinalize nat "patch_callback list" int
  | Idf_DeltaDeinit nat
  | Idf_GetState nat "int + image_state"
  | Idf_MarkValid int
  | Idf_Restart

record idf =
  idf_next :: "idf_call list \<Rightarrow> nat option"
  idf_running :: "idf_call list \<Rightarrow> nat option"
  idf_begin :: "idf_call list \<Rightarrow> nat \<Rightarrow> int + nat"
  idf_write :: "idf_call list \<Rightarrow> nat \<Rightarrow> bytes \<Rightarrow> int"
  idf_end :: "idf_call list \<Rightarrow> nat \<Rightarrow> int"
  idf_set_boot :: "idf_call list \<Rightarrow> nat \<Rightarrow> int"
  idf_delta_init :: "idf_call list \<Rightarrow> nat option"
  idf_delta_feed :: "idf_call list \<Rightarrow> nat \<Rightarrow> bytes \<Rightarrow> patch_callback list \<times> int"
  idf_partition_read :: "idf_call list \<Rightarrow> nat \<Rightarrow> nat \<Rightarrow> nat \<Rightarrow> int"
  idf_delta_finalize :: "idf_call list \<Rightarrow> nat \<Rightarrow> patch_callback list \<times> int"
  idf_get_state :: "idf_call list \<Rightarrow> nat \<Rightarrow> int + image_state"
  idf_mark_valid :: "idf_call list \<Rightarrow> int"
  idf_err_name :: "int \<Rightarrow> string option"

datatype slot = Slot_Unopened | Slot_Open nat | Slot_Finished

definition slot_handle :: "slot \<Rightarrow> nat option" where
  "slot_handle sl = (case sl of Slot_Open h \<Rightarrow> Some h | _ \<Rightarrow> None)"

record patch_context =
  pctx_ota :: nat
  pctx_source :: nat
  pctx_written :: u64

datatype mode = Mode_Undecided | Mode_Image | Mode_Patch (mode_handle: nat) (mode_context: patch_context)

record ota_writer =
  ota_partition :: nat
  ota_slot :: slot
  ota_written :: u64
  ota_mode :: mode

record ota_world =
  ow_idf :: idf
  ow_calls :: "idf_call list"
  ow_logged :: "string list"
  ow_writer :: ota_writer

subsection \<open>Calling ESP-IDF\<close>

definition idf_ask ::
    "(idf \<Rightarrow> idf_call list \<Rightarrow> 'a) \<Rightarrow> ('a \<Rightarrow> idf_call) \<Rightarrow> ('s ota_world_scheme, 'a) prog" where
  "idf_ask f ev = (\<lambda>s. let a = f (ow_idf s) (ow_calls s)
     in Some (Inr a, s\<lparr>ow_calls := ow_calls s @ [ev a]\<rparr>))"

definition error_name :: "idf \<Rightarrow> int \<Rightarrow> string" where
  "error_name idf err = (case idf_err_name idf err of
      Some name \<Rightarrow> name @ '' ('' @ dec_int err @ '')''
    | None \<Rightarrow> dec_int err)"

definition check :: "int \<Rightarrow> string \<Rightarrow> ('s ota_world_scheme, unit) prog" where
  "check err what = (\<lambda>s. if err = ESP_OK then Some (Inr (), s)
     else Some (Inl (Error_Ota (what @ '' failed: '' @ error_name (ow_idf s) err)), s))"

definition writer_get :: "(ota_writer \<Rightarrow> 'a) \<Rightarrow> ('s ota_world_scheme, 'a) prog" where
  "writer_get f = gets (\<lambda>s. f (ow_writer s))"

definition writer_set :: "(ota_writer \<Rightarrow> ota_writer) \<Rightarrow> ('s ota_world_scheme, unit) prog" where
  "writer_set g = modify (\<lambda>s. s\<lparr>ow_writer := g (ow_writer s)\<rparr>)"

definition ota_log :: "string \<Rightarrow> ('s ota_world_scheme, unit) prog" where
  "ota_log text = modify (\<lambda>s. s\<lparr>ow_logged := ow_logged s @ [text]\<rparr>)"

subsection \<open>The patch callbacks\<close>

definition patch_read :: "patch_context \<Rightarrow> nat \<Rightarrow> nat \<Rightarrow> ('s ota_world_scheme, int) prog" where
  "patch_read ctx len offset =
     idf_ask (\<lambda>I h. idf_partition_read I h (pctx_source ctx) offset len)
       (Idf_PartitionRead (pctx_source ctx) offset len)"

definition patch_write :: "patch_context \<Rightarrow> bytes \<Rightarrow> ('s ota_world_scheme, int \<times> patch_context) prog" where
  "patch_write ctx block =
     andthen (idf_ask (\<lambda>I h. idf_write I h (pctx_ota ctx) block) (Idf_Write (pctx_ota ctx) block)) (\<lambda>err.
     ok (err, if err = ESP_OK
              then ctx\<lparr>pctx_written := pctx_written ctx + of_nat (length block)\<rparr> else ctx))"

text \<open>The callbacks one call into the component makes, in order, on the writer's boxed context.\<close>

primrec patch_callbacks :: "patch_callback list \<Rightarrow> patch_context \<Rightarrow> ('s ota_world_scheme, patch_context) prog" where
  "patch_callbacks [] ctx = ok ctx"
| "patch_callbacks (cb # cbs) ctx = (case cb of
      Patch_Read len offset \<Rightarrow> andthen (patch_read ctx len offset) (\<lambda>_. patch_callbacks cbs ctx)
    | Patch_Write block \<Rightarrow> andthen (patch_write ctx block) (\<lambda>(_, ctx'). patch_callbacks cbs ctx'))"

definition run_callbacks :: "patch_callback list \<Rightarrow> ('s ota_world_scheme, unit) prog" where
  "run_callbacks cbs = andthen (writer_get ota_mode) (\<lambda>m. case m of
      Mode_Patch h ctx \<Rightarrow> andthen (patch_callbacks cbs ctx) (\<lambda>ctx'.
        writer_set (\<lambda>w. w\<lparr>ota_mode := Mode_Patch h ctx'\<rparr>))
    | _ \<Rightarrow> ok ())"

subsection \<open>The writer\<close>

definition no_slot :: string where
  "no_slot = ''no inactive OTA partition '' @ [CHR 0xE2, CHR 0x80, CHR 0x94] @
     '' the partition table needs ota_0, ota_1 and otadata''"

definition writer_new :: "nat \<Rightarrow> ota_writer" where
  "writer_new part = \<lparr>ota_partition = part, ota_slot = Slot_Unopened, ota_written = 0,
     ota_mode = Mode_Undecided\<rparr>"

definition ota_begin :: "('s ota_world_scheme, ota_writer) prog" where
  "ota_begin = andthen (idf_ask idf_next Idf_NextUpdatePartition) (\<lambda>p. case p of
      None \<Rightarrow> fail (Error_Ota no_slot)
    | Some part \<Rightarrow> ok (writer_new part))"

definition ota_open :: "('s ota_world_scheme, unit) prog" where
  "ota_open =
     andthen (writer_get ota_partition) (\<lambda>part.
     andthen (idf_ask (\<lambda>I h. idf_begin I h part) (Idf_Begin part OTA_WITH_SEQUENTIAL_WRITES)) (\<lambda>r. case r of
         Inl err \<Rightarrow> check err ''esp_ota_begin''
       | Inr h \<Rightarrow> writer_set (\<lambda>w. w\<lparr>ota_slot := Slot_Open h\<rparr>)))"

definition written :: "ota_writer \<Rightarrow> u64" where
  "written w = (case ota_mode w of Mode_Patch _ ctx \<Rightarrow> pctx_written ctx | _ \<Rightarrow> ota_written w)"

definition begin_patch :: "('s ota_world_scheme, unit) prog" where
  "begin_patch =
     andthen (writer_get (\<lambda>w. slot_handle (ota_slot w))) (\<lambda>h. case h of
       None \<Rightarrow> fail (Error_Ota ''patch started after the update was finished'')
     | Some ota \<Rightarrow>
         andthen (idf_ask idf_running Idf_RunningPartition) (\<lambda>p. case p of
           None \<Rightarrow> fail (Error_Ota ''no running partition to patch against'')
         | Some source \<Rightarrow>
             andthen (idf_ask idf_delta_init (Idf_DeltaInit ota source)) (\<lambda>d. case d of
               None \<Rightarrow> fail (Error_Ota ''esp_delta_ota_init failed'')
             | Some handle \<Rightarrow> writer_set (\<lambda>w. w\<lparr>ota_mode := Mode_Patch handle
                 \<lparr>pctx_ota = ota, pctx_source = source, pctx_written = 0\<rparr>\<rparr>))))"

definition decide_mode :: "bytes \<Rightarrow> ('s ota_world_scheme, unit) prog" where
  "decide_mode chunk = (case classify (hd chunk) of
      Payload_Image \<Rightarrow>
        andthen (writer_set (\<lambda>w. w\<lparr>ota_mode := Mode_Image\<rparr>)) (\<lambda>_.
        ota_log ''update is a full image'')
    | Payload_Patch \<Rightarrow>
        andthen begin_patch (\<lambda>_.
        ota_log ''update is a patch; applying against the running image''))"

definition write_chunk :: "bytes \<Rightarrow> ('s ota_world_scheme, unit) prog" where
  "write_chunk chunk =
     andthen (writer_get (\<lambda>w. (ota_mode w, slot_handle (ota_slot w)))) (\<lambda>(m, slot). case m of
       Mode_Patch handle _ \<Rightarrow>
         andthen (idf_ask (\<lambda>I h. idf_delta_feed I h handle chunk) (\<lambda>(cbs, err). Idf_DeltaFeed handle chunk cbs err))
           (\<lambda>(cbs, err).
         andthen (run_callbacks cbs) (\<lambda>_. check err ''esp_delta_ota_feed_patch''))
     | _ \<Rightarrow> (case slot of
         None \<Rightarrow> fail (Error_Ota ''write after the update was finished'')
       | Some handle \<Rightarrow>
           andthen (idf_ask (\<lambda>I h. idf_write I h handle chunk) (Idf_Write handle chunk)) (\<lambda>err.
           check err ''esp_ota_write'')))"

definition ota_write :: "bytes \<Rightarrow> ('s ota_world_scheme, unit) prog" where
  "ota_write chunk =
     (if chunk = [] then ok ()
      else andthen (writer_get ota_slot) (\<lambda>slot.
        andthen (only_if (slot = Slot_Unopened) ota_open) (\<lambda>_.
        andthen (writer_get ota_mode) (\<lambda>m.
        andthen (only_if (m = Mode_Undecided) (decide_mode chunk)) (\<lambda>_.
        andthen (write_chunk chunk) (\<lambda>_.
        writer_set (\<lambda>w. w\<lparr>ota_written := ota_written w + of_nat (length chunk)\<rparr>)))))))"

text \<open>The patch's end: finalized, released either way, and only then the result.\<close>

definition finalize_patch :: "('s ota_world_scheme, unit) prog" where
  "finalize_patch = andthen (writer_get ota_mode) (\<lambda>m. case m of
      Mode_Patch handle _ \<Rightarrow>
        andthen (idf_ask (\<lambda>I h. idf_delta_finalize I h handle) (\<lambda>(cbs, err). Idf_DeltaFinalize handle cbs err))
          (\<lambda>(cbs, err).
        andthen (run_callbacks cbs) (\<lambda>_.
        andthen (attempt (check err ''esp_delta_ota_finalize'')) (\<lambda>finalized.
        andthen (idf_ask (\<lambda>_ _. ()) (\<lambda>_. Idf_DeltaDeinit handle)) (\<lambda>_.
        andthen (writer_set (\<lambda>w. w\<lparr>ota_mode := Mode_Image\<rparr>)) (\<lambda>_.
        result finalized)))))
    | _ \<Rightarrow> ok ())"

definition ota_commit :: "('s ota_world_scheme, unit) prog" where
  "ota_commit =
     andthen finalize_patch (\<lambda>_.
     andthen (writer_get (\<lambda>w. (ota_slot w, ota_partition w))) (\<lambda>(slot, part).
     andthen (writer_set (\<lambda>w. w\<lparr>ota_slot := Slot_Finished\<rparr>)) (\<lambda>_. case slot of
         Slot_Unopened \<Rightarrow> fail (Error_Ota ''commit with nothing written'')
       | Slot_Finished \<Rightarrow> fail (Error_Ota ''commit after the update was finished'')
       | Slot_Open handle \<Rightarrow>
           andthen (idf_ask (\<lambda>I h. idf_end I h handle) (Idf_End handle)) (\<lambda>err.
           andthen (check err ''esp_ota_end'') (\<lambda>_.
           andthen (idf_ask (\<lambda>I h. idf_set_boot I h part) (Idf_SetBoot part)) (\<lambda>err.
           check err ''esp_ota_set_boot_partition''))))))"

definition ota_abort :: "('s ota_world_scheme, unit) prog" where
  "ota_abort =
     andthen (writer_get ota_mode) (\<lambda>m.
     andthen (case m of
         Mode_Patch handle _ \<Rightarrow>
           andthen (idf_ask (\<lambda>_ _. ()) (\<lambda>_. Idf_DeltaDeinit handle)) (\<lambda>_.
           writer_set (\<lambda>w. w\<lparr>ota_mode := Mode_Image\<rparr>))
       | _ \<Rightarrow> ok ()) (\<lambda>_.
     andthen (writer_get ota_slot) (\<lambda>slot.
     andthen (writer_set (\<lambda>w. w\<lparr>ota_slot := Slot_Finished\<rparr>)) (\<lambda>_. case slot of
         Slot_Open handle \<Rightarrow> idf_ask (\<lambda>_ _. ()) (\<lambda>_. Idf_Abort handle)
       | _ \<Rightarrow> ok ()))))"

definition ota_sink :: "'s ota_world_scheme image_sink" where
  "ota_sink = \<lparr>sk_write = ota_write, sk_commit = ota_commit, sk_abort = ota_abort\<rparr>"

subsection \<open>What the bootloader remembers\<close>

definition ota_get_state :: "nat \<Rightarrow> ('s ota_world_scheme, int + image_state) prog" where
  "ota_get_state part = idf_ask (\<lambda>I h. idf_get_state I h part) (Idf_GetState part)"

definition ota_pending_verify :: "('s ota_world_scheme, pending_verify) prog" where
  "ota_pending_verify = andthen (idf_ask idf_running Idf_RunningPartition) (\<lambda>p. case p of
      None \<Rightarrow> ok PendingVerify_No
    | Some part \<Rightarrow> andthen (ota_get_state part) (\<lambda>r. case r of
        Inl _ \<Rightarrow> ok PendingVerify_No
      | Inr state \<Rightarrow> ok (if state = Img_PendingVerify then PendingVerify_Yes else PendingVerify_No)))"

definition ota_auto_revert_detected :: "('s ota_world_scheme, bool) prog" where
  "ota_auto_revert_detected = andthen (idf_ask idf_next Idf_NextUpdatePartition) (\<lambda>p. case p of
      None \<Rightarrow> ok False
    | Some part \<Rightarrow> andthen (ota_get_state part) (\<lambda>r. case r of
        Inl _ \<Rightarrow> ok False
      | Inr state \<Rightarrow> ok (state = Img_Aborted \<or> state = Img_Invalid)))"

definition ota_mark_valid :: "('s ota_world_scheme, unit) prog" where
  "ota_mark_valid = andthen (idf_ask idf_mark_valid Idf_MarkValid) (\<lambda>err.
     if err \<noteq> ESP_OK then fail (Error_Ota ''could not mark app valid'') else ok ())"

definition ota_restart :: "('s ota_world_scheme, unit) prog" where
  "ota_restart = idf_ask (\<lambda>_ _. ()) (\<lambda>_. Idf_Restart)"

subsection \<open>ESP-IDF's own rules\<close>

text \<open>
  The rules the calls of one update have to obey, as ESP-IDF documents them: one \<open>esp_ota_begin\<close>
  that succeeds, writes only through the handle it gave and before it is ended or aborted, which
  happens at most once; the boot partition set only after an \<open>esp_ota_end\<close> that succeeded; a
  patch handle made and released inside that, used only in between.
\<close>

datatype handle_state = Not_begun | Begun nat nat | Validated nat | Closed

fun protocol_step :: "handle_state \<times> nat option \<Rightarrow> idf_call \<Rightarrow> (handle_state \<times> nat option) option" where
  "protocol_step (st, d) (Idf_Begin part sz r) =
     (if st \<noteq> Not_begun then None
      else (case r of Inr h \<Rightarrow> Some (Begun part h, d) | Inl _ \<Rightarrow> Some (st, d)))"
| "protocol_step (st, d) (Idf_Write h c r) =
     (case st of Begun _ h' \<Rightarrow> if h = h' then Some (st, d) else None | _ \<Rightarrow> None)"
| "protocol_step (st, d) (Idf_End h r) =
     (case st of Begun part h' \<Rightarrow>
        if h = h' \<and> d = None then Some (if r = ESP_OK then Validated part else Closed, d) else None
      | _ \<Rightarrow> None)"
| "protocol_step (st, d) (Idf_SetBoot part r) = (if st = Validated part then Some (Closed, d) else None)"
| "protocol_step (st, d) (Idf_Abort h) =
     (case st of Begun _ h' \<Rightarrow> if h = h' \<and> d = None then Some (Closed, d) else None | _ \<Rightarrow> None)"
| "protocol_step (st, d) (Idf_DeltaInit h src r) =
     (case st of Begun _ h' \<Rightarrow> if h = h' \<and> d = None then Some (st, r) else None | _ \<Rightarrow> None)"
| "protocol_step (st, d) (Idf_DeltaFeed p c cbs r) = (if d = Some p then Some (st, d) else None)"
| "protocol_step (st, d) (Idf_DeltaFinalize p cbs r) = (if d = Some p then Some (st, d) else None)"
| "protocol_step (st, d) (Idf_DeltaDeinit p) = (if d = Some p then Some (st, None) else None)"
| "protocol_step (st, d) c = Some (st, d)"

primrec protocol :: "handle_state \<times> nat option \<Rightarrow> idf_call list \<Rightarrow> (handle_state \<times> nat option) option" where
  "protocol q [] = Some q"
| "protocol q (c # cs) = (case protocol_step q c of None \<Rightarrow> None | Some q' \<Rightarrow> protocol q' cs)"

lemma protocol_append [simp]:
  "protocol q (xs @ ys) = (case protocol q xs of None \<Rightarrow> None | Some q' \<Rightarrow> protocol q' ys)"
  by (induction xs arbitrary: q) (auto split: option.split)

text \<open>What the writer's own fields say of the calls so far.\<close>

fun slot_matches :: "nat \<Rightarrow> slot \<Rightarrow> handle_state \<Rightarrow> bool" where
  "slot_matches part Slot_Unopened st \<longleftrightarrow> st = Not_begun"
| "slot_matches part (Slot_Open h) st \<longleftrightarrow> st = Begun part h"
| "slot_matches part Slot_Finished st \<longleftrightarrow> (\<forall>p h. st \<noteq> Begun p h)"

fun mode_matches :: "slot \<Rightarrow> mode \<Rightarrow> nat option \<Rightarrow> bool" where
  "mode_matches sl (Mode_Patch p ctx) d \<longleftrightarrow> d = Some p \<and> sl = Slot_Open (pctx_ota ctx)"
| "mode_matches sl _ d \<longleftrightarrow> d = None"

definition tracks :: "idf_call list \<Rightarrow> 's ota_world_scheme \<Rightarrow> bool" where
  "tracks base s \<longleftrightarrow> (\<exists>calls st d. ow_calls s = base @ calls \<and> protocol (Not_begun, None) calls = Some (st, d) \<and>
     slot_matches (ota_partition (ow_writer s)) (ota_slot (ow_writer s)) st \<and>
     mode_matches (ota_slot (ow_writer s)) (ota_mode (ow_writer s)) d)"

datatype ota_op = Op_Write bytes | Op_Commit | Op_Abort

primrec ota_do :: "ota_op \<Rightarrow> ('s ota_world_scheme, unit) prog" where
  "ota_do (Op_Write c) = ota_write c"
| "ota_do Op_Commit = ota_commit"
| "ota_do Op_Abort = ota_abort"

definition ota_step :: "ota_op \<Rightarrow> 's ota_world_scheme \<Rightarrow> 's ota_world_scheme" where
  "ota_step op s = (case ota_do op s of None \<Rightarrow> s | Some (_, t) \<Rightarrow> t)"

subsection \<open>Every operation keeps them\<close>

lemma idf_ask_run: "idf_ask f ev s = Some (Inr (f (ow_idf s) (ow_calls s)),
    s\<lparr>ow_calls := ow_calls s @ [ev (f (ow_idf s) (ow_calls s))]\<rparr>)"
  by (simp add: idf_ask_def Let_def)

lemmas ota_runs = andthen_run idf_ask_run check_def writer_get_def writer_set_def ota_log_def prog_simps
  attempt_def

lemma tracksI:
  assumes "ow_calls t = base @ calls" "protocol (Not_begun, None) calls = Some (st, d)"
    "slot_matches (ota_partition (ow_writer t)) (ota_slot (ow_writer t)) st"
    "mode_matches (ota_slot (ow_writer t)) (ota_mode (ow_writer t)) d"
  shows "tracks base t"
  using assms by (auto simp: tracks_def)

text \<open>The callbacks only read the source and write through the context's handle.\<close>

fun through :: "nat \<Rightarrow> idf_call \<Rightarrow> bool" where
  "through h (Idf_PartitionRead src offset len r) = True"
| "through h (Idf_Write k c r) \<longleftrightarrow> k = h"
| "through h c = False"

lemma protocol_through: "list_all (through h) cs \<Longrightarrow> protocol (Begun part h, d) cs = Some (Begun part h, d)"
proof (induction cs)
  case (Cons c cs)
  then show ?case by (cases c) auto
qed simp

lemma patch_callbacks_run:
  "\<exists>ctx' t cs. patch_callbacks cbs ctx s = Some (Inr ctx', t) \<and> pctx_ota ctx' = pctx_ota ctx \<and>
     ow_calls t = ow_calls s @ cs \<and> list_all (through (pctx_ota ctx)) cs \<and>
     ow_writer t = ow_writer s \<and> ow_idf t = ow_idf s"
proof (induction cbs arbitrary: ctx s)
  case Nil
  show ?case by (simp add: prog_simps)
next
  case (Cons cb cbs)
  show ?case
  proof (cases cb)
    case (Patch_Read len offset)
    let ?c = "Idf_PartitionRead (pctx_source ctx) offset len
      (idf_partition_read (ow_idf s) (ow_calls s) (pctx_source ctx) offset len)"
    from Cons.IH [of ctx "s\<lparr>ow_calls := ow_calls s @ [?c]\<rparr>"] obtain ctx' t cs where
      "patch_callbacks cbs ctx (s\<lparr>ow_calls := ow_calls s @ [?c]\<rparr>) = Some (Inr ctx', t)"
      "pctx_ota ctx' = pctx_ota ctx" "ow_calls t = ow_calls s @ ?c # cs" "list_all (through (pctx_ota ctx)) cs"
      "ow_writer t = ow_writer s" "ow_idf t = ow_idf s" by auto
    then show ?thesis
      using Patch_Read by (intro exI [of _ ctx'] exI [of _ t] exI [of _ "?c # cs"])
        (simp add: ota_runs patch_read_def)
  next
    case (Patch_Write block)
    let ?err = "idf_write (ow_idf s) (ow_calls s) (pctx_ota ctx) block"
    let ?c = "Idf_Write (pctx_ota ctx) block ?err"
    let ?ctx = "if ?err = ESP_OK then ctx\<lparr>pctx_written := pctx_written ctx + of_nat (length block)\<rparr> else ctx"
    have same: "pctx_ota ?ctx = pctx_ota ctx" by simp
    from Cons.IH [of ?ctx "s\<lparr>ow_calls := ow_calls s @ [?c]\<rparr>"] obtain ctx' t cs where
      "patch_callbacks cbs ?ctx (s\<lparr>ow_calls := ow_calls s @ [?c]\<rparr>) = Some (Inr ctx', t)"
      "pctx_ota ctx' = pctx_ota ctx" "ow_calls t = ow_calls s @ ?c # cs" "list_all (through (pctx_ota ctx)) cs"
      "ow_writer t = ow_writer s" "ow_idf t = ow_idf s" unfolding same by auto
    then show ?thesis
      using Patch_Write by (intro exI [of _ ctx'] exI [of _ t] exI [of _ "?c # cs"])
        (simp add: ota_runs patch_write_def)
  qed
qed

lemma run_callbacks_tracks:
  assumes "tracks base s"
  shows "\<exists>t. run_callbacks cbs s = Some (Inr (), t) \<and> tracks base t \<and> ow_idf t = ow_idf s \<and>
    ota_slot (ow_writer t) = ota_slot (ow_writer s) \<and>
    mode_matches (ota_slot (ow_writer s)) (ota_mode (ow_writer t)) =
      mode_matches (ota_slot (ow_writer s)) (ota_mode (ow_writer s))"
proof (cases "ota_mode (ow_writer s)")
  case (Mode_Patch p ctx)
  from assms obtain calls st d where calls: "ow_calls s = base @ calls"
    "protocol (Not_begun, None) calls = Some (st, d)"
    "slot_matches (ota_partition (ow_writer s)) (ota_slot (ow_writer s)) st"
    "mode_matches (ota_slot (ow_writer s)) (ota_mode (ow_writer s)) d" by (auto simp: tracks_def)
  then have sl: "ota_slot (ow_writer s) = Slot_Open (pctx_ota ctx)" "d = Some p" using Mode_Patch by auto
  then have st: "st = Begun (ota_partition (ow_writer s)) (pctx_ota ctx)" using calls(3) by simp
  from patch_callbacks_run [of cbs ctx s] obtain ctx' t cs where
    run: "patch_callbacks cbs ctx s = Some (Inr ctx', t)" "pctx_ota ctx' = pctx_ota ctx"
      "ow_calls t = ow_calls s @ cs" "list_all (through (pctx_ota ctx)) cs"
      "ow_writer t = ow_writer s" "ow_idf t = ow_idf s" by blast
  let ?t = "t\<lparr>ow_writer := (ow_writer s)\<lparr>ota_mode := Mode_Patch p ctx'\<rparr>\<rparr>"
  have "run_callbacks cbs s = Some (Inr (), ?t)"
    using run Mode_Patch by (simp add: run_callbacks_def ota_runs)
  moreover have "tracks base ?t"
  proof (rule tracksI)
    show "ow_calls ?t = base @ calls @ cs" using run calls by simp
    show "protocol (Not_begun, None) (calls @ cs) = Some (st, d)"
      using calls(2) protocol_through [OF run(4)] st by simp
    show "slot_matches (ota_partition (ow_writer ?t)) (ota_slot (ow_writer ?t)) st" using calls(3) by simp
    show "mode_matches (ota_slot (ow_writer ?t)) (ota_mode (ow_writer ?t)) d" using sl run(2) by simp
  qed
  ultimately show ?thesis using run Mode_Patch by (intro exI [of _ ?t]) (auto simp: fun_eq_iff)
qed (use assms in \<open>simp_all add: run_callbacks_def ota_runs\<close>)

text \<open>One step of the protocol that leaves the writer in step with it.\<close>

lemma tracks_call:
  assumes "ow_calls s = base @ calls" "protocol (Not_begun, None) calls = Some (st, d)"
    and "protocol_step (st, d) c = Some (st', d')"
    and "ow_calls t = ow_calls s @ [c]"
    and "slot_matches (ota_partition (ow_writer t)) (ota_slot (ow_writer t)) st'"
    and "mode_matches (ota_slot (ow_writer t)) (ota_mode (ow_writer t)) d'"
  shows "tracks base t"
  by (rule tracksI [where calls = "calls @ [c]" and st = st' and d = d']) (use assms in simp_all)

lemma tracksE:
  assumes "tracks base s"
  obtains calls st d where "ow_calls s = base @ calls" "protocol (Not_begun, None) calls = Some (st, d)"
    "slot_matches (ota_partition (ow_writer s)) (ota_slot (ow_writer s)) st"
    "mode_matches (ota_slot (ow_writer s)) (ota_mode (ow_writer s)) d"
  using assms by (auto simp: tracks_def)

definition kept :: "idf_call list \<Rightarrow> 's ota_world_scheme \<Rightarrow> 's ota_world_scheme \<Rightarrow> bool" where
  "kept base s t \<longleftrightarrow> (tracks base s \<longrightarrow> tracks base t)"

interpretation kept: run_relation "kept base"
  by unfold_locales (auto simp: kept_def)

lemma keptI: "(\<And>s r t. m s = Some (r, t) \<Longrightarrow> tracks base s \<Longrightarrow> tracks base t) \<Longrightarrow> stays (kept base) m"
  by (auto simp: stays_def kept_def)

lemma kept_ota_log: "stays (kept base) (ota_log text)"
  by (auto simp: stays_def kept_def ota_log_def prog_simps tracks_def)

lemma kept_check: "stays (kept base) (check err what)"
  by (auto simp: stays_def kept_def check_def split: if_splits)

lemma kept_writer_get: "stays (kept base) (writer_get f)"
  unfolding writer_get_def by (rule kept.stays_gets)

lemma kept_run_callbacks: "stays (kept base) (run_callbacks cbs)"
proof (rule keptI)
  fix s :: "'a ota_world_scheme" and r t
  assume "run_callbacks cbs s = Some (r, t)" "tracks base s"
  then show "tracks base t" using run_callbacks_tracks [of base s cbs] by auto
qed

lemma open_tracks:
  assumes "tracks base s" "ota_slot (ow_writer s) = Slot_Unopened" "ota_open s = Some (r, t)"
  shows "tracks base t \<and> ota_mode (ow_writer t) = ota_mode (ow_writer s)"
proof -
  let ?r = "idf_begin (ow_idf s) (ow_calls s) (ota_partition (ow_writer s))"
  let ?c = "Idf_Begin (ota_partition (ow_writer s)) OTA_WITH_SEQUENTIAL_WRITES ?r"
  from assms(1) obtain calls st d where *: "ow_calls s = base @ calls"
    "protocol (Not_begun, None) calls = Some (st, d)" "st = Not_begun"
    "mode_matches (ota_slot (ow_writer s)) (ota_mode (ow_writer s)) d"
    by (rule tracksE) (use assms(2) in simp)
  have d: "d = None" "mode_matches sl (ota_mode (ow_writer s)) None" for sl
    using *(4) assms(2) by (cases "ota_mode (ow_writer s)"; simp)+
  show ?thesis
  proof (cases ?r)
    case (Inl e)
    then have "t = s\<lparr>ow_calls := ow_calls s @ [?c]\<rparr>"
      using assms(3) by (auto simp: ota_open_def ota_runs split: if_splits)
    then show ?thesis
      using tracks_call [OF *(1,2), of ?c Not_begun None t] * d Inl assms(2) by auto
  next
    case (Inr h)
    then have "t = s\<lparr>ow_calls := ow_calls s @ [?c], ow_writer := (ow_writer s)\<lparr>ota_slot := Slot_Open h\<rparr>\<rparr>"
      using assms(3) by (auto simp: ota_open_def ota_runs split: if_splits)
    then show ?thesis
      using tracks_call [OF *(1,2), of ?c "Begun (ota_partition (ow_writer s)) h" None t] * d Inr by auto
  qed
qed

text \<open>A call the protocol has no rule for.\<close>

lemma tracks_ask:
  assumes "tracks base s" and "\<And>q. protocol_step q c = Some q"
  shows "tracks base (s\<lparr>ow_calls := ow_calls s @ [c]\<rparr>)"
  using assms(1)
proof (rule tracksE)
  fix calls st d
  assume "ow_calls s = base @ calls" "protocol (Not_begun, None) calls = Some (st, d)"
    "slot_matches (ota_partition (ow_writer s)) (ota_slot (ow_writer s)) st"
    "mode_matches (ota_slot (ow_writer s)) (ota_mode (ow_writer s)) d"
  then show ?thesis by (intro tracks_call [of s base calls st d c st d]) (use assms(2) in simp_all)
qed

lemma begin_patch_tracks:
  assumes "tracks base s" "ota_mode (ow_writer s) = Mode_Undecided" "begin_patch s = Some (r, t)"
  shows "tracks base t"
proof (cases "ota_slot (ow_writer s)")
  case (Slot_Open h)
  let ?p = "idf_running (ow_idf s) (ow_calls s)"
  let ?s = "s\<lparr>ow_calls := ow_calls s @ [Idf_RunningPartition ?p]\<rparr>"
  have s: "tracks base ?s" by (rule tracks_ask [OF assms(1)]) auto
  show ?thesis
  proof (cases ?p)
    case None
    then have "t = ?s" using assms(3) Slot_Open by (auto simp: begin_patch_def slot_handle_def ota_runs)
    then show ?thesis using s by simp
  next
    case (Some source)
    let ?d = "idf_delta_init (ow_idf s) (ow_calls ?s)"
    let ?c = "Idf_DeltaInit h source ?d"
    from s obtain calls st d where *: "ow_calls ?s = base @ calls"
      "protocol (Not_begun, None) calls = Some (st, d)" "st = Begun (ota_partition (ow_writer s)) h" "d = None"
      by (rule tracksE) (use Slot_Open assms(2) in simp)
    have "t = (case ?d of None \<Rightarrow> ?s\<lparr>ow_calls := ow_calls ?s @ [?c]\<rparr>
        | Some p \<Rightarrow> ?s\<lparr>ow_calls := ow_calls ?s @ [?c], ow_writer := (ow_writer s)\<lparr>ota_mode := Mode_Patch p
            \<lparr>pctx_ota = h, pctx_source = source, pctx_written = 0\<rparr>\<rparr>\<rparr>)"
      using assms(3) Slot_Open Some
      by (auto simp: begin_patch_def slot_handle_def ota_runs split: option.splits)
    then show ?thesis
      using * Slot_Open assms(2)
      by (intro tracks_call [OF *(1,2), of ?c st ?d]) (auto split: option.splits)
  qed
qed (use assms in \<open>auto simp: begin_patch_def slot_handle_def ota_runs\<close>)

lemma decide_mode_tracks:
  assumes "tracks base s" "ota_mode (ow_writer s) = Mode_Undecided" "decide_mode c s = Some (r, t)"
  shows "tracks base t"
proof (cases "classify (hd c)")
  case Payload_Image
  then have "ow_calls t = ow_calls s \<and> ow_writer t = (ow_writer s)\<lparr>ota_mode := Mode_Image\<rparr>"
    using assms(3) by (auto simp: decide_mode_def ota_runs)
  then show ?thesis using assms(1,2) by (auto simp: tracks_def)
next
  case Payload_Patch
  then consider (cut) e where "begin_patch s = Some (Inl e, t)"
    | (begun) u where "begin_patch s = Some (Inr (), u)" "ow_calls t = ow_calls u" "ow_writer t = ow_writer u"
    using assms(3) by (auto simp: decide_mode_def andthen_Some ota_log_def prog_simps)
  then show ?thesis
    using begin_patch_tracks [OF assms(1,2)] by cases (auto simp: tracks_def)
qed

lemma kept_write_chunk: "stays (kept base) (write_chunk c)"
proof (rule keptI)
  fix s :: "'a ota_world_scheme" and r t
  assume run: "write_chunk c s = Some (r, t)" and s: "tracks base s"
  from s obtain calls st d where *: "ow_calls s = base @ calls"
      "protocol (Not_begun, None) calls = Some (st, d)"
      "slot_matches (ota_partition (ow_writer s)) (ota_slot (ow_writer s)) st"
      "mode_matches (ota_slot (ow_writer s)) (ota_mode (ow_writer s)) d" by (rule tracksE)
  show "tracks base t"
  proof (cases "\<exists>p ctx. ota_mode (ow_writer s) = Mode_Patch p ctx")
    case True
    then obtain p ctx where m: "ota_mode (ow_writer s) = Mode_Patch p ctx" by blast
    obtain cbs err where fed: "idf_delta_feed (ow_idf s) (ow_calls s) p c = (cbs, err)" by fastforce
    let ?s = "s\<lparr>ow_calls := ow_calls s @ [Idf_DeltaFeed p c cbs err]\<rparr>"
    have "tracks base ?s"
      by (rule tracks_call [OF *(1,2), of _ st d]) (use * m in auto)
    moreover have "andthen (run_callbacks cbs) (\<lambda>_. check err ''esp_delta_ota_feed_patch'') ?s = Some (r, t)"
      using run m by (simp add: write_chunk_def writer_get_def andthen_gets andthen_run [of "idf_ask _ _"]
          idf_ask_run fed)
    moreover have "stays (kept base) (andthen (run_callbacks cbs) (\<lambda>_. check err ''esp_delta_ota_feed_patch''))"
      by (intro kept.stays_rules kept_run_callbacks kept_check)
    ultimately show ?thesis by (auto simp: stays_def kept_def)
  next
    case False
    show ?thesis
    proof (cases "ota_slot (ow_writer s)")
      case (Slot_Open h)
      then have "t = s\<lparr>ow_calls := ow_calls s @ [Idf_Write h c (idf_write (ow_idf s) (ow_calls s) h c)]\<rparr>"
        using run False
        by (auto simp: write_chunk_def ota_runs slot_handle_def split: mode.splits if_splits)
      then show ?thesis
        using * Slot_Open by (intro tracks_call [OF *(1,2), of _ st d]) auto
    qed (use run False s in \<open>auto simp: write_chunk_def ota_runs slot_handle_def split: mode.splits\<close>)
  qed
qed

lemma kept_ota_write: "stays (kept base) (ota_write c)"
proof (rule keptI)
  fix s :: "'a ota_world_scheme" and r t
  assume run: "ota_write c s = Some (r, t)" and s: "tracks base s"
  let ?rest = "\<lambda>_. andthen (write_chunk c) (\<lambda>_.
    writer_set (\<lambda>w. w\<lparr>ota_written := ota_written w + of_nat (length c)\<rparr>))"
  let ?mode = "andthen (writer_get ota_mode) (\<lambda>m. andthen (only_if (m = Mode_Undecided) (decide_mode c)) ?rest)"
  have "stays (kept base) (?rest ())"
    by (intro kept.stays_rules kept_write_chunk)
      (auto simp: stays_def kept_def writer_set_def prog_simps tracks_def)
  then have rest: "tracks base t" if "tracks base u" "?rest () u = Some (r, t)" for u
    using that by (auto simp: stays_def kept_def)
  have mode: "tracks base t" if u: "tracks base u" and "?mode u = Some (r, t)" for u
  proof (cases "ota_mode (ow_writer u) = Mode_Undecided")
    case False
    then show ?thesis using that rest by (simp add: writer_get_def andthen_gets)
  next
    case True
    then have "andthen (decide_mode c) ?rest u = Some (r, t)"
      using that by (simp add: writer_get_def andthen_gets)
    then show ?thesis
      using decide_mode_tracks [OF u True] rest by (auto simp: andthen_Some [of "decide_mode c"])
  qed
  show "tracks base t"
  proof (cases "c = [] \<or> ota_slot (ow_writer s) \<noteq> Slot_Unopened")
    case True
    then show ?thesis
      using run s mode by (auto simp: ota_write_def writer_get_def andthen_gets prog_simps split: if_splits)
  next
    case False
    then have "andthen ota_open (\<lambda>_. ?mode) s = Some (r, t)"
      using run by (simp add: ota_write_def writer_get_def andthen_gets)
    then show ?thesis
      using open_tracks [OF s] False mode by (auto simp: andthen_Some [of ota_open])
  qed
qed

text \<open>Deciding a patch's end, however it ends: the handle is released and the mode left.\<close>

lemma finalize_patch_tracks:
  assumes "tracks base s" "finalize_patch s = Some (r, t)"
  shows "tracks base t \<and> (\<forall>p ctx. ota_mode (ow_writer t) \<noteq> Mode_Patch p ctx) \<and>
    ota_slot (ow_writer t) = ota_slot (ow_writer s) \<and> ow_idf t = ow_idf s"
proof (cases "\<exists>p ctx. ota_mode (ow_writer s) = Mode_Patch p ctx")
  case False
  then show ?thesis
    using assms by (auto simp: finalize_patch_def ota_runs split: mode.splits)
next
  case True
  then obtain p ctx where m: "ota_mode (ow_writer s) = Mode_Patch p ctx" by blast
  obtain cbs err where fin: "idf_delta_finalize (ow_idf s) (ow_calls s) p = (cbs, err)" by fastforce
  let ?s = "s\<lparr>ow_calls := ow_calls s @ [Idf_DeltaFinalize p cbs err]\<rparr>"
  from assms(1) obtain calls st d where *: "ow_calls s = base @ calls"
    "protocol (Not_begun, None) calls = Some (st, d)"
    "slot_matches (ota_partition (ow_writer s)) (ota_slot (ow_writer s)) st"
    "mode_matches (ota_slot (ow_writer s)) (ota_mode (ow_writer s)) d" by (rule tracksE)
  have "tracks base ?s" by (rule tracks_call [OF *(1,2), of _ st d]) (use * m in auto)
  from run_callbacks_tracks [OF this, of cbs] obtain u where
    u: "run_callbacks cbs ?s = Some (Inr (), u)" "tracks base u" "ow_idf u = ow_idf s"
      "ota_slot (ow_writer u) = ota_slot (ow_writer s)"
      "mode_matches (ota_slot (ow_writer s)) (ota_mode (ow_writer u)) =
         mode_matches (ota_slot (ow_writer s)) (ota_mode (ow_writer s))" by auto
  from u(2) obtain calls' st' d' where **: "ow_calls u = base @ calls'"
    "protocol (Not_begun, None) calls' = Some (st', d')"
    "slot_matches (ota_partition (ow_writer u)) (ota_slot (ow_writer u)) st'"
    "mode_matches (ota_slot (ow_writer u)) (ota_mode (ow_writer u)) d'" by (rule tracksE)
  have d': "d' = Some p" using **(4) u m by (simp add: fun_eq_iff)
  have t: "t = u\<lparr>ow_calls := ow_calls u @ [Idf_DeltaDeinit p], ow_writer := (ow_writer u)\<lparr>ota_mode := Mode_Image\<rparr>\<rparr>"
    using assms(2) m u(1) fin
    by (auto simp: finalize_patch_def ota_runs split: if_splits)
  have "tracks base t"
    unfolding t by (rule tracks_call [OF **(1,2), of "Idf_DeltaDeinit p" st' None]) (use ** d' in auto)
  then show ?thesis using t u by simp
qed

lemma finished_tracks:
  assumes "tracks base s" "\<forall>p ctx. ota_mode (ow_writer s) \<noteq> Mode_Patch p ctx"
    and "\<forall>h. ota_slot (ow_writer s) \<noteq> Slot_Open h"
  shows "tracks base (s\<lparr>ow_writer := (ow_writer s)\<lparr>ota_slot := Slot_Finished\<rparr>\<rparr>)"
  using assms
  by (cases "ota_slot (ow_writer s)"; cases "ota_mode (ow_writer s)") (auto simp: tracks_def)

lemma kept_ota_commit: "stays (kept base) ota_commit"
proof (rule keptI)
  fix s :: "'a ota_world_scheme" and r t
  assume run: "ota_commit s = Some (r, t)" and s: "tracks base s"
  then consider (cut) e where "finalize_patch s = Some (Inl e, t)"
    | (finalized) u where "finalize_patch s = Some (Inr (), u)"
        "andthen (writer_get (\<lambda>w. (ota_slot w, ota_partition w))) (\<lambda>(slot, part).
     andthen (writer_set (\<lambda>w. w\<lparr>ota_slot := Slot_Finished\<rparr>)) (\<lambda>_. case slot of
         Slot_Unopened \<Rightarrow> fail (Error_Ota ''commit with nothing written'')
       | Slot_Finished \<Rightarrow> fail (Error_Ota ''commit after the update was finished'')
       | Slot_Open handle \<Rightarrow>
           andthen (idf_ask (\<lambda>I h. idf_end I h handle) (Idf_End handle)) (\<lambda>err.
           andthen (check err ''esp_ota_end'') (\<lambda>_.
           andthen (idf_ask (\<lambda>I h. idf_set_boot I h part) (Idf_SetBoot part)) (\<lambda>err.
           check err ''esp_ota_set_boot_partition''))))) u = Some (r, t)"
    by (auto simp: ota_commit_def andthen_Some [of finalize_patch])
  then show "tracks base t"
  proof cases
    case cut
    then show ?thesis using finalize_patch_tracks [OF s] by blast
  next
    case finalized
    from finalize_patch_tracks [OF s finalized(1)] have u: "tracks base u"
      "\<forall>p ctx. ota_mode (ow_writer u) \<noteq> Mode_Patch p ctx" by blast+
    show ?thesis
    proof (cases "ota_slot (ow_writer u)")
      case (Slot_Open h)
      let ?fin = "idf_end (ow_idf u) (ow_calls u) h"
      let ?c1 = "Idf_End h ?fin"
      let ?u1 = "u\<lparr>ow_writer := (ow_writer u)\<lparr>ota_slot := Slot_Finished\<rparr>, ow_calls := ow_calls u @ [?c1]\<rparr>"
      let ?part = "ota_partition (ow_writer u)"
      let ?c2 = "Idf_SetBoot ?part (idf_set_boot (ow_idf u) (ow_calls ?u1) ?part)"
      from u(1) obtain calls st d where *: "ow_calls u = base @ calls"
        "protocol (Not_begun, None) calls = Some (st, d)" "st = Begun ?part h" "d = None"
        by (rule tracksE) (use Slot_Open u(2) in \<open>cases "ota_mode (ow_writer u)"; simp\<close>)
      have mm: "mode_matches sl (ota_mode (ow_writer u)) None" for sl
        using u(2) by (cases "ota_mode (ow_writer u)") auto
      have t: "t = (if ?fin = ESP_OK then ?u1\<lparr>ow_calls := ow_calls ?u1 @ [?c2]\<rparr> else ?u1)"
        using finalized(2) Slot_Open by (auto simp: ota_runs split: if_splits)
      show ?thesis
        by (rule tracksI [where calls = "calls @ (if ?fin = ESP_OK then [?c1, ?c2] else [?c1])"
              and st = Closed and d = None])
          (use * mm in \<open>simp_all add: t\<close>)
    qed (use finalized(2) finished_tracks [OF u] in \<open>auto simp: ota_runs\<close>)
  qed
qed

lemma kept_ota_abort: "stays (kept base) ota_abort"
proof (rule keptI)
  fix s :: "'a ota_world_scheme" and r t
  assume run: "ota_abort s = Some (r, t)" and s: "tracks base s"
  let ?fin = "andthen (writer_get ota_slot) (\<lambda>slot.
     andthen (writer_set (\<lambda>w. w\<lparr>ota_slot := Slot_Finished\<rparr>)) (\<lambda>_. case slot of
         Slot_Open handle \<Rightarrow> idf_ask (\<lambda>_ _. ()) (\<lambda>_. Idf_Abort handle)
       | _ \<Rightarrow> ok ()))"
  have ended: "tracks base t" if u: "tracks base u" "\<forall>p ctx. ota_mode (ow_writer u) \<noteq> Mode_Patch p ctx"
    and "?fin u = Some (r, t)" for u
  proof (cases "ota_slot (ow_writer u)")
    case (Slot_Open h)
    from u(1) obtain calls st d where *: "ow_calls u = base @ calls"
      "protocol (Not_begun, None) calls = Some (st, d)" "st = Begun (ota_partition (ow_writer u)) h" "d = None"
      by (rule tracksE) (use Slot_Open u(2) in \<open>cases "ota_mode (ow_writer u)"; simp\<close>)
    have "mode_matches sl (ota_mode (ow_writer u)) None" for sl
      using u(2) by (cases "ota_mode (ow_writer u)") auto
    moreover have "t = u\<lparr>ow_writer := (ow_writer u)\<lparr>ota_slot := Slot_Finished\<rparr>,
        ow_calls := ow_calls u @ [Idf_Abort h]\<rparr>"
      using that(3) Slot_Open by (auto simp: ota_runs)
    ultimately show ?thesis
      using * by (intro tracks_call [OF *(1,2), of "Idf_Abort h" Closed None]) auto
  qed (use that(3) finished_tracks [OF u] in \<open>auto simp: ota_runs\<close>)
  show "tracks base t"
  proof (cases "\<exists>p ctx. ota_mode (ow_writer s) = Mode_Patch p ctx")
    case True
    then obtain p ctx where m: "ota_mode (ow_writer s) = Mode_Patch p ctx" by blast
    from s obtain calls st d where *: "ow_calls s = base @ calls"
      "protocol (Not_begun, None) calls = Some (st, d)"
      "slot_matches (ota_partition (ow_writer s)) (ota_slot (ow_writer s)) st" "d = Some p"
      by (rule tracksE) (use m in simp)
    let ?u = "s\<lparr>ow_calls := ow_calls s @ [Idf_DeltaDeinit p], ow_writer := (ow_writer s)\<lparr>ota_mode := Mode_Image\<rparr>\<rparr>"
    have "tracks base ?u"
      by (rule tracks_call [OF *(1,2), of "Idf_DeltaDeinit p" st None]) (use * in auto)
    moreover have "?fin ?u = Some (r, t)" using run m by (simp add: ota_abort_def ota_runs)
    ultimately show ?thesis using ended [of ?u] by simp
  next
    case False
    then have "?fin s = Some (r, t)"
      using run by (cases "ota_mode (ow_writer s)") (auto simp: ota_abort_def writer_get_def andthen_gets)
    then show ?thesis using ended [OF s] False by blast
  qed
qed

lemma kept_ota_do: "stays (kept base) (ota_do op)"
  by (cases op) (simp_all add: kept_ota_write kept_ota_commit kept_ota_abort)

lemma tracks_step: "tracks base s \<Longrightarrow> tracks base (ota_step op s)"
  using kept_ota_do [of base op] by (auto simp: ota_step_def stays_def kept_def split: option.split)

interpretation ota_ops: preserved ota_step "tracks base"
  by unfold_locales (rule tracks_step)

lemma tracks_new: "ow_calls s = base \<Longrightarrow> ow_writer s = writer_new part \<Longrightarrow> tracks base s"
  by (rule tracksI [of s base "[]" Not_begun None]) (simp_all add: writer_new_def)

subsection \<open>The boot partition\<close>

text \<open>The partitions made bootable, in order: only a commit that succeeds adds one.\<close>

fun boots :: "idf_call \<Rightarrow> nat list" where
  "boots (Idf_SetBoot part r) = (if r = ESP_OK then [part] else [])"
| "boots c = []"

definition boot_sets :: "'s ota_world_scheme \<Rightarrow> nat list" where
  "boot_sets s = concat (map boots (ow_calls s))"

definition same_boot :: "'s ota_world_scheme \<Rightarrow> 's ota_world_scheme \<Rightarrow> bool" where
  "same_boot s t \<longleftrightarrow> boot_sets t = boot_sets s"

interpretation same_boot: run_relation same_boot
  by unfold_locales (auto simp: same_boot_def)

text \<open>The partition a writer was begun on never changes.\<close>

definition same_partition :: "'s ota_world_scheme \<Rightarrow> 's ota_world_scheme \<Rightarrow> bool" where
  "same_partition s t \<longleftrightarrow> ota_partition (ow_writer t) = ota_partition (ow_writer s)"

interpretation same_partition: run_relation same_partition
  by unfold_locales (auto simp: same_partition_def)

lemma same_partition_basic:
  "stays same_partition (idf_ask f ev)" "stays same_partition (writer_get h)"
  "stays same_partition (check err what)"
  "(\<And>w. ota_partition (g w) = ota_partition w) \<Longrightarrow> stays same_partition (writer_set g)"
  by (auto simp: stays_def same_partition_def idf_ask_run writer_get_def writer_set_def check_def
      prog_simps split: if_splits)

lemma same_partition_callbacks: "stays same_partition (patch_callbacks cbs ctx)"
  by (induction cbs arbitrary: ctx)
    (auto simp: patch_read_def patch_write_def intro!: same_partition.stays_rules same_partition_basic
      split: patch_callback.split prod.split)

lemma same_partition_finalize: "stays same_partition finalize_patch"
  unfolding finalize_patch_def run_callbacks_def
  by (auto intro!: same_partition.stays_rules same_partition_basic same_partition_callbacks
      split: mode.split prod.split)

lemma same_boot_ask: "(\<And>a. boots (ev a) = []) \<Longrightarrow> stays same_boot (idf_ask f ev)"
  by (auto simp: stays_def same_boot_def boot_sets_def idf_ask_run)

lemma same_boot_writer:
  "stays same_boot (writer_get f)" "stays same_boot (writer_set g)" "stays same_boot (ota_log text)"
  "stays same_boot (check err what)"
  by (auto simp: stays_def same_boot_def boot_sets_def writer_get_def writer_set_def ota_log_def check_def
      prog_simps split: if_splits)

lemmas same_boot_rules = same_boot.stays_rules same_boot_ask same_boot_writer

lemma same_boot_callbacks: "stays same_boot (patch_callbacks cbs ctx)"
  by (induction cbs arbitrary: ctx)
    (auto simp: patch_read_def patch_write_def intro!: same_boot_rules split: patch_callback.split prod.split)

lemma same_boot_run_callbacks: "stays same_boot (run_callbacks cbs)"
  unfolding run_callbacks_def
  by (auto intro!: same_boot_rules same_boot_callbacks split: mode.split)

lemma same_boot_ota_write: "stays same_boot (ota_write c)"
  unfolding ota_write_def ota_open_def decide_mode_def begin_patch_def write_chunk_def
  by (auto intro!: same_boot_rules same_boot_run_callbacks
      split: sum.split payload_kind.split option.split mode.split prod.split)

lemma same_boot_ota_abort: "stays same_boot ota_abort"
  unfolding ota_abort_def by (auto intro!: same_boot_rules split: mode.split slot.split)

lemma same_boot_finalize: "stays same_boot finalize_patch"
  unfolding finalize_patch_def
  by (auto intro!: same_boot_rules same_boot_run_callbacks split: mode.split prod.split)

lemma ota_commit_boots:
  assumes "ota_commit s = Some (r, t)"
  shows "boot_sets t = boot_sets s @ (case r of Inr _ \<Rightarrow> [ota_partition (ow_writer s)] | Inl _ \<Rightarrow> [])"
proof -
  from assms consider (cut) e where "finalize_patch s = Some (Inl e, t)" "r = Inl e"
    | (finalized) u where "finalize_patch s = Some (Inr (), u)"
        "andthen (writer_get (\<lambda>w. (ota_slot w, ota_partition w))) (\<lambda>(slot, part).
     andthen (writer_set (\<lambda>w. w\<lparr>ota_slot := Slot_Finished\<rparr>)) (\<lambda>_. case slot of
         Slot_Unopened \<Rightarrow> fail (Error_Ota ''commit with nothing written'')
       | Slot_Finished \<Rightarrow> fail (Error_Ota ''commit after the update was finished'')
       | Slot_Open handle \<Rightarrow>
           andthen (idf_ask (\<lambda>I h. idf_end I h handle) (Idf_End handle)) (\<lambda>err.
           andthen (check err ''esp_ota_end'') (\<lambda>_.
           andthen (idf_ask (\<lambda>I h. idf_set_boot I h part) (Idf_SetBoot part)) (\<lambda>err.
           check err ''esp_ota_set_boot_partition''))))) u = Some (r, t)"
    by (auto simp: ota_commit_def andthen_Some [of finalize_patch])
  then show ?thesis
  proof cases
    case cut
    then show ?thesis using staysD [OF same_boot_finalize] by (fastforce simp: same_boot_def)
  next
    case finalized
    have u: "boot_sets u = boot_sets s" "ota_partition (ow_writer u) = ota_partition (ow_writer s)"
      using staysD [OF same_boot_finalize finalized(1)] staysD [OF same_partition_finalize finalized(1)]
      by (auto simp: same_boot_def same_partition_def)
    then show ?thesis
      using finalized(2)
      by (cases "ota_slot (ow_writer u)") (auto simp: ota_runs boot_sets_def split: if_splits)
  qed
qed

interpretation ota_slot_sink: slot_sink same_boot ota_sink
proof
  fix s t :: "'s ota_world_scheme" and e
  assume "sk_commit ota_sink s = Some (Inl e, t)"
  then show "same_boot s t"
    using ota_commit_boots [of s "Inl e" t] by (simp add: ota_sink_def same_boot_def)
qed (simp_all add: ota_sink_def same_boot_ota_write same_boot_ota_abort)

subsection \<open>A full image\<close>

lemma image_write:
  assumes "ota_mode (ow_writer s) = Mode_Image" "ota_slot (ow_writer s) = Slot_Open h" "c \<noteq> []"
    and "ota_write c s = Some (Inr (), t)"
  shows "ow_calls t = ow_calls s @ [Idf_Write h c ESP_OK] \<and>
    ow_writer t = (ow_writer s)\<lparr>ota_written := ota_written (ow_writer s) + of_nat (length c)\<rparr>"
  using assms by (auto simp: ota_write_def write_chunk_def ota_runs slot_handle_def split: if_splits)

lemma image_writes:
  assumes "for_each cs ota_write s = Some (Inr (), t)" "[] \<notin> set cs"
    and "ota_mode (ow_writer s) = Mode_Image" "ota_slot (ow_writer s) = Slot_Open h"
  shows "ow_calls t = ow_calls s @ map (\<lambda>c. Idf_Write h c ESP_OK) cs \<and>
    ow_writer t = (ow_writer s)\<lparr>ota_written := ota_written (ow_writer s) + of_nat (length (concat cs))\<rparr>"
  using assms
proof (induction cs arbitrary: s)
  case Nil
  then show ?case by (simp add: prog_simps)
next
  case (Cons c cs)
  then obtain u where u: "ota_write c s = Some (Inr (), u)" "for_each cs ota_write u = Some (Inr (), t)"
    by (auto simp: andthen_Inr)
  have w: "ow_calls u = ow_calls s @ [Idf_Write h c ESP_OK]"
    "ow_writer u = (ow_writer s)\<lparr>ota_written := ota_written (ow_writer s) + of_nat (length c)\<rparr>"
    using image_write [OF Cons.prems(3,4) _ u(1)] Cons.prems(2) by auto
  then show ?case using Cons.IH [OF u(2)] Cons.prems by (simp add: add.assoc)
qed

lemma first_image_write:
  assumes "ow_writer s = writer_new part" "c \<noteq> []" "hd c = ESP_IMAGE_MAGIC"
    and "ota_write c s = Some (Inr (), t)"
  shows "\<exists>h. ow_calls t = ow_calls s @
      [Idf_Begin part OTA_WITH_SEQUENTIAL_WRITES (Inr h), Idf_Write h c ESP_OK] \<and>
    ow_writer t = \<lparr>ota_partition = part, ota_slot = Slot_Open h, ota_written = of_nat (length c),
      ota_mode = Mode_Image\<rparr>"
  using assms
  by (auto simp: ota_write_def ota_open_def decide_mode_def classify_def write_chunk_def writer_new_def
      ota_runs slot_handle_def split: if_splits sum.splits)

lemma image_commit:
  assumes "ota_mode (ow_writer s) = Mode_Image" "ota_slot (ow_writer s) = Slot_Open h"
    and "ota_commit s = Some (Inr (), t)"
  shows "ow_calls t = ow_calls s @ [Idf_End h ESP_OK, Idf_SetBoot (ota_partition (ow_writer s)) ESP_OK] \<and>
    ow_writer t = (ow_writer s)\<lparr>ota_slot := Slot_Finished\<rparr>"
  using assms by (auto simp: ota_commit_def finalize_patch_def ota_runs split: if_splits)

lemma full_image:
  assumes "andthen (for_each (c # cs) ota_write) (\<lambda>_. ota_commit) s = Some (Inr (), t)"
    and "ow_writer s = writer_new part" "[] \<notin> set (c # cs)" "hd c = ESP_IMAGE_MAGIC"
  shows "\<exists>h. ow_calls t = ow_calls s @ Idf_Begin part OTA_WITH_SEQUENTIAL_WRITES (Inr h) #
      map (\<lambda>c. Idf_Write h c ESP_OK) (c # cs) @ [Idf_End h ESP_OK, Idf_SetBoot part ESP_OK] \<and>
    written (ow_writer t) = of_nat (length (concat (c # cs)))"
proof -
  from assms(1) obtain u v where u: "ota_write c s = Some (Inr (), u)"
    and v: "for_each cs ota_write u = Some (Inr (), v)" and t: "ota_commit v = Some (Inr (), t)"
    by (auto simp: andthen_Inr)
  from assms first_image_write [OF assms(2) _ _ u] obtain h where h:
    "ow_calls u = ow_calls s @ [Idf_Begin part OTA_WITH_SEQUENTIAL_WRITES (Inr h), Idf_Write h c ESP_OK]"
    "ow_writer u = \<lparr>ota_partition = part, ota_slot = Slot_Open h, ota_written = of_nat (length c),
      ota_mode = Mode_Image\<rparr>" by auto
  have w: "ow_calls v = ow_calls u @ map (\<lambda>c. Idf_Write h c ESP_OK) cs"
    "ow_writer v = (ow_writer u)\<lparr>ota_written := ota_written (ow_writer u) + of_nat (length (concat cs))\<rparr>"
    using image_writes [OF v] assms(3) h(2) by auto
  show ?thesis
    using image_commit [OF _ _ t, of h] w h by (intro exI [of _ h]) (simp add: written_def)
qed

subsection \<open>Properties\<close>

text \<open>
  C6: however an update's writes, commit and abort come, and whatever ESP-IDF answers to each,
  the calls of one writer obey ESP-IDF's rules: no handle is written, ended or aborted after it
  was, none is used before it was given, a patch handle is released before its image's handle is
  ended, and the boot partition is set only after the image's handle ended well.
\<close>

theorem slot_protocol_obeyed:
  "\<exists>calls q. ow_calls (fold ota_step ops (s\<lparr>ow_writer := writer_new part\<rparr>)) = ow_calls s @ calls \<and>
    protocol (Not_begun, None) calls = Some q"
proof -
  have "tracks (ow_calls s) (s\<lparr>ow_writer := writer_new part\<rparr>)" by (rule tracks_new) simp_all
  from ota_ops.run_inv [OF this, of ops] show ?thesis
    unfolding tracks_def by (elim exE conjE) (intro exI conjI)
qed

text \<open>
  C11: a full image is written whole and in order. When its chunks and the commit all succeed, the
  calls made are one begin, each chunk through the handle it gave, its end and the boot partition
  set, and nothing else; and the writer has counted every byte.
\<close>

theorem full_image_written:
  assumes "andthen (for_each (c # cs) ota_write) (\<lambda>_. ota_commit) (s\<lparr>ow_writer := writer_new part\<rparr>) =
      Some (Inr (), t)"
    and "[] \<notin> set (c # cs)" and "classify (hd c) = Payload_Image"
  shows "\<exists>h. ow_calls t = ow_calls s @ Idf_Begin part OTA_WITH_SEQUENTIAL_WRITES (Inr h) #
      map (\<lambda>c. Idf_Write h c ESP_OK) (c # cs) @ [Idf_End h ESP_OK, Idf_SetBoot part ESP_OK] \<and>
    written (ow_writer t) = of_nat (length (concat (c # cs)))"
  using full_image [OF assms(1) _ assms(2)] assms(3) by (simp add: classify_def split: if_splits)

definition demo_idf :: idf where
  "demo_idf = \<lparr>idf_next = (\<lambda>_. Some 1), idf_running = (\<lambda>_. Some 0), idf_begin = (\<lambda>_ _. Inr 7),
     idf_write = (\<lambda>_ _ _. 0), idf_end = (\<lambda>_ _. 0), idf_set_boot = (\<lambda>_ _. 0), idf_delta_init = (\<lambda>_. None),
     idf_delta_feed = (\<lambda>_ _ _. ([], 0)), idf_partition_read = (\<lambda>_ _ _ _. 0),
     idf_delta_finalize = (\<lambda>_ _. ([], 0)), idf_get_state = (\<lambda>_ _. Inr Img_Valid), idf_mark_valid = (\<lambda>_. 0),
     idf_err_name = (\<lambda>_. None)\<rparr>"

definition demo_ota :: ota_world where
  "demo_ota = \<lparr>ow_idf = demo_idf, ow_calls = [], ow_logged = [], ow_writer = writer_new 1\<rparr>"

lemma demo_image_runs:
  "\<exists>t. andthen (for_each [[0xE9, 1], [2]] ota_write) (\<lambda>_. ota_commit) (demo_ota\<lparr>ow_writer := writer_new 1\<rparr>) =
    Some (Inr (), t)"
  by (simp add: demo_ota_def ota_write_def ota_open_def decide_mode_def classify_def ESP_IMAGE_MAGIC_def
      write_chunk_def writer_new_def ota_runs slot_handle_def demo_idf_def ESP_OK_def ota_commit_def
      finalize_patch_def)

theorem full_image_written_witness:
  "\<exists>t h. ow_calls t = [Idf_Begin 1 OTA_WITH_SEQUENTIAL_WRITES (Inr h), Idf_Write h [0xE9, 1] ESP_OK,
     Idf_Write h [2] ESP_OK, Idf_End h ESP_OK, Idf_SetBoot 1 ESP_OK] \<and>
   andthen (for_each [[0xE9, 1], [2]] ota_write) (\<lambda>_. ota_commit) (demo_ota\<lparr>ow_writer := writer_new 1\<rparr>) =
     Some (Inr (), t)"
proof -
  obtain t where run: "andthen (for_each [[0xE9, 1], [2]] ota_write) (\<lambda>_. ota_commit)
      (demo_ota\<lparr>ow_writer := writer_new 1\<rparr>) = Some (Inr (), t)" using demo_image_runs by blast
  have "classify (hd [0xE9, 1]) = Payload_Image" by (simp add: classify_def ESP_IMAGE_MAGIC_def)
  from full_image_written [OF run _ this] run show ?thesis by (auto simp: demo_ota_def)
qed

text \<open>
  C3: an installation that fails leaves the device booting what it booted before, whatever it
  failed at, the download, a write, the checks or the commit itself; one whose commit succeeds
  makes the slot it wrote the one to boot. The stream and the progress handler are any that do
  not themselves set the boot partition.
\<close>

theorem failed_install_boots_old_image:
  assumes "around same_boot H P"
  shows "(case install digest u H ota_sink stp P s of
      Some (Inl e, t) \<Rightarrow> boot_sets t = boot_sets s
    | _ \<Rightarrow> True) \<and>
    (case ota_commit s of
      None \<Rightarrow> True
    | Some (r, t) \<Rightarrow> boot_sets t =
        boot_sets s @ (case r of Inr _ \<Rightarrow> [ota_partition (ow_writer s)] | Inl _ \<Rightarrow> []))"
  using ota_slot_sink.failed_install_same [OF assms] ota_commit_boots [of s]
  by (auto simp: same_boot_def split: option.split sum.split)

definition broken_stream :: "ota_world http_stream" where
  "broken_stream = \<lparr>hs_open = (\<lambda>_. ok None), hs_read = (\<lambda>_. fail (Error_Download ''reset''))\<rparr>"

definition idle_progress :: "ota_world progress" where
  "idle_progress = closure_progress (\<lambda>_. ok ()) (\<lambda>_. ok ()) (\<lambda>_ _. ok ())"

lemma demo_install_fails:
  "\<exists>e t. install (\<lambda>_. []) demo_update broken_stream ota_sink 5 idle_progress demo_ota = Some (Inl e, t)"
  by (simp add: install_def actionable_def demo_update_def download_image_def RETRY_WAITS_def copy_image_def
      iterate.simps copy_turn_def broken_stream_def ota_sink_def ota_abort_def demo_ota_def writer_new_def
      Let_def ota_runs)

theorem failed_install_boots_old_image_witness:
  "\<exists>e t. install (\<lambda>_. []) demo_update broken_stream ota_sink 5 idle_progress demo_ota = Some (Inl e, t) \<and>
    boot_sets t = []"
proof -
  have around: "around same_boot broken_stream idle_progress"
    by (simp add: around_def broken_stream_def idle_progress_def closure_progress_def
        same_boot.stays_ok same_boot.stays_fail)
  obtain e t where run: "install (\<lambda>_. []) demo_update broken_stream ota_sink 5 idle_progress demo_ota =
      Some (Inl e, t)" using demo_install_fails by blast
  have "boot_sets t = boot_sets demo_ota"
    using failed_install_boots_old_image [OF around, where digest = "\<lambda>_. []" and u = demo_update
        and stp = 5 and s = demo_ota] run by simp
  then show ?thesis using run by (simp add: boot_sets_def demo_ota_def)
qed

text \<open>The calls that give up an image's handle.\<close>

fun releases :: "idf_call \<Rightarrow> bool" where
  "releases (Idf_End h r) = True"
| "releases (Idf_Abort h) = True"
| "releases c = False"

lemma through_releases: "list_all (through h) cs \<Longrightarrow> list_all (\<lambda>c. \<not> releases c) cs"
proof (induction cs)
  case (Cons c cs)
  then show ?case by (cases c) auto
qed simp

text \<open>
  C40: a patch whose end fails. The commit gives that error with the patch handle released, but it
  leaves the image's handle open in the writer's slot: the calls it made neither end nor abort it.
\<close>

theorem failed_patch_leaves_handle_open:
  assumes "ota_mode (ow_writer s) = Mode_Patch p ctx" and "ota_slot (ow_writer s) = Slot_Open h"
    and "idf_delta_finalize (ow_idf s) (ow_calls s) p = (cbs, err)" and "err \<noteq> ESP_OK"
  shows "\<exists>e t calls. ota_commit s = Some (Inl e, t) \<and> ota_slot (ow_writer t) = Slot_Open h \<and>
    ow_calls t = ow_calls s @ calls \<and> last calls = Idf_DeltaDeinit p \<and> list_all (\<lambda>c. \<not> releases c) calls"
proof -
  let ?s = "s\<lparr>ow_calls := ow_calls s @ [Idf_DeltaFinalize p cbs err]\<rparr>"
  from patch_callbacks_run [of cbs ctx ?s] obtain ctx' u cs where u:
    "patch_callbacks cbs ctx ?s = Some (Inr ctx', u)" "ow_calls u = ow_calls ?s @ cs"
    "list_all (through (pctx_ota ctx)) cs" "ow_writer u = ow_writer s" by auto
  let ?t = "u\<lparr>ow_calls := ow_calls u @ [Idf_DeltaDeinit p],
      ow_writer := (ow_writer s)\<lparr>ota_mode := Mode_Image\<rparr>\<rparr>"
  have "ota_commit s = Some (Inl (Error_Ota (''esp_delta_ota_finalize failed: '' @ error_name (ow_idf u) err)), ?t)"
    using assms u(1,4) by (simp add: ota_commit_def finalize_patch_def run_callbacks_def ota_runs)
  then show ?thesis
    using u assms(2) through_releases [OF u(3)]
    by (intro exI [of _ ?t] exI [of _ "Error_Ota (''esp_delta_ota_finalize failed: '' @ error_name (ow_idf u) err)"]
        exI [of _ "Idf_DeltaFinalize p cbs err # cs @ [Idf_DeltaDeinit p]"]) simp
qed

theorem failed_patch_leaves_handle_open_witness:
  "\<exists>e t. ota_commit (demo_ota\<lparr>ow_idf := demo_idf\<lparr>idf_delta_finalize := (\<lambda>_ _. ([], -1))\<rparr>,
     ow_writer := (writer_new 1)\<lparr>ota_slot := Slot_Open 7,
       ota_mode := Mode_Patch 9 \<lparr>pctx_ota = 7, pctx_source = 0, pctx_written = 0\<rparr>\<rparr>\<rparr>) = Some (Inl e, t) \<and>
   ota_slot (ow_writer t) = Slot_Open 7"
proof -
  let ?s = "demo_ota\<lparr>ow_idf := demo_idf\<lparr>idf_delta_finalize := (\<lambda>_ _. ([], -1))\<rparr>,
     ow_writer := (writer_new 1)\<lparr>ota_slot := Slot_Open 7,
       ota_mode := Mode_Patch 9 \<lparr>pctx_ota = 7, pctx_source = 0, pctx_written = 0\<rparr>\<rparr>\<rparr>"
  have "ota_mode (ow_writer ?s) = Mode_Patch 9 \<lparr>pctx_ota = 7, pctx_source = 0, pctx_written = 0\<rparr>"
    "ota_slot (ow_writer ?s) = Slot_Open 7"
    "idf_delta_finalize (ow_idf ?s) (ow_calls ?s) 9 = ([], -1)" "(-1 :: int) \<noteq> ESP_OK"
    by (simp_all add: ESP_OK_def)
  from failed_patch_leaves_handle_open [OF this] show ?thesis by blast
qed

end
