(* ===== verification/Device.thy ===== *)
theory Device
  imports Console Health Ota Inbound Metadata
begin

text \<open>
  The console's commands about the device itself: \<open>console::device\<close>, and \<open>info\<close> and
  \<open>uptime\<close> of \<open>with_console\<close> in \<open>agent.rs\<close>. What ESP-IDF says is a
  parameter, one reading of each. A command is the pieces it writes, the text of its format strings
  and their arguments; \<open>write_all\<close> (theory Console) writes them, which never fails.
\<close>

record partition_info =
  pa_label :: bytes
  pa_address :: u32
  pa_size :: u32
  pa_state :: "int + image_state"

record device_readings = esp_readings +
  dr_netif :: bool
  dr_ip_info :: "int \<times> u32"
  dr_running :: "partition_info option"
  dr_next :: "partition_info option"

subsection \<open>Formats\<close>

text \<open>\<open>{:>n}\<close> of a number, \<open>{:<n}\<close> of a string, and \<open>{:#08x}\<close>.\<close>

definition pad_left :: "nat \<Rightarrow> string \<Rightarrow> string" where
  "pad_left n s = replicate (n - length s) (CHR '' '') @ s"

definition pad_right :: "nat \<Rightarrow> string \<Rightarrow> string" where
  "pad_right n s = s @ replicate (n - length (utf8_chars s)) (CHR '' '')"

fun hex_nat :: "nat \<Rightarrow> string" where
  "hex_nat n = (if n < 16 then [hex_digit 97 n] else hex_nat (n div 16) @ [hex_digit 97 (n mod 16)])"

declare hex_nat.simps [simp del]

definition hex_padded :: "nat \<Rightarrow> nat \<Rightarrow> string" where
  "hex_padded width n = (let ds = hex_nat n in ''0x'' @ replicate (width - 2 - length ds) (CHR ''0'') @ ds)"

definition hex_address :: "u32 \<Rightarrow> string" where
  "hex_address a = hex_padded 8 (unat a)"

definition two_digits :: "nat \<Rightarrow> string" where
  "two_digits n = (let ds = dec_nat n in replicate (2 - length ds) (CHR ''0'') @ ds)"

definition trim_end_nuls :: "string \<Rightarrow> string" where
  "trim_end_nuls s = rev (dropWhile (\<lambda>c. c = CHR 0x00) (rev s))"

subsection \<open>The commands\<close>

definition device_heap :: "'s esp_readings_scheme \<Rightarrow> string list" where
  "device_heap R =
     (let line = (\<lambda>label n rest. [label, pad_left 9 (dec_nat (unat (n :: usize))), rest])
      in line ''total     '' (er_heap_total R) crlf @ line ''free      '' (er_heap_free R) crlf
         @ line ''min free  '' (er_heap_min_free R) (''   low-water mark'' @ crlf)
         @ line ''largest   '' (er_heap_largest R) ''   largest single block'')"

definition le_bytes :: "u32 \<Rightarrow> nat list" where
  "le_bytes a = map (\<lambda>i. unat a div 256 ^ i mod 256) [0, 1, 2, 3]"

definition ssid_text :: "bytes \<Rightarrow> string" where
  "ssid_text bs = trim_end_nuls (case from_utf8 bs of None \<Rightarrow> ''<invalid>'' | Some s \<Rightarrow> s)"

definition device_wifi :: "'s device_readings_scheme \<Rightarrow> string list" where
  "device_wifi R = (case er_ap_info R of (err, info) \<Rightarrow>
     if err \<noteq> ESP_OK then [''not associated'']
     else
       [''ssid      '', ssid_text (ap_ssid info), crlf, ''rssi      '', dec_int (ap_rssi info), '' dBm'' @ crlf,
        ''channel   '', dec_nat (unat (ap_primary info))]
       @ (case dr_ip_info R of (err, addr) \<Rightarrow>
           if dr_netif R \<and> err = ESP_OK then
             [crlf @ ''ip        '', dec_nat (le_bytes addr ! 0), ''.'', dec_nat (le_bytes addr ! 1), ''.'',
              dec_nat (le_bytes addr ! 2), ''.'', dec_nat (le_bytes addr ! 3)]
           else []))"

fun state_name :: "int + image_state \<Rightarrow> string" where
  "state_name (Inl err) = ''state unknown''"
| "state_name (Inr Img_New) = ''new''"
| "state_name (Inr Img_PendingVerify) = ''pending verify''"
| "state_name (Inr Img_Valid) = ''valid''"
| "state_name (Inr Img_Aborted) = ''ABORTED, rolled back: never confirmed''"
| "state_name (Inr Img_Invalid) = ''INVALID, rolled back''"
| "state_name (Inr Img_Undefined) = ''undefined''"

definition partition_line :: "string \<Rightarrow> partition_info option \<Rightarrow> string list" where
  "partition_line label p = (case p of
      None \<Rightarrow> [pad_right 9 label, '' none'' @ crlf]
    | Some p \<Rightarrow>
        [pad_right 9 label, '' '', pad_right 8 (case from_utf8 (pa_label p) of None \<Rightarrow> ''?'' | Some s \<Rightarrow> s),
         '' at '', hex_address (pa_address p), ''  '', pad_left 8 (dec_nat (unat (pa_size p))), '' bytes  '',
         state_name (pa_state p)]
        @ (if label = ''running'' then [crlf] else []))"

definition device_partitions :: "'s device_readings_scheme \<Rightarrow> string list" where
  "device_partitions R = partition_line ''running'' (dr_running R) @ partition_line ''next'' (dr_next R)"

definition device_reset_reason :: "'s esp_readings_scheme \<Rightarrow> string list" where
  "device_reset_reason R = [reset_reason_name (er_reset_reason R)]"

text \<open>The seconds are of the clock since the console was asked for.\<close>

definition uptime_pieces :: "nat \<Rightarrow> string list" where
  "uptime_pieces seconds =
     [dec_nat (seconds div 86400), ''d '', two_digits (seconds mod 86400 div 3600), ''h '',
      two_digits (seconds mod 3600 div 60), ''m '', two_digits (seconds mod 60), ''s'']"

text \<open>The slice of the hash panics when it is shorter, as \<open>None\<close>.\<close>

definition info_pieces :: "firmware_metadata \<Rightarrow> string list option" where
  "info_pieces m =
     (if length (fm_app_elf_sha256 m) < 16 \<or> \<not> is_char_boundary (fm_app_elf_sha256 m) 16 then None
      else Some ([''project   '', fm_project_name m, crlf, ''version   '', fm_version m, crlf,
          ''idf       '', fm_idf_ver m, crlf]
        @ (case chip_name (fm_chip_id m) of
             Some name \<Rightarrow> [''chip      '', name, crlf]
           | None \<Rightarrow> [''chip      unknown ('', hex_padded 6 (unat (fm_chip_id m)), '')'' @ crlf])
        @ [''elf sha   '', take 16 (fm_app_elf_sha256 m)]))"

subsection \<open>What they say\<close>

text \<open>Every state a slot can be in reads differently, and so does not knowing.\<close>

lemma state_names_distinct:
  "state_name a = state_name b \<longleftrightarrow> a = b \<or> (\<exists>e e'. a = Inl e \<and> b = Inl e')"
  by (cases a rule: state_name.cases; cases b rule: state_name.cases; simp)

text \<open>The time since boot can be read back.\<close>

lemma uptime_total:
  "seconds div 86400 * 86400 + seconds mod 86400 div 3600 * 3600 + seconds mod 3600 div 60 * 60 + seconds mod 60
     = (seconds :: nat)"
proof -
  have "seconds mod 86400 mod 3600 = seconds mod 3600" by (rule mod_mod_cancel) simp
  moreover have "seconds mod 3600 mod 60 = seconds mod 60" by (rule mod_mod_cancel) simp
  ultimately show ?thesis
    using div_mult_mod_eq [of seconds 86400] div_mult_mod_eq [of "seconds mod 86400" 3600]
      div_mult_mod_eq [of "seconds mod 3600" 60] by linarith
qed

lemma two_digits_value: "digits_value (two_digits n) = n"
proof -
  have "digits_value (replicate k (CHR ''0'') @ ds) = digits_value ds" for k ds
    by (induction k) (simp_all add: digits_value_def)
  then show ?thesis by (simp add: two_digits_def Let_def dec_nat_value)
qed

text \<open>The heap's four lines are short enough to be shown whole, whatever the figures.\<close>

lemma dec_nat_length_le: "n < 10 ^ Suc k \<Longrightarrow> length (dec_nat n) \<le> Suc k"
proof (induction k arbitrary: n)
  case (Suc k)
  then have "n div 10 < 10 ^ Suc k" by (simp add: less_mult_imp_div_less mult.commute)
  from Suc.IH [OF this] show ?case by (subst dec_nat.simps) simp
qed (simp add: dec_nat.simps)

lemma heap_lines_shown:
  "finish (write_all (device_heap R) output_new) = concat (device_heap R)"
proof -
  have "length (pad_left 9 (dec_nat (unat (n :: usize)))) \<le> 10" for n
  proof -
    have "unat n < 2 ^ 32" using unsigned_less [of n] by simp
    then have "length (dec_nat (unat n)) \<le> 10" using dec_nat_length_le [of "unat n" 9] by simp
    then show ?thesis unfolding pad_left_def length_append length_replicate by arith
  qed
  from this [of "er_heap_total R"] this [of "er_heap_free R"] this [of "er_heap_min_free R"] this [of "er_heap_largest R"]
  have "length (concat (device_heap R)) \<le> 140" by (simp add: device_heap_def Let_def crlf_def)
  then have "write_all (device_heap R) output_new = output_new\<lparr>out_text := concat (device_heap R)\<rparr>"
    using write_all_fits [of output_new "device_heap R"]
    by (simp add: output_new_def MAX_OUTPUT_def device_heap_def Let_def pad_left_def crlf_def)
  then show ?thesis by (simp add: finish_def output_new_def)
qed

end
