(* ===== verification/Platform.thy ===== *)
theory Platform
  imports Ota Http Transport
begin

text \<open>
  \<open>src/esp.rs\<close>: the platform of a real device, which puts together the websocket transport, the
  HTTP stream and the OTA writer, each with its own part of the state; and what an installation is
  on it, from the bytes the server sent to the slot that boots.
\<close>

record esp_world =
  ep_socket :: ws_world
  ep_http :: http_world
  ep_ota :: ota_world
  ep_started :: nat

subsection \<open>A part's operations on the whole\<close>

definition on_socket :: "(ws_world, 'a) prog \<Rightarrow> ('s esp_world_scheme, 'a) prog" where
  "on_socket m = (\<lambda>s. case m (ep_socket s) of
      None \<Rightarrow> None | Some (r, w) \<Rightarrow> Some (r, s\<lparr>ep_socket := w\<rparr>))"

definition on_http :: "(http_world, 'a) prog \<Rightarrow> ('s esp_world_scheme, 'a) prog" where
  "on_http m = (\<lambda>s. case m (ep_http s) of
      None \<Rightarrow> None | Some (r, w) \<Rightarrow> Some (r, s\<lparr>ep_http := w\<rparr>))"

definition on_ota :: "(ota_world, 'a) prog \<Rightarrow> ('s esp_world_scheme, 'a) prog" where
  "on_ota m = (\<lambda>s. case m (ep_ota s) of
      None \<Rightarrow> None | Some (r, w) \<Rightarrow> Some (r, s\<lparr>ep_ota := w\<rparr>))"

subsection \<open>The platform\<close>

text \<open>\<open>Instant\<close> is the clock of theory Net; \<open>new\<close> notes when it started.\<close>

definition esp_platform_new :: "('s esp_world_scheme, unit) prog" where
  "esp_platform_new = andthen (on_socket (net_ask nt_clock Net_Clock)) (\<lambda>now. modify (\<lambda>s. s\<lparr>ep_started := now\<rparr>))"

definition esp_connect :: "config \<Rightarrow> ('s esp_world_scheme, ws_transport) prog" where
  "esp_connect cfg = on_socket (ws_connect cfg)"

definition esp_http :: "('s esp_world_scheme, unit) prog" where
  "esp_http = on_http stream_new"

definition esp_begin_update :: "('s esp_world_scheme, unit) prog" where
  "esp_begin_update = andthen (on_ota ota_begin) (\<lambda>w. on_ota (modify (\<lambda>s. s\<lparr>ow_writer := w\<rparr>)))"

definition esp_pending_verify :: "('s esp_world_scheme, pending_verify) prog" where
  "esp_pending_verify = on_ota ota_pending_verify"

definition esp_auto_revert_detected :: "('s esp_world_scheme, bool) prog" where
  "esp_auto_revert_detected = on_ota ota_auto_revert_detected"

definition esp_mark_valid :: "('s esp_world_scheme, unit) prog" where
  "esp_mark_valid = on_ota ota_mark_valid"

definition esp_restart :: "('s esp_world_scheme, unit) prog" where
  "esp_restart = on_ota ota_restart"

definition esp_sleep :: "nat \<Rightarrow> ('s esp_world_scheme, unit) prog" where
  "esp_sleep ms = on_socket (net_tell (Net_Sleep ms))"

definition esp_now_ms :: "('s esp_world_scheme, u64) prog" where
  "esp_now_ms = andthen (on_socket (net_ask nt_clock Net_Clock)) (\<lambda>now.
     andthen (gets ep_started) (\<lambda>started. ok (of_nat (now - started))))"

text \<open>Its stream and its sink, as an installation uses them.\<close>

definition esp_stream :: "'s esp_world_scheme http_stream" where
  "esp_stream = \<lparr>hs_open = (\<lambda>url. on_http (hs_open esp_http_stream url)), hs_read = (\<lambda>k. on_http (hs_read esp_http_stream k))\<rparr>"

definition esp_sink :: "'s esp_world_scheme image_sink" where
  "esp_sink = \<lparr>sk_write = (\<lambda>c. on_ota (sk_write ota_sink c)), sk_commit = on_ota (sk_commit ota_sink),
     sk_abort = on_ota (sk_abort ota_sink)\<rparr>"

text \<open>
  An installation on this platform: \<open>Agent::download\<close>'s calls of \<open>http\<close> and \<open>begin_update\<close>, and
  \<open>install\<close> on what they gave. The progress handler \<open>P\<close> is any; the agent's own, its pump, is in
  theory Agent.
\<close>

definition esp_download ::
    "(bytes \<Rightarrow> bytes) \<Rightarrow> update_payload \<Rightarrow> u8 \<Rightarrow> 's esp_world_scheme progress \<Rightarrow> ('s esp_world_scheme, install_report) prog" where
  "esp_download digest u step_percent P =
     andthen esp_http (\<lambda>_. andthen esp_begin_update (\<lambda>_. install digest u esp_stream esp_sink step_percent P))"

subsection \<open>Parts keep out of each other's way\<close>

definition same_parts :: "'s esp_world_scheme \<Rightarrow> 's esp_world_scheme \<Rightarrow> bool" where
  "same_parts s t \<longleftrightarrow> ep_http t = ep_http s \<and> ep_ota t = ep_ota s"

definition same_ota :: "'s esp_world_scheme \<Rightarrow> 's esp_world_scheme \<Rightarrow> bool" where
  "same_ota s t \<longleftrightarrow> ep_ota t = ep_ota s"

interpretation same_parts: run_relation same_parts
  by unfold_locales (simp_all add: same_parts_def)

interpretation same_ota: run_relation same_ota
  by unfold_locales (simp_all add: same_ota_def)

text \<open>What the progress handler must not touch: the stream and the slot.\<close>

definition minds_its_own :: "'s esp_world_scheme progress \<Rightarrow> bool" where
  "minds_its_own P \<longleftrightarrow> stays same_parts (pg_tick P) \<and> (\<forall>st p. stays same_parts (pg_report P st p)) \<and>
     (\<forall>d. stays same_parts (pg_wait P d)) \<and> (\<forall>line. stays same_parts (pg_warn P line))"

lemma on_ota_Some: "on_ota m s = Some (r, t) \<longleftrightarrow> (\<exists>w. m (ep_ota s) = Some (r, w) \<and> t = s\<lparr>ep_ota := w\<rparr>)"
  by (auto simp: on_ota_def split: option.splits)

lemma on_http_Some: "on_http m s = Some (r, t) \<longleftrightarrow> (\<exists>w. m (ep_http s) = Some (r, w) \<and> t = s\<lparr>ep_http := w\<rparr>)"
  by (auto simp: on_http_def split: option.splits)

lemma stays_on_http: "stays same_ota (on_http m)"
  by (rule staysI) (auto simp: on_http_Some same_ota_def)

lemma same_parts_ota: "stays same_parts m \<Longrightarrow> stays same_ota m"
  by (auto simp: stays_def same_parts_def same_ota_def)

lemma open_image_same_ota:
  assumes "minds_its_own P"
  shows "stays same_ota (open_image esp_stream P url waits)"
proof (induction waits)
  case (Cons w waits)
  have "stays same_ota (pg_warn P line)" "stays same_ota (pg_wait P d)" for line d
    using assms by (auto simp: minds_its_own_def intro!: same_parts_ota)
  then show ?case
    using Cons by (auto simp: esp_stream_def Let_def intro!: same_ota.stays_andthen same_ota.stays_attempt stays_on_http
        same_ota.stays_ok same_ota.stays_fail split: sum.split)
qed (simp add: esp_stream_def stays_on_http)

subsection \<open>Copying, part by part\<close>

lemma stream_read_Inr:
  assumes "stream_read k h = Some (Inr b, w)"
  shows "\<exists>c. hw_connection h = Some c \<and> w = h\<lparr>hw_calls := hw_calls h @ [Http_Read c k (Inr b)]\<rparr>"
  using assms
  by (auto simp: stream_read_def andthen_run prog_run http_ask_def download_result_def split: option.splits sum.splits)

lemma copy_report_keeps:
  assumes "minds_its_own P" and "copy_report P expected l s = Some (r, t)"
  shows "same_parts s t \<and> (\<forall>l'. r = Inr l' \<longrightarrow> cp_written l' = cp_written l \<and> cp_hasher l' = cp_hasher l)"
proof -
  have report: "stays same_parts (pg_report P st p)" for st p using assms(1) by (simp add: minds_its_own_def)
  show ?thesis
    using assms(2) same_parts.rel_refl staysD [OF report]
    by (auto simp: copy_report_def andthen_run prog_run split: option.splits if_splits prod.splits sum.splits)
qed

definition fed :: "bytes list \<Rightarrow> nat \<Rightarrow> 's esp_world_scheme \<Rightarrow> 's esp_world_scheme \<Rightarrow> bool" where
  "fed cs c s t \<longleftrightarrow> for_each cs ota_write (ep_ota s) = Some (Inr (), ep_ota t) \<and>
     ep_http t = (ep_http s)\<lparr>hw_calls := hw_calls (ep_http s) @ map (\<lambda>b. Http_Read c CHUNK_SIZE (Inr b)) cs\<rparr>"

lemma copy_turn_again:
  assumes "minds_its_own P" and "copy_turn digest esp_stream esp_sink P expected l s = Some (Inr (Inl l'), t)"
  shows "\<exists>c b. b \<noteq> [] \<and> hw_connection (ep_http s) = Some c \<and> fed [b] c s t \<and>
    cp_written l' = cp_written l + of_nat (length b) \<and> sha_inner (cp_hasher l') = sha_inner (cp_hasher l) @ b"
proof -
  have tick: "stays same_parts (pg_tick P)" using assms(1) by (simp add: minds_its_own_def)
  from assms(2) obtain b h where read: "stream_read CHUNK_SIZE (ep_http s) = Some (Inr b, h)" and b: "b \<noteq> []"
    and chunk: "copy_chunk esp_sink P expected l b (s\<lparr>ep_http := h\<rparr>) = Some (Inr l', t)"
    by (auto simp: copy_turn_def andthen_Inr esp_stream_def esp_http_stream_def on_http_Some prog_run split: if_splits)
  obtain c where c: "hw_connection (ep_http s) = Some c"
    "h = (ep_http s)\<lparr>hw_calls := hw_calls (ep_http s) @ [Http_Read c CHUNK_SIZE (Inr b)]\<rparr>"
    using stream_read_Inr [OF read] by blast
  let ?l = "l\<lparr>cp_hasher := sha256_update (cp_hasher l) b\<rparr>"
  from chunk obtain w u where w: "ota_write b (ep_ota s) = Some (Inr (), w)"
    and u: "pg_tick P (s\<lparr>ep_http := h, ep_ota := w\<rparr>) = Some (Inr (), u)"
    and report: "copy_report P expected (?l\<lparr>cp_written := cp_written l + of_nat (length b)\<rparr>) u = Some (Inr l', t)"
    by (auto simp: copy_chunk_def Let_def andthen_Inr esp_sink_def ota_sink_def on_ota_Some)
  have "same_parts (s\<lparr>ep_http := h, ep_ota := w\<rparr>) t"
    using same_parts.rel_trans [OF staysD [OF tick u]] copy_report_keeps [OF assms(1) report] by blast
  then have "ep_http t = h" "ep_ota t = w" by (simp_all add: same_parts_def)
  moreover have "cp_written l' = cp_written l + of_nat (length b)" "sha_inner (cp_hasher l') = sha_inner (cp_hasher l) @ b"
    using copy_report_keeps [OF assms(1) report] by (simp_all add: sha256_update_def)
  ultimately show ?thesis using b c w by (auto simp: fed_def andthen_run prog_run)
qed

lemma fed_append: "fed as c s t \<Longrightarrow> fed bs c t u \<Longrightarrow> fed (as @ bs) c s u"
proof -
  have "for_each (as @ bs) f w = andthen (for_each as f) (\<lambda>_. for_each bs f) w" for f :: "bytes \<Rightarrow> (ota_world, unit) prog" and w
    by (induction as arbitrary: w) (simp_all add: andthen_run prog_run split: option.split sum.split)
  then show "fed as c s t \<Longrightarrow> fed bs c t u \<Longrightarrow> fed (as @ bs) c s u"
    by (simp add: fed_def andthen_run)
qed

text \<open>A copy that ends well: what was read, each chunk written, and an empty read last.\<close>

lemma copy_image_fed:
  assumes "minds_its_own P" and "iterate (copy_turn digest esp_stream esp_sink P expected) l s = Some (Inr (w, actual), t)"
  shows "\<exists>c cs u. [] \<notin> set cs \<and> fed cs c s u \<and> ep_ota t = ep_ota u \<and>
    hw_calls (ep_http t) = hw_calls (ep_http u) @ [Http_Read c CHUNK_SIZE (Inr [])] \<and>
    w = cp_written l + of_nat (length (concat cs)) \<and>
    actual = hex_upper (digest (sha_inner (cp_hasher l) @ concat cs))"
proof -
  have "\<forall>w actual. r = Inr (w, actual) \<longrightarrow> (\<exists>c cs u. hw_connection (ep_http s) = Some c \<and> [] \<notin> set cs \<and> fed cs c s u \<and>
      ep_ota t = ep_ota u \<and> hw_calls (ep_http t) = hw_calls (ep_http u) @ [Http_Read c CHUNK_SIZE (Inr [])] \<and>
      w = cp_written l + of_nat (length (concat cs)) \<and>
      actual = hex_upper (digest (sha_inner (cp_hasher l) @ concat cs)))"
    if "iterate (copy_turn digest esp_stream esp_sink P expected) l s = Some (r, t)" for r t
    using that
  proof (induction rule: iterate_induct)
    case (again l s l' v r t)
    obtain c b where b: "b \<noteq> []" "hw_connection (ep_http s) = Some c" "fed [b] c s v"
      "cp_written l' = cp_written l + of_nat (length b)" "sha_inner (cp_hasher l') = sha_inner (cp_hasher l) @ b"
      using copy_turn_again [OF assms(1) again(1)] by blast
    then have v: "hw_connection (ep_http v) = Some c" by (simp add: fed_def)
    show ?case
    proof (intro allI impI)
      fix w actual
      assume "r = Inr (w, actual)"
      with again(3) v obtain cs u where "[] \<notin> set cs" "fed cs c v u" "ep_ota t = ep_ota u"
        "hw_calls (ep_http t) = hw_calls (ep_http u) @ [Http_Read c CHUNK_SIZE (Inr [])]"
        "w = cp_written l' + of_nat (length (concat cs))" "actual = hex_upper (digest (sha_inner (cp_hasher l') @ concat cs))"
        by auto
      then show "\<exists>c cs u. hw_connection (ep_http s) = Some c \<and> [] \<notin> set cs \<and> fed cs c s u \<and>
          ep_ota t = ep_ota u \<and> hw_calls (ep_http t) = hw_calls (ep_http u) @ [Http_Read c CHUNK_SIZE (Inr [])] \<and>
          w = cp_written l + of_nat (length (concat cs)) \<and>
          actual = hex_upper (digest (sha_inner (cp_hasher l) @ concat cs))"
        using b fed_append [OF b(3)] by (intro exI [of _ c] exI [of _ "b # cs"] exI [of _ u]) (auto simp: add.assoc)
    qed
  next
    case (leave l s a t)
    from leave obtain h where read: "stream_read CHUNK_SIZE (ep_http s) = Some (Inr [], h)"
      and a: "a = (cp_written l, finalize_hex_upper digest (cp_hasher l))" "t = s\<lparr>ep_http := h\<rparr>"
      by (auto simp: copy_turn_def andthen_Inr esp_stream_def esp_http_stream_def on_http_Some prog_run split: if_splits)
    obtain c where "hw_connection (ep_http s) = Some c"
      "h = (ep_http s)\<lparr>hw_calls := hw_calls (ep_http s) @ [Http_Read c CHUNK_SIZE (Inr [])]\<rparr>"
      using stream_read_Inr [OF read] by blast
    then show ?case using a
      by (auto simp: fed_def finalize_hex_upper_def prog_run intro!: exI [of _ "[]"] exI [of _ s])
  qed simp
  with assms(2) show ?thesis by blast
qed

subsection \<open>An installation, end to end\<close>

lemma verified_image:
  assumes "verify_image u expected w actual = Inr rep"
  shows "w \<noteq> 0 \<and> rep_bytes rep = w \<and> rep_checksum rep = actual \<and>
    (\<forall>n. expected = Some n \<longrightarrow> w = n) \<and> (\<forall>ad. up_checksum u = Some ad \<longrightarrow> checksum_matches ad actual)"
  using assms by (auto simp: verify_image_def split: if_splits option.splits)

lemma install_fed:
  assumes P: "minds_its_own P" and run: "install digest u esp_stream esp_sink step_percent P s = Some (Inr rep, t)"
  shows "\<exists>c cs before. [] \<notin> set cs \<and> cs \<noteq> [] \<and>
    andthen (for_each cs ota_write) (\<lambda>_. ota_commit) (ep_ota s) = Some (Inr (), ep_ota t) \<and>
    hw_calls (ep_http t) = before @ map (\<lambda>b. Http_Read c CHUNK_SIZE (Inr b)) (cs @ [[]]) \<and>
    rep_bytes rep = of_nat (length (concat cs)) \<and> rep_checksum rep = hex_upper (digest (concat cs)) \<and>
    (\<forall>n. up_size u = Some n \<longrightarrow> of_nat (length (concat cs)) = n) \<and>
    (\<forall>ad. up_checksum u = Some ad \<longrightarrow> checksum_matches ad (hex_upper (digest (concat cs))))"
proof -
  from run obtain url uuid v where download: "download_image digest u url esp_stream esp_sink step_percent P s = Some (Inr rep, v)"
    and commit: "sk_commit esp_sink v = Some (Inr (), t)"
    by (auto simp: install_def attempt_Some andthen_run prog_run split: option.splits prod.splits sum.splits)
  from download obtain n x w actual where opened: "open_image esp_stream P url RETRY_WAITS s = Some (Inr n, x)"
    and copied: "copy_image digest esp_stream esp_sink P (expected_size u n) step_percent x = Some (Inr (w, actual), v)"
    and verified: "verify_image u (expected_size u n) w actual = Inr rep"
    by (auto simp: download_image_def Let_def andthen_Inr prog_run split: prod.splits)
  have x: "ep_ota x = ep_ota s"
    using staysD [OF open_image_same_ota [OF P] opened] by (simp add: same_ota_def)
  from copy_image_fed [OF P copied [unfolded copy_image_def]] obtain c cs y where cs: "[] \<notin> set cs" "fed cs c x y"
    "ep_ota v = ep_ota y" "hw_calls (ep_http v) = hw_calls (ep_http y) @ [Http_Read c CHUNK_SIZE (Inr [])]"
    and w: "w = of_nat (length (concat cs))" "actual = hex_upper (digest (concat cs))"
    by (auto simp: copy_start_def sha256_new_def)
  note ver = verified_image [OF verified]
  have "cs \<noteq> []" using ver w by auto
  moreover have "andthen (for_each cs ota_write) (\<lambda>_. ota_commit) (ep_ota s) = Some (Inr (), ep_ota t)"
    using cs(2,3) x commit by (auto simp: fed_def andthen_run esp_sink_def ota_sink_def on_ota_Some)
  moreover have "hw_calls (ep_http t) = hw_calls (ep_http x) @ map (\<lambda>b. Http_Read c CHUNK_SIZE (Inr b)) (cs @ [[]])"
    using cs(2,4) commit by (auto simp: fed_def esp_sink_def on_ota_Some)
  moreover have "of_nat (length (concat cs)) = n'" if "up_size u = Some n'" for n'
    using ver w that by (simp add: expected_size_def)
  moreover have "rep_bytes rep = of_nat (length (concat cs))" "rep_checksum rep = hex_upper (digest (concat cs))"
    "\<forall>ad. up_checksum u = Some ad \<longrightarrow> checksum_matches ad (hex_upper (digest (concat cs)))"
    using ver w by simp_all
  ultimately show ?thesis using cs(1) by blast
qed

subsection \<open>Properties\<close>

text \<open>
  C4: a full image that boots is the one served, and what was served was checked. For an application
  that, when told of progress, leaves the network and the flash alone: when a download and
  installation on the device succeed, there is a list of chunks that are the answers of the last
  reads, in order and up to the end of the body, all from one connection; their bytes are as many as
  was announced and their digest is the one advertised; and, if they are a full image and not a
  patch, ESP-IDF was asked to begin, to write exactly these chunks through the handle it gave, to
  end, and only then to boot that partition.
\<close>

theorem booted_image_is_served_image:
  assumes "minds_its_own P" and "esp_download digest u step_percent P s = Some (Inr rep, t)"
  shows "\<exists>c cs before. [] \<notin> set cs \<and> cs \<noteq> [] \<and>
    hw_calls (ep_http t) = before @ map (\<lambda>b. Http_Read c CHUNK_SIZE (Inr b)) (cs @ [[]]) \<and>
    rep_bytes rep = of_nat (length (concat cs)) \<and>
    (\<forall>n. up_size u = Some n \<longrightarrow> of_nat (length (concat cs)) = n) \<and>
    (\<forall>ad. up_checksum u = Some ad \<longrightarrow> checksum_matches ad (hex_upper (digest (concat cs)))) \<and>
    (classify (hd (hd cs)) = Payload_Image \<longrightarrow> (\<exists>part h. ow_calls (ep_ota t) = ow_calls (ep_ota s) @
       Idf_NextUpdatePartition (Some part) # Idf_Begin part OTA_WITH_SEQUENTIAL_WRITES (Inr h) #
       map (\<lambda>b. Idf_Write h b ESP_OK) cs @ [Idf_End h ESP_OK, Idf_SetBoot part ESP_OK]))"
proof -
  from assms(2) obtain v w where "esp_http s = Some (Inr (), v)" and "esp_begin_update v = Some (Inr (), w)"
    and install: "install digest u esp_stream esp_sink step_percent P w = Some (Inr rep, t)"
    by (auto simp: esp_download_def andthen_Inr)
  then obtain part where part: "ow_writer (ep_ota w) = writer_new part"
    "ow_calls (ep_ota w) = ow_calls (ep_ota s) @ [Idf_NextUpdatePartition (Some part)]"
    by (auto simp: esp_http_def esp_begin_update_def on_http_Some on_ota_Some andthen_run ota_begin_def idf_ask_def
        Let_def prog_run split: option.splits)
  from install_fed [OF assms(1) install] obtain c cs before where cs: "[] \<notin> set cs" "cs \<noteq> []"
    "andthen (for_each cs ota_write) (\<lambda>_. ota_commit) (ep_ota w) = Some (Inr (), ep_ota t)"
    and rest: "hw_calls (ep_http t) = before @ map (\<lambda>b. Http_Read c CHUNK_SIZE (Inr b)) (cs @ [[]])"
    "rep_bytes rep = of_nat (length (concat cs))" "\<forall>n. up_size u = Some n \<longrightarrow> of_nat (length (concat cs)) = n"
    "\<forall>ad. up_checksum u = Some ad \<longrightarrow> checksum_matches ad (hex_upper (digest (concat cs)))"
    by blast
  obtain b bs where b: "cs = b # bs" using cs(2) by (cases cs) auto
  have "\<exists>h. ow_calls (ep_ota t) = ow_calls (ep_ota s) @ Idf_NextUpdatePartition (Some part) #
      Idf_Begin part OTA_WITH_SEQUENTIAL_WRITES (Inr h) # map (\<lambda>b. Idf_Write h b ESP_OK) cs @
      [Idf_End h ESP_OK, Idf_SetBoot part ESP_OK]" if "classify (hd (hd cs)) = Payload_Image"
    using full_image [OF cs(3) [unfolded b] part(1) cs(1) [unfolded b]] that part(2)
    by (auto simp: b classify_def split: if_splits)
  then show ?thesis using cs(1,2) rest by blast
qed

text \<open>An example: a server with a two-byte image, served in one read.\<close>

definition demo_image_server :: http_client where
  "demo_image_server = \<lparr>hc_new = (\<lambda>h. Some (Inr 3)), hc_request = (\<lambda>h c url. Some None),
     hc_response = (\<lambda>h c. Some None), hc_status = (\<lambda>h c. Some 200), hc_header = (\<lambda>h c name. Some None),
     hc_read = (\<lambda>h c k. Some (Inr (if length h = 5 then [0xE9, 1] else [])))\<rparr>"

definition demo_device :: esp_world where
  "demo_device = \<lparr>ep_socket = demo_socket, ep_http = \<lparr>hw_client = demo_image_server, hw_calls = [], hw_connection = None\<rparr>,
     ep_ota = demo_ota, ep_started = 0\<rparr>"

definition quiet_progress :: "esp_world progress" where
  "quiet_progress = closure_progress (\<lambda>_. ok ()) (\<lambda>_. ok ()) (\<lambda>_ _. ok ())"

lemma quiet_minds: "minds_its_own quiet_progress"
  by (simp add: minds_its_own_def quiet_progress_def closure_progress_def same_parts.stays_ok)

lemma demo_server_answers:
  "hc_new demo_image_server h = Some (Inr 3)" "hc_request demo_image_server h c url = Some None"
  "hc_response demo_image_server h c = Some None" "hc_status demo_image_server h c = Some 200"
  "hc_header demo_image_server h c name = Some None"
  "hc_read demo_image_server h c k = Some (Inr (if length h = 5 then [0xE9, 1] else []))"
  by (simp_all add: demo_image_server_def)

definition demo_opened :: http_world where
  "demo_opened = \<lparr>hw_client = demo_image_server,
     hw_calls = [Http_New (Inr 3), Http_Request 3 ''http://a/b'' None, Http_Response 3 None, Http_Status 3 200,
       Http_Header 3 ''Content-Length'' None], hw_connection = Some 3\<rparr>"

lemma demo_stream_opens:
  "\<exists>v. stream_new (ep_http demo_device) = Some (Inr (), v) \<and> stream_open ''http://a/b'' v = Some (Inr None, demo_opened)"
  by (simp add: stream_new_def stream_open_def request_def request_on_def header_def http_runs demo_device_def
      demo_opened_def demo_server_answers)

definition demo_read :: "nat \<Rightarrow> http_world" where
  "demo_read k = demo_opened\<lparr>hw_calls := hw_calls demo_opened @
     take k [Http_Read 3 CHUNK_SIZE (Inr [0xE9, 1]), Http_Read 3 CHUNK_SIZE (Inr [])]\<rparr>"

lemma demo_stream_reads:
  "stream_read CHUNK_SIZE demo_opened = Some (Inr [0xE9, 1], demo_read 1)"
  "stream_read CHUNK_SIZE (demo_read 1) = Some (Inr [], demo_read 2)"
  by (simp_all add: stream_read_def http_runs demo_opened_def demo_read_def demo_server_answers)

definition demo_begun :: ota_world where
  "demo_begun = demo_ota\<lparr>ow_calls := [Idf_NextUpdatePartition (Some 1)]\<rparr>"

lemma demo_ota_runs:
  "\<exists>v w. ota_begin demo_ota = Some (Inr (writer_new 1), demo_begun) \<and> ota_write [0xE9, 1] demo_begun = Some (Inr (), v) \<and>
     ota_commit v = Some (Inr (), w)"
  by (simp add: ota_begin_def demo_begun_def demo_ota_def ota_write_def ota_open_def decide_mode_def classify_def
      ESP_IMAGE_MAGIC_def write_chunk_def writer_new_def ota_runs slot_handle_def demo_idf_def ESP_OK_def ota_commit_def
      finalize_patch_def)

definition demo_served :: update_payload where
  "demo_served = demo_update\<lparr>up_size := None\<rparr>"

lemma demo_download_runs:
  "\<exists>t rep. esp_download (\<lambda>_. []) demo_served 5 quiet_progress demo_device = Some (Inr rep, t)"
proof -
  obtain v where http: "stream_new (ep_http demo_device) = Some (Inr (), v)"
    "stream_open ''http://a/b'' v = Some (Inr None, demo_opened)" using demo_stream_opens by blast
  obtain x w where ota: "ota_begin demo_ota = Some (Inr (writer_new 1), demo_begun)"
    "ota_write [0xE9, 1] demo_begun = Some (Inr (), x)" "ota_commit x = Some (Inr (), w)" using demo_ota_runs by blast
  have begun: "demo_begun\<lparr>ow_writer := writer_new 1\<rparr> = demo_begun" by (simp add: demo_begun_def demo_ota_def)
  let ?s = "demo_device\<lparr>ep_http := v, ep_ota := demo_begun\<rparr>"
  have start: "esp_http demo_device = Some (Inr (), demo_device\<lparr>ep_http := v\<rparr>)"
    "esp_begin_update (demo_device\<lparr>ep_http := v\<rparr>) = Some (Inr (), ?s)"
    using http ota begun by (simp_all add: esp_http_def esp_begin_update_def on_http_def on_ota_def andthen_run prog_run
        demo_device_def)
  have "open_image esp_stream quiet_progress ''http://a/b'' RETRY_WAITS ?s = Some (Inr None, ?s\<lparr>ep_http := demo_opened\<rparr>)"
    using http by (simp add: RETRY_WAITS_def andthen_run attempt_def esp_stream_def esp_http_stream_def on_http_def prog_run)
  moreover have "copy_image (\<lambda>_. []) esp_stream esp_sink quiet_progress None 5 (?s\<lparr>ep_http := demo_opened\<rparr>) =
      Some (Inr (2, []), ?s\<lparr>ep_http := demo_read 2, ep_ota := x\<rparr>)"
    using demo_stream_reads ota
    by (simp add: copy_image_def iterate.simps copy_turn_def copy_chunk_def copy_report_def copy_start_def Let_def
        andthen_run prog_run esp_stream_def esp_http_stream_def on_http_def esp_sink_def ota_sink_def on_ota_def
        quiet_progress_def closure_progress_def finalize_hex_upper_def hex_upper_def)
  ultimately have "\<exists>t rep. install (\<lambda>_. []) demo_served esp_stream esp_sink 5 quiet_progress ?s = Some (Inr rep, t)"
    using ota by (simp add: install_def actionable_def demo_served_def demo_update_def download_image_def expected_size_def
        verify_image_def andthen_run attempt_def prog_run esp_sink_def ota_sink_def on_ota_def)
  then show ?thesis using start by (simp add: esp_download_def andthen_run)
qed

theorem booted_image_is_served_image_witness:
  "\<exists>t c cs before. cs \<noteq> [] \<and> hw_calls (ep_http t) = before @ map (\<lambda>b. Http_Read c CHUNK_SIZE (Inr b)) (cs @ [[]]) \<and>
     (\<exists>rep. esp_download (\<lambda>_. []) demo_served 5 quiet_progress demo_device = Some (Inr rep, t) \<and>
        rep_bytes rep = of_nat (length (concat cs)))"
proof -
  obtain t rep where run: "esp_download (\<lambda>_. []) demo_served 5 quiet_progress demo_device = Some (Inr rep, t)"
    using demo_download_runs by blast
  from booted_image_is_served_image [OF quiet_minds run] run show ?thesis by blast
qed

end
