(* ===== verification/Boot.thy ===== *)
theory Boot
  imports Session Platform
begin

text \<open>
  Starting up: the agent an application builds (\<open>Agent::new\<close> and its \<open>with_\<close> methods in
  \<open>agent.rs\<close>), the entry points of \<open>esp.rs\<close> that read the identity and the running image
  and run it, and the logger of \<open>logging::install\<close>.
\<close>

subsection \<open>Building an agent\<close>

text \<open>
  The agent's fields are part of the state it runs in. A provider given to it is a call of the world,
  and the field says that there is one.
\<close>

definition agent_new ::
    "config \<Rightarrow> firmware_metadata \<Rightarrow> 's agent_world_scheme \<Rightarrow> 's agent_world_scheme" where
  "agent_new config metadata s = s\<lparr>ag_location := False, ag_health := False, ag_identify := False,
     ag_logs := None, ag_console := None, ag_config := config, ag_metadata := metadata\<rparr>"

definition with_location :: "'s agent_world_scheme \<Rightarrow> 's agent_world_scheme" where
  "with_location s = s\<lparr>ag_location := True\<rparr>"

definition with_health :: "'s agent_world_scheme \<Rightarrow> 's agent_world_scheme" where
  "with_health s = s\<lparr>ag_health := True\<rparr>"

definition with_logs :: "log_buffer \<Rightarrow> 's agent_world_scheme \<Rightarrow> 's agent_world_scheme" where
  "with_logs logs s = s\<lparr>ag_logs := Some logs\<rparr>"

definition on_identify :: "'s agent_world_scheme \<Rightarrow> 's agent_world_scheme" where
  "on_identify s = s\<lparr>ag_identify := True\<rparr>"

subsection \<open>The entry points\<close>

text \<open>The platform made here is the world's; NVS and the image are what ESP-IDF answers.\<close>

definition esp_agent_with ::
    "'p image_calls \<Rightarrow> config \<Rightarrow> 's agent_world_scheme \<Rightarrow> error + 's agent_world_scheme" where
  "esp_agent_with idf config s = (case running_firmware idf of
      Inl e \<Rightarrow> Inl e
    | Inr metadata \<Rightarrow> Inr (agent_new config metadata s))"

text \<open>\<open>loaded\<close> is what an earlier call left in \<open>identity::load\<close>'s lock.\<close>

definition esp_agent ::
    "'nvs nvs_calls \<Rightarrow> 'p image_calls \<Rightarrow> credentials option \<Rightarrow> string \<Rightarrow> 's agent_world_scheme
       \<Rightarrow> (error + 's agent_world_scheme) \<times> credentials option" where
  "esp_agent N idf loaded host s = (case identity_load N loaded of
      (Inl e, loaded) \<Rightarrow> (Inl e, loaded)
    | (Inr credentials, loaded) \<Rightarrow> (esp_agent_with idf (config_new host credentials) s, loaded))"

definition esp_run ::
    "'nvs nvs_calls \<Rightarrow> 'p image_calls \<Rightarrow> credentials option \<Rightarrow> string \<Rightarrow> ('s agent_world_scheme, stopped) prog" where
  "esp_run N idf loaded host s = (case fst (esp_agent N idf loaded host s) of
      Inl e \<Rightarrow> Some (Inl e, s)
    | Inr agent \<Rightarrow> run agent)"

subsection \<open>The logger\<close>

text \<open>
  The \<open>log\<close> crate's \<open>set_boxed_logger\<close>, which says whether it took the logger, and
  \<open>set_max_level\<close>; a level filter is \<open>None\<close> for \<open>Off\<close>.
\<close>

datatype logger_call =
    Logger_Set bool
  | Logger_MaxLevel "level option"
  | Logger_Warned string

definition install_with_capacity ::
    "bool \<Rightarrow> level option \<Rightarrow> level \<Rightarrow> nat \<Rightarrow> log_buffer \<times> logger_call list" where
  "install_with_capacity accepted max_level send_from capacity =
     (with_threshold capacity send_from, Logger_Set accepted #
       (if accepted then [Logger_MaxLevel max_level]
        else [Logger_Warned ''a logger was already installed; device logs will not reach NervesHub'']))"

definition install_logger :: "bool \<Rightarrow> level option \<Rightarrow> level \<Rightarrow> log_buffer \<times> logger_call list" where
  "install_logger accepted max_level send_from =
     install_with_capacity accepted max_level send_from DEFAULT_CAPACITY"

subsection \<open>What starting up promises\<close>

text \<open>A device without an identity, or without its image's description, never touches the network.\<close>

lemma esp_run_refused:
  "fst (esp_agent N idf loaded host s) = Inl e \<Longrightarrow> esp_run N idf loaded host s = Some (Inl e, s)"
  by (simp add: esp_run_def)

text \<open>
  However it ends, it restarted exactly when it says that it is rebooting, and as the last thing
  it did since it was called.
\<close>

lemma agent_new_hist [simp]: "w_hist (agent_new config metadata s) = w_hist s"
  by (simp add: agent_new_def)

lemma esp_agent_Inr:
  assumes "fst (esp_agent N idf loaded host s) = Inr agent"
  shows "\<exists>credentials metadata. agent = agent_new (config_new host credentials) metadata s \<and>
    running_firmware idf = Inr metadata \<and> fst (identity_load N loaded) = Inr credentials"
  using assms by (auto simp: esp_agent_def esp_agent_with_def split: prod.splits sum.splits)

lemma esp_run_restart:
  assumes run: "esp_run N idf loaded host s = Some (r, t)"
  shows "restarted (r = Inr Stopped_Rebooting) s t"
proof (cases "fst (esp_agent N idf loaded host s)")
  case (Inl e)
  with run show ?thesis by (auto simp: esp_run_def restarted_def)
next
  case (Inr agent)
  with run have "restarts (\<lambda>a. a = Stopped_Rebooting) run" "run agent = Some (r, t)"
    by (auto simp: esp_run_def restarts_run)
  then have "restarted (case r of Inr a \<Rightarrow> a = Stopped_Rebooting | Inl _ \<Rightarrow> False) agent t"
    unfolding restarts_def by blast
  moreover have "w_hist agent = w_hist s" using esp_agent_Inr [OF Inr] by auto
  ultimately show ?thesis by (cases r) (simp_all add: restarted_def)
qed

text \<open>An agent made later, whatever NVS then says, signs in with the same credentials.\<close>

lemma esp_agent_again:
  assumes "esp_agent N idf loaded host s = (Inr agent, loaded')"
  shows "fst (esp_agent N' idf loaded' host s) = Inr agent"
proof -
  obtain credentials where load: "identity_load N loaded = (Inr credentials, loaded')"
    and made: "esp_agent_with idf (config_new host credentials) s = Inr agent"
    using assms by (auto simp: esp_agent_def split: prod.splits sum.splits)
  from identity_load_once [OF load, of N'] made show ?thesis by (simp add: esp_agent_def)
qed

text \<open>An agent as it is made offers nothing: no extension, no console, no log.\<close>

lemma agent_new_offers_nothing:
  assumes "fst (esp_agent N idf loaded host s) = Inr agent"
  shows "cfg_extensions (ag_config agent) = none_enabled \<and> ag_console agent = None \<and> ag_logs agent = None"
  using esp_agent_Inr [OF assms] by (auto simp: agent_new_def config_new_def)

end
