(* ===== verification/Protocol.thy ===== *)
theory Protocol
  imports Session
begin

text \<open>
  What a session says to NervesHub and when: each frame it sends is a message that the channels'
  protocol allows after what was sent and received before it. The link's fields are related to the
  session's past by \<open>informed\<close>, which every operation keeps.
\<close>

subsection \<open>The protocol\<close>

text \<open>What was sent and what was received in a session's past, as messages.\<close>

definition said :: "codec \<Rightarrow> serializer \<Rightarrow> history \<Rightarrow> message \<Rightarrow> bool" where
  "said C z past m \<longleftrightarrow> (\<exists>f r. Ev_Sent f r \<in> set past \<and> encode_as C m z = Inr f)"

definition heard :: "codec \<Rightarrow> history \<Rightarrow> message \<Rightarrow> bool" where
  "heard C past m \<longleftrightarrow> (\<exists>f. Ev_Received (Inr (Some f)) \<in> set past \<and> decode_frame C f = Inr m)"

text \<open>A join carries its own reference in both places.\<close>

definition is_join :: "string \<Rightarrow> string \<Rightarrow> message \<Rightarrow> bool" where
  "is_join topic reference m \<longleftrightarrow> msg_topic m = topic \<and> msg_event m = EV_JOIN \<and>
     msg_reference m = Some reference \<and> msg_join_ref m = Some reference"

definition join_said :: "codec \<Rightarrow> serializer \<Rightarrow> history \<Rightarrow> string \<Rightarrow> string \<Rightarrow> bool" where
  "join_said C z past topic reference \<longleftrightarrow> (\<exists>m. is_join topic reference m \<and> said C z past m)"

text \<open>A label of a topic's messages: the reference of a join sent on it, or none.\<close>

definition label :: "codec \<Rightarrow> serializer \<Rightarrow> history \<Rightarrow> string \<Rightarrow> string option \<Rightarrow> bool" where
  "label C z past topic l \<longleftrightarrow> (\<forall>reference. l = Some reference \<longrightarrow> join_said C z past topic reference)"

text \<open>The device's own join was answered with \<open>ok\<close>.\<close>

definition accepted :: "codec \<Rightarrow> history \<Rightarrow> bool" where
  "accepted C past \<longleftrightarrow> (\<exists>m. heard C past m \<and> is_ok_reply_to m first_ref \<and>
     msg_topic m \<notin> {EXTENSIONS_TOPIC, CONSOLE_TOPIC, CONTROL_TOPIC})"

text \<open>The server's answer to an extensions join named the extension.\<close>

definition names_key :: "message \<Rightarrow> string \<Rightarrow> bool" where
  "names_key m key \<longleftrightarrow> msg_topic m = EXTENSIONS_TOPIC \<and> msg_event m = EV_REPLY \<and>
     (\<exists>ks. Option.bind (reply_response m) as_array = Some ks \<and> JString key \<in> set ks)"

definition attaches :: "codec \<Rightarrow> serializer \<Rightarrow> history \<Rightarrow> string \<Rightarrow> bool" where
  "attaches C z past key \<longleftrightarrow> (\<exists>m. heard C past m \<and> names_key m key \<and>
     label C z past EXTENSIONS_TOPIC (msg_reference m))"

definition reports :: "string \<Rightarrow> string \<Rightarrow> bool" where
  "reports key event \<longleftrightarrow> event = key @ '':attached'' \<or> (key = GEO \<and> event = ''geo:location:update'') \<or>
     (key = HEALTH \<and> event = ''health:report'') \<or> (key = LOGGING \<and> event = ''logging:send'')"

text \<open>
  The messages of each topic. The device's come under its join, which is the session's first; the
  two other channels are joined only after that join was accepted; an extension's reports wait for
  the server to have attached it; and the console never speaks first.
\<close>

definition device_message :: "codec \<Rightarrow> serializer \<Rightarrow> history \<Rightarrow> message \<Rightarrow> bool" where
  "device_message C z past m \<longleftrightarrow> is_join DEVICE_TOPIC first_ref m \<or>
     (msg_topic m = DEVICE_TOPIC \<and> msg_event m \<noteq> EV_JOIN \<and> msg_join_ref m = Some first_ref \<and>
      join_said C z past DEVICE_TOPIC first_ref)"

definition heartbeat_message :: "message \<Rightarrow> bool" where
  "heartbeat_message m \<longleftrightarrow> msg_topic m = CONTROL_TOPIC \<and> msg_event m = EV_HEARTBEAT \<and> msg_join_ref m = None"

definition extension_message :: "codec \<Rightarrow> serializer \<Rightarrow> history \<Rightarrow> message \<Rightarrow> bool" where
  "extension_message C z past m \<longleftrightarrow>
     (accepted C past \<and> (\<exists>reference. is_join EXTENSIONS_TOPIC reference m)) \<or>
     (msg_topic m = EXTENSIONS_TOPIC \<and> label C z past EXTENSIONS_TOPIC (msg_join_ref m) \<and>
      (\<exists>key. reports key (msg_event m) \<and> attaches C z past key))"

definition console_message :: "codec \<Rightarrow> serializer \<Rightarrow> history \<Rightarrow> message \<Rightarrow> bool" where
  "console_message C z past m \<longleftrightarrow>
     (accepted C past \<and> (\<exists>reference. is_join CONSOLE_TOPIC reference m)) \<or>
     (msg_topic m = CONSOLE_TOPIC \<and> msg_event m = EV_UP \<and> label C z past CONSOLE_TOPIC (msg_join_ref m) \<and>
      (\<exists>q. heard C past q \<and> msg_topic q = CONSOLE_TOPIC))"

definition may_say :: "codec \<Rightarrow> serializer \<Rightarrow> history \<Rightarrow> message \<Rightarrow> bool" where
  "may_say C z past m \<longleftrightarrow> device_message C z past m \<or> heartbeat_message m \<or>
     extension_message C z past m \<or> console_message C z past m"

fun allowed :: "codec \<Rightarrow> serializer \<Rightarrow> history \<Rightarrow> event \<Rightarrow> bool" where
  "allowed C z past (Ev_Sent f r) = (\<exists>m. encode_as C m z = Inr f \<and> may_say C z past m)"
| "allowed C z past _ = True"

fun spoken :: "codec \<Rightarrow> serializer \<Rightarrow> history \<Rightarrow> event list \<Rightarrow> bool" where
  "spoken C z past [] = True"
| "spoken C z past (e # evs) = (allowed C z past e \<and> spoken C z (past @ [e]) evs)"

lemma spoken_append [simp]:
  "spoken C z past (xs @ ys) \<longleftrightarrow> spoken C z past xs \<and> spoken C z (past @ xs) ys"
  by (induction xs arbitrary: past) auto

lemma spoken_silent: "list_all (\<lambda>e. \<not> sends e) evs \<Longrightarrow> spoken C z past evs"
proof (induction evs arbitrary: past)
  case (Cons e evs)
  then show ?case by (cases e) auto
qed simp

subsection \<open>What stays known\<close>

lemma said_later: "said C z past m \<Longrightarrow> said C z (past @ evs) m"
  by (auto simp: said_def)

lemma heard_later: "heard C past m \<Longrightarrow> heard C (past @ evs) m"
  by (auto simp: heard_def)

lemma join_said_later: "join_said C z past topic r \<Longrightarrow> join_said C z (past @ evs) topic r"
  by (auto simp: join_said_def intro: said_later)

lemma label_later: "label C z past topic l \<Longrightarrow> label C z (past @ evs) topic l"
  by (auto simp: label_def intro: join_said_later)

lemma accepted_later: "accepted C past \<Longrightarrow> accepted C (past @ evs)"
  by (auto simp: accepted_def intro: heard_later)

lemma attaches_later: "attaches C z past key \<Longrightarrow> attaches C z (past @ evs) key"
  unfolding attaches_def by (blast intro: heard_later label_later)

lemmas later = said_later heard_later join_said_later label_later accepted_later attaches_later

text \<open>How the link stands to what was said and heard.\<close>

definition informed :: "codec \<Rightarrow> serializer \<Rightarrow> history \<Rightarrow> link \<Rightarrow> bool" where
  "informed C z past l \<longleftrightarrow> lk_join_ref l = Some first_ref \<and> join_said C z past DEVICE_TOPIC first_ref \<and>
     (lk_joined l \<longrightarrow> accepted C past) \<and>
     label C z past EXTENSIONS_TOPIC (lk_extensions_join_ref l) \<and>
     label C z past CONSOLE_TOPIC (lk_console_join_ref l) \<and>
     (\<forall>key \<in> set (attached_extensions l). attaches C z past key)"

lemma informed_later: "informed C z past l \<Longrightarrow> informed C z (past @ evs) l"
  unfolding informed_def by (blast intro: later)

subsection \<open>Operations that keep to it\<close>

text \<open>
  \<open>speaks ms ks\<close>: once the messages \<open>ms\<close> were heard and the extensions \<open>ks\<close>
  attached, what is sent from one state to the other is allowed, and the link stays informed.
\<close>

definition knows :: "codec \<Rightarrow> serializer \<Rightarrow> message set \<Rightarrow> string set \<Rightarrow> history \<Rightarrow> bool" where
  "knows C z ms ks past \<longleftrightarrow> (\<forall>m \<in> ms. heard C past m) \<and> (\<forall>key \<in> ks. attaches C z past key)"

lemma knows_later: "knows C z ms ks past \<Longrightarrow> knows C z ms ks (past @ evs)"
  unfolding knows_def by (blast intro: later)

abbreviation wire_codec :: "'s link_world_scheme \<Rightarrow> codec" where
  "wire_codec s \<equiv> e_codec (w_env s)"

abbreviation wire_serializer :: "'s link_world_scheme \<Rightarrow> serializer" where
  "wire_serializer s \<equiv> cfg_serializer (lk_config (lk s))"

definition prepared :: "message set \<Rightarrow> string set \<Rightarrow> 's link_world_scheme \<Rightarrow> history \<Rightarrow> bool" where
  "prepared ms ks s past \<longleftrightarrow> informed (wire_codec s) (wire_serializer s) past (lk s) \<and>
     knows (wire_codec s) (wire_serializer s) ms ks past"

definition speaks ::
    "message set \<Rightarrow> string set \<Rightarrow> 's link_world_scheme \<Rightarrow> 's link_world_scheme \<Rightarrow> bool" where
  "speaks ms ks s t \<longleftrightarrow> w_env t = w_env s \<and> lk_config (lk t) = lk_config (lk s) \<and>
     (\<exists>evs. w_hist t = w_hist s @ evs \<and> (\<forall>past. prepared ms ks s past \<longrightarrow>
        spoken (wire_codec s) (wire_serializer s) past evs \<and> prepared ms ks t (past @ evs)))"

interpretation speaks: run_relation "speaks ms ks"
proof
  fix s t u :: "'a link_world_scheme"
  show "speaks ms ks s s" by (simp add: speaks_def)
  assume "speaks ms ks s t" and "speaks ms ks t u"
  then obtain xs ys where
    xs: "w_env t = w_env s" "lk_config (lk t) = lk_config (lk s)" "w_hist t = w_hist s @ xs"
      "\<And>past. prepared ms ks s past \<Longrightarrow>
        spoken (wire_codec s) (wire_serializer s) past xs \<and> prepared ms ks t (past @ xs)" and
    ys: "w_env u = w_env t" "lk_config (lk u) = lk_config (lk t)" "w_hist u = w_hist t @ ys"
      "\<And>past. prepared ms ks t past \<Longrightarrow>
        spoken (wire_codec t) (wire_serializer t) past ys \<and> prepared ms ks u (past @ ys)"
    unfolding speaks_def by blast
  have "spoken (wire_codec s) (wire_serializer s) past (xs @ ys) \<and> prepared ms ks u (past @ xs @ ys)"
    if "prepared ms ks s past" for past
    using xs(1,2) xs(4) [OF that] ys(4) [of "past @ xs"] by simp
  then show "speaks ms ks s u"
    using xs ys unfolding speaks_def by (intro conjI exI [of _ "xs @ ys"]) simp_all
qed

lemma speaks_more: "speaks {} {} s t \<Longrightarrow> speaks ms ks s t"
proof -
  assume "speaks {} {} s t"
  then obtain evs where evs: "w_env t = w_env s" "lk_config (lk t) = lk_config (lk s)" "w_hist t = w_hist s @ evs"
    "\<And>past. prepared {} {} s past \<Longrightarrow>
        spoken (wire_codec s) (wire_serializer s) past evs \<and> prepared {} {} t (past @ evs)"
    unfolding speaks_def by blast
  have "spoken (wire_codec s) (wire_serializer s) past evs \<and> prepared ms ks t (past @ evs)"
    if "prepared ms ks s past" for past
    using evs(1,2) evs(4) [of past] that knows_later [of _ _ ms ks past evs]
    by (simp add: prepared_def knows_def [of _ _ "{}"])
  then show ?thesis using evs unfolding speaks_def by blast
qed

lemma stays_speaks_more: "stays (speaks {} {}) m \<Longrightarrow> stays (speaks ms ks) m"
  unfolding stays_def by (blast intro: speaks_more)

text \<open>Extensions the link has attached need not be known otherwise.\<close>

lemma speaks_attached:
  assumes "speaks ms ks s t" and "ks \<subseteq> set (attached_extensions (lk s))"
  shows "speaks ms {} s t"
proof -
  from assms(1) obtain evs where evs: "w_env t = w_env s" "lk_config (lk t) = lk_config (lk s)"
    "w_hist t = w_hist s @ evs" "\<And>past. prepared ms ks s past \<Longrightarrow>
        spoken (wire_codec s) (wire_serializer s) past evs \<and> prepared ms ks t (past @ evs)"
    unfolding speaks_def by blast
  have "spoken (wire_codec s) (wire_serializer s) past evs \<and> prepared ms {} t (past @ evs)"
    if "prepared ms {} s past" for past
  proof -
    have "prepared ms ks s past"
      using that assms(2) by (auto simp: prepared_def knows_def informed_def)
    from evs(4) [OF this] show ?thesis by (simp add: prepared_def knows_def)
  qed
  then show ?thesis using evs unfolding speaks_def by blast
qed

text \<open>
  What sends nothing, and leaves what the link was informed of, keeps to the protocol.
\<close>

definition link_view ::
    "link \<Rightarrow> bool \<times> string option \<times> config \<times> string option \<times> string option \<times> string list" where
  "link_view l = (lk_joined l, lk_join_ref l, lk_config l, lk_extensions_join_ref l, lk_console_join_ref l,
     attached_extensions l)"

lemma informed_view: "link_view k = link_view l \<Longrightarrow> informed C z past k \<longleftrightarrow> informed C z past l"
  by (simp add: link_view_def informed_def)

lemma prepared_view:
  assumes "prepared ms ks s past" and "w_env t = w_env s" and view: "link_view (lk t) = link_view (lk s)"
  shows "prepared ms ks t (past @ evs)"
proof -
  have "lk_config (lk t) = lk_config (lk s)" using view by (simp add: link_view_def)
  then show ?thesis
    using assms informed_view [OF view] by (simp add: prepared_def informed_later knows_later)
qed

lemma speaks_silent:
  assumes "emits (\<lambda>e. \<not> sends e) s t" and "link_view (lk t) = link_view (lk s)"
  shows "speaks ms ks s t"
proof -
  from assms(1) obtain evs where "w_hist t = w_hist s @ evs" "w_env t = w_env s" "list_all (\<lambda>e. \<not> sends e) evs"
    by (auto simp: emits_def)
  moreover have "lk_config (lk t) = lk_config (lk s)" using assms(2) by (simp add: link_view_def)
  ultimately show ?thesis
    using assms(2) prepared_view [of ms ks s _ t evs] by (auto simp: speaks_def spoken_silent)
qed

lemma stays_silent:
  "stays (emits (\<lambda>e. \<not> sends e)) m \<Longrightarrow> stays (keeps link_view) m \<Longrightarrow> stays (speaks ms ks) m"
  unfolding stays_def keeps_def by (blast intro: speaks_silent)

text \<open>A message that is allowed whatever the link knows.\<close>

lemma speaks_link_write:
  assumes "link_write m s = Some (r, t)"
    and "\<And>past. prepared ms ks s past \<Longrightarrow> may_say (wire_codec s) (wire_serializer s) past m"
  shows "speaks ms ks s t"
proof (cases "encode_as (wire_codec s) m (wire_serializer s)")
  case (Inl e)
  then have "t = s" using assms(1) by (simp add: link_write_def prog_simps)
  then show ?thesis by (simp add: speaks.rel_refl)
next
  case (Inr f)
  then have t: "t = s\<lparr>w_hist := w_hist s @ [Ev_Sent f (e_send (w_env s) (w_hist s) f)]\<rparr>"
    using assms(1) by (auto simp: link_write_def prog_simps world_calls fallible_call_run)
  show ?thesis
    unfolding speaks_def
  proof (intro conjI exI allI impI)
    show "w_hist t = w_hist s @ [Ev_Sent f (e_send (w_env s) (w_hist s) f)]" using t by simp
    fix past assume p: "prepared ms ks s past"
    then show "spoken (wire_codec s) (wire_serializer s) past [Ev_Sent f (e_send (w_env s) (w_hist s) f)]"
      using assms(2) Inr by auto
    show "prepared ms ks t (past @ [Ev_Sent f (e_send (w_env s) (w_hist s) f)])"
      by (rule prepared_view [OF p]) (use t in simp_all)
  qed (use t in simp_all)
qed

subsection \<open>The link's senders\<close>

lemma speaks_call: "(\<And>a. \<not> sends (ev a)) \<Longrightarrow> stays (speaks ms ks) (call f ev)"
  by (simp add: stays_silent stays_call keeps_call)

lemma speaks_fallible_call: "(\<And>a. \<not> sends (ev a)) \<Longrightarrow> stays (speaks ms ks) (fallible_call f ev)"
  by (simp add: stays_silent stays_fallible_call keeps_fallible_call)

lemma speaks_tell: "\<not> sends ev \<Longrightarrow> stays (speaks ms ks) (tell ev)"
  by (simp add: stays_silent stays_tell keeps_tell)

lemma speaks_world:
  "stays (speaks ms ks) now_ms" "stays (speaks ms ks) (do_sleep d)" "stays (speaks ms ks) do_restart"
  "stays (speaks ms ks) (handler_progress st p)" "stays (speaks ms ks) ask_location"
  "stays (speaks ms ks) ask_health" "stays (speaks ms ks) (ask_command name args)"
  "stays (speaks ms ks) ask_control" "stays (speaks ms ks) read_clock" "stays (speaks ms ks) other_threads"
  "stays (speaks ms ks) (log_text lv txt')" "stays (speaks ms ks) do_pending_verify"
  "stays (speaks ms ks) do_mark_valid" "stays (speaks ms ks) do_identify" "stays (speaks ms ks) (do_decide u)"
  "stays (speaks ms ks) (do_open url)" "stays (speaks ms ks) (do_read k)" "stays (speaks ms ks) (do_write c)"
  "stays (speaks ms ks) do_commit" "stays (speaks ms ks) do_abort" "stays (speaks ms ks) do_http"
  "stays (speaks ms ks) do_begin"
  by (auto simp: world_calls intro!: speaks_call speaks_fallible_call speaks_tell split: prod.split)

lemma speaks_link_get: "stays (speaks ms ks) (link_get f)"
  by (simp add: stays_silent emits_link_get keeps_link_get)

lemma speaks_link_set: "(\<And>l. link_view (f l) = link_view l) \<Longrightarrow> stays (speaks ms ks) (link_set f)"
  by (simp add: stays_silent emits_link_set keeps_link_set)

lemma speaks_fresh_ref: "stays (speaks ms ks) fresh_ref"
  by (simp add: stays_silent emits_fresh_ref keeps_fresh_ref link_view_def attached_extensions_def)

lemma speaks_modify:
  "(\<And>s. w_env (f s) = w_env s \<and> w_hist (f s) = w_hist s \<and> lk (f s) = lk s) \<Longrightarrow> stays (speaks ms ks) (modify f)"
  by (rule stays_silent) (auto simp: stays_def modify_def emits_def keeps_def)

lemma speaks_set_downloading: "stays (speaks ms ks) (set_downloading u)"
  unfolding set_downloading_def by (rule speaks_link_set) (simp add: link_view_def attached_extensions_def)

lemmas speaks_rules = speaks.stays_rules speaks_world speaks_link_get speaks_fresh_ref
  speaks_set_downloading

text \<open>A message made of what the link is informed of.\<close>

lemma stays_link_write:
  "(\<And>C z past. may_say C z past m) \<Longrightarrow> stays (speaks ms ks) (link_write m)"
  by (auto intro!: staysI elim: speaks_link_write)

lemma speaks_write_from:
  assumes "\<And>(s :: 's link_world_scheme) past. prepared ms ks s past \<Longrightarrow>
    may_say (wire_codec s) (wire_serializer s) past (msg (g (lk s)))"
  shows "stays (speaks ms ks) (andthen (link_get g) (\<lambda>x. link_write (msg x)) :: ('s link_world_scheme, unit) prog)"
proof (rule staysI)
  fix s r and t :: "'s link_world_scheme"
  assume "andthen (link_get g) (\<lambda>x. link_write (msg x)) s = Some (r, t)"
  then have "link_write (msg (g (lk s))) s = Some (r, t)" by (simp add: link_get_def prog_simps)
  then show "speaks ms ks s t" by (rule speaks_link_write) (rule assms)
qed

lemma with_refs_simps [simp]:
  "msg_join_ref (with_refs m j r) = j" "msg_reference (with_refs m j r) = r"
  "msg_topic (with_refs m j r) = msg_topic m" "msg_event (with_refs m j r) = msg_event m"
  "msg_topic (new_message topic event pl) = topic" "msg_event (new_message topic event pl) = event"
  by (simp_all add: with_refs_def new_message_def)

lemma speaks_send_event: "event \<noteq> EV_JOIN \<Longrightarrow> stays (speaks ms ks) (send_event event pl)"
  unfolding send_event_def link_send_def
  by (intro speaks.stays_andthen speaks_fresh_ref speaks_write_from)
    (simp add: may_say_def device_message_def prepared_def informed_def)

lemma speaks_reports:
  "stays (speaks ms ks) (send_progress st p)" "stays (speaks ms ks) (send_status status extra)"
  "stays (speaks ms ks) send_rebooting" "stays (speaks ms ks) send_firmware_validated"
  unfolding send_progress_def send_status_def send_rebooting_def send_firmware_validated_def
  by (simp_all add: speaks_send_event event_names)

lemma speaks_send_heartbeat: "stays (speaks ms ks) send_heartbeat"
  unfolding send_heartbeat_def
  by (intro speaks_rules speaks_link_set stays_link_write)
    (simp_all add: link_view_def attached_extensions_def may_say_def heartbeat_message_def)

lemma speaks_send_console:
  assumes "m \<in> ms" and "msg_topic m = CONSOLE_TOPIC"
  shows "stays (speaks ms ks) (send_console text)"
proof -
  have "may_say (wire_codec s) (wire_serializer s) past
      (with_refs (new_message CONSOLE_TOPIC EV_UP pl) (lk_console_join_ref (lk s)) r)"
    if "prepared ms ks s past" for s :: "'s link_world_scheme" and past pl r
    using that assms unfolding may_say_def console_message_def prepared_def informed_def knows_def by auto
  then show ?thesis
    unfolding send_console_def
    by (auto intro!: speaks.stays_ok speaks.stays_andthen [OF speaks_fresh_ref] speaks_write_from)
qed

definition reporting_on :: "string set \<Rightarrow> outgoing \<Rightarrow> bool" where
  "reporting_on ks out = (case out of Send event pl \<Rightarrow> \<exists>key \<in> ks. reports key event | _ \<Rightarrow> True)"

lemma may_report:
  assumes "prepared ms ks s past" and "key \<in> ks" and "reports key event"
  shows "may_say (wire_codec s) (wire_serializer s) past
    (with_refs (new_message EXTENSIONS_TOPIC event pl) (lk_extensions_join_ref (lk s)) r)"
  using assms unfolding may_say_def extension_message_def prepared_def informed_def knows_def by auto

lemma speaks_send_outgoing: "reporting_on ks out \<Longrightarrow> stays (speaks ms ks) (send_outgoing out)"
  by (cases out) (auto simp: send_outgoing_def reporting_on_def elim: may_report
      intro!: speaks.stays_ok speaks.stays_andthen [OF speaks_fresh_ref] speaks_write_from)

lemma speaks_send_extension:
  "list_all (reporting_on ks) outs \<Longrightarrow> stays (speaks ms ks) (send_extension outs)"
  by (auto simp: send_extension_def list_all_iff intro!: speaks_rules speaks_send_outgoing)

subsection \<open>Joining\<close>

text \<open>
  A join takes its reference before it is sent, so one that cannot be written leaves the link
  with a reference nobody was told. It also ends the session: what is asked of an operation
  that failed is only that what it sent was allowed.
\<close>

definition utters :: "'s link_world_scheme \<Rightarrow> 's link_world_scheme \<Rightarrow> bool" where
  "utters s t \<longleftrightarrow> (\<exists>evs. w_hist t = w_hist s @ evs \<and> (\<forall>past. prepared {} {} s past \<longrightarrow>
     spoken (wire_codec s) (wire_serializer s) past evs))"

definition outcome :: "'s link_world_scheme \<Rightarrow> (error + 'a) \<times> 's link_world_scheme \<Rightarrow> bool" where
  "outcome s rt \<longleftrightarrow> (case rt of (Inr _, t) \<Rightarrow> speaks {} {} s t | (Inl _, t) \<Rightarrow> utters s t)"

definition says_at :: "'s link_world_scheme \<Rightarrow> ('s link_world_scheme, 'a) prog \<Rightarrow> bool" where
  "says_at s m \<longleftrightarrow> (\<forall>rt. m s = Some rt \<longrightarrow> outcome s rt)"

lemma outcome_simps [simp]:
  "outcome s (Inr a, t) = speaks {} {} s t" "outcome s (Inl e, t) = utters s t"
  by (simp_all add: outcome_def)

lemma says_atD: "says_at s m \<Longrightarrow> m s = Some rt \<Longrightarrow> outcome s rt"
  unfolding says_at_def by blast

lemma speaks_utters: "speaks {} {} s t \<Longrightarrow> utters s t"
  unfolding speaks_def utters_def by blast

lemma says_speaks: "stays (speaks {} {}) m \<Longrightarrow> says_at s m"
  by (auto simp: says_at_def outcome_def stays_def speaks_utters split: sum.split)

lemma utters_after:
  assumes "speaks {} {} s t" and "utters t u"
  shows "utters s u"
proof -
  from assms(1) obtain xs where xs: "w_env t = w_env s" "lk_config (lk t) = lk_config (lk s)"
    "w_hist t = w_hist s @ xs" "\<And>past. prepared {} {} s past \<Longrightarrow>
        spoken (wire_codec s) (wire_serializer s) past xs \<and> prepared {} {} t (past @ xs)"
    unfolding speaks_def by blast
  from assms(2) obtain ys where ys: "w_hist u = w_hist t @ ys" "\<And>past. prepared {} {} t past \<Longrightarrow>
     spoken (wire_codec t) (wire_serializer t) past ys"
    unfolding utters_def by blast
  have "spoken (wire_codec s) (wire_serializer s) past (xs @ ys)" if "prepared {} {} s past" for past
    using xs(1,2) xs(4) [OF that] ys(2) [of "past @ xs"] by simp
  then show ?thesis
    using xs(3) ys(1) unfolding utters_def by (intro exI [of _ "xs @ ys"]) simp
qed

lemma outcome_after: "speaks {} {} s t \<Longrightarrow> outcome t rt \<Longrightarrow> outcome s rt"
  unfolding outcome_def by (auto split: prod.splits sum.splits intro: utters_after speaks.rel_trans)

lemma says_andthen:
  assumes "says_at s m" and "\<And>a t. m s = Some (Inr a, t) \<Longrightarrow> says_at t (f a)"
  shows "says_at s (andthen m f)"
  unfolding says_at_def
proof (intro allI impI)
  fix rt assume "andthen m f s = Some rt"
  then consider (failed) e t where "m s = Some (Inl e, t)" "rt = (Inl e, t)"
    | (went) a t where "m s = Some (Inr a, t)" "f a t = Some rt"
    by (cases rt) (auto simp: andthen_Some)
  then show "outcome s rt"
  proof cases
    case failed
    then show ?thesis using assms(1) by (auto simp: says_at_def outcome_def)
  next
    case went
    then have "speaks {} {} s t" using assms(1) by (auto simp: says_at_def outcome_def)
    moreover have "outcome t rt" using assms(2) [OF went(1)] went(2) by (rule says_atD)
    ultimately show ?thesis by (rule outcome_after)
  qed
qed

lemma says_gets: "says_at s (f (g s)) \<Longrightarrow> says_at s (andthen (gets g) f)"
  by (simp add: says_at_def andthen_gets)

lemma says_iterate:
  assumes "\<And>l s. says_at s (body l)"
  shows "says_at s (iterate body l)"
proof -
  have "outcome s (r, t)" if "iterate body l s = Some (r, t)" for r t
    using that
  proof (induction rule: iterate_induct)
    case (again l s l' u r t)
    have "speaks {} {} s u" using says_atD [OF assms again.hyps(1)] by simp
    then show ?case using again.IH by (rule outcome_after)
  next
    case (leave l s a t)
    then show ?case using says_atD [OF assms [of s l]] by simp
  next
    case (error l s e t)
    then show ?case using says_atD [OF assms [of s l]] by simp
  qed
  then show ?thesis by (auto simp: says_at_def)
qed

lemma said_now: "encode_as C m z = Inr f \<Longrightarrow> said C z (past @ [Ev_Sent f r]) m"
  by (auto simp: said_def)

lemma write_join:
  assumes run: "link_write m u = Some (r, t)"
    and same: "w_env u = w_env s" "w_hist u = w_hist s" "lk_config (lk u) = lk_config (lk s)"
    and may: "\<And>past. prepared {} {} s past \<Longrightarrow> may_say (wire_codec s) (wire_serializer s) past m"
    and informs: "\<And>past. informed (wire_codec s) (wire_serializer s) past (lk s) \<Longrightarrow>
      said (wire_codec s) (wire_serializer s) past m \<Longrightarrow>
      informed (wire_codec s) (wire_serializer s) past (lk u)"
  shows "outcome s (r, t)"
proof (cases "encode_as (wire_codec s) m (wire_serializer s)")
  case (Inl e)
  then have "t = u" "r = Inl e" using run same by (auto simp: link_write_def prog_simps)
  then show ?thesis using same by (auto simp: outcome_def utters_def intro!: exI [of _ "[]"])
next
  case (Inr f)
  let ?e = "Ev_Sent f (e_send (w_env s) (w_hist s) f)"
  have t: "t = u\<lparr>w_hist := w_hist u @ [?e]\<rparr>"
    using run same Inr by (auto simp: link_write_def prog_simps world_calls fallible_call_run)
  have "speaks {} {} s t"
    unfolding speaks_def
  proof (intro conjI exI allI impI)
    show "w_hist t = w_hist s @ [?e]" using t same by simp
    fix past assume p: "prepared {} {} s past"
    then show "spoken (wire_codec s) (wire_serializer s) past [?e]" using may Inr by auto
    have "informed (wire_codec s) (wire_serializer s) (past @ [?e]) (lk u)"
      using p said_now [OF Inr] by (intro informs) (auto simp: prepared_def informed_later)
    then show "prepared {} {} t (past @ [?e])"
      using t same by (simp add: prepared_def knows_def)
  qed (use t same in simp_all)
  then show ?thesis by (cases r) (auto simp: outcome_def speaks_utters)
qed

lemma said_join_label:
  "said C z past m \<Longrightarrow> is_join topic reference m \<Longrightarrow> label C z past topic (Some reference)"
  by (auto simp: label_def join_said_def)

lemma says_extensions_join:
  assumes "lk_joined (lk s)"
  shows "says_at s send_extensions_join"
  unfolding says_at_def
proof (intro allI impI)
  fix rt assume run: "send_extensions_join s = Some rt"
  obtain r t where rt: "rt = (r, t)" by fastforce
  obtain reference g where nr: "next_ref (lk_refs (lk s)) = (reference, g)" by fastforce
  let ?m = "with_refs (new_message EXTENSIONS_TOPIC ''phx_join'' (ext_join_params (lk_extensions (lk s))))
    (Some reference) (Some reference)"
  let ?u = "s\<lparr>lk := (lk s)\<lparr>lk_refs := g, lk_extensions_join_ref := Some reference\<rparr>\<rparr>"
  have "link_write ?m ?u = Some (r, t)"
    using run rt nr by (simp add: send_extensions_join_def join_message_def link_set_def andthen_modify)
  moreover have join: "is_join EXTENSIONS_TOPIC reference ?m" by (simp add: is_join_def event_names)
  ultimately show "outcome s rt"
    using assms unfolding rt
    by (elim write_join)
      (auto simp: may_say_def extension_message_def prepared_def informed_def attached_extensions_def
        intro: said_join_label)
qed

lemma says_console_join:
  assumes "lk_joined (lk s)"
  shows "says_at s send_console_join"
  unfolding says_at_def
proof (intro allI impI)
  fix rt assume run: "send_console_join s = Some rt"
  obtain r t where rt: "rt = (r, t)" by fastforce
  obtain reference g where nr: "next_ref (lk_refs (lk s)) = (reference, g)" by fastforce
  let ?m = "with_refs (new_message CONSOLE_TOPIC EV_JOIN (jobj [(''console_version'', jstr CONSOLE_VERSION)]))
    (Some reference) (Some reference)"
  let ?u = "s\<lparr>lk := (lk s)\<lparr>lk_refs := g, lk_console_join_ref := Some reference\<rparr>\<rparr>"
  have "fresh_ref s = Some (Inr reference, s\<lparr>lk := (lk s)\<lparr>lk_refs := g\<rparr>\<rparr>)"
    using nr by (simp add: fresh_ref_def)
  then have "link_write ?m ?u = Some (r, t)"
    using run rt by (simp add: send_console_join_def andthen_run [of fresh_ref] link_set_def andthen_modify)
  moreover have join: "is_join CONSOLE_TOPIC reference ?m" by (simp add: is_join_def)
  ultimately show "outcome s rt"
    using assms unfolding rt
    by (elim write_join)
      (auto simp: may_say_def console_message_def prepared_def informed_def attached_extensions_def
        intro: said_join_label)
qed

subsection \<open>Handling a frame\<close>

lemma speaks_parse_payload: "stays (speaks ms ks) (parse_payload j)"
  unfolding parse_payload_def by (intro speaks_rules)

lemma speaks_decide: "stays (speaks ms ks) (decide u)"
  unfolding decide_def
  by (auto intro!: speaks_rules speaks_reports split: update_decision.split)

lemma speaks_handle_console_frame:
  assumes "msg_topic m = CONSOLE_TOPIC"
  shows "stays (speaks {m} ks) (handle_console_frame m)"
  unfolding handle_console_frame_def
  by (auto intro!: speaks_rules speaks_send_console [OF singletonI assms] split: option.split)

text \<open>The reply that accepts the join, which the link takes by its reference.\<close>

lemma speaks_handle_reply:
  assumes topic: "msg_topic m \<notin> {EXTENSIONS_TOPIC, CONSOLE_TOPIC, CONTROL_TOPIC}"
  shows "stays (speaks {m} {}) (handle_reply m :: ('s link_world_scheme, action) prog)"
proof (rule staysI)
  fix s r and t :: "'s link_world_scheme"
  assume run: "handle_reply m s = Some (r, t)"
  show "speaks {m} {} s t"
  proof (cases "lk_join_ref (lk s) = msg_reference m \<and>
      is_ok_reply_to m (case lk_join_ref (lk s) of None \<Rightarrow> [] | Some r \<Rightarrow> r)")
    case False
    then have "t = s" using run by (auto simp: handle_reply_def link_get_def prog_simps split: if_splits)
    then show ?thesis by (simp add: speaks.rel_refl)
  next
    case True
    let ?u = "s\<lparr>lk := (lk s)\<lparr>lk_joined := True\<rparr>\<rparr>"
    have "accepted (wire_codec s) past" if "prepared {m} {} s past" for past
      using that True topic by (auto simp: prepared_def knows_def accepted_def informed_def)
    then have "speaks {m} {} s ?u"
      by (auto simp: speaks_def prepared_def informed_def attached_extensions_def)
    moreover have "(case reply_response m of Some response \<Rightarrow> andthen (parse_payload response) decide
       | None \<Rightarrow> ok Action_None) ?u = Some (r, t)"
      using run True by (auto simp: handle_reply_def link_get_def link_set_def prog_simps andthen_gets andthen_modify)
    then have "speaks {m} {} ?u t"
      by (rule staysD [rotated]) (auto intro!: speaks_rules speaks_parse_payload speaks_decide split: option.split)
    ultimately show ?thesis by (rule speaks.rel_trans)
  qed
qed

text \<open>The answer to the extensions' join, which says what is attached.\<close>

definition attached_by :: "message \<Rightarrow> string list" where
  "attached_by m = (case Option.bind (reply_response m) as_array of
     None \<Rightarrow> [] | Some ks \<Rightarrow> List.map_filter as_str ks)"

lemma attached_by_named:
  "msg_topic m = EXTENSIONS_TOPIC \<Longrightarrow> msg_event m = EV_REPLY \<Longrightarrow> key \<in> set (attached_by m) \<Longrightarrow> names_key m key"
proof -
  have as_str: "as_str j = Some key \<longleftrightarrow> j = JString key" for j by (cases j) auto
  assume "msg_topic m = EXTENSIONS_TOPIC" "msg_event m = EV_REPLY" "key \<in> set (attached_by m)"
  then show ?thesis
    by (cases "Option.bind (reply_response m) as_array")
      (auto simp: attached_by_def names_key_def List.map_filter_def as_str)
qed

lemma on_join_reply_run:
  "on_join_reply (case reply_response m of None \<Rightarrow> JArray [] | Some r \<Rightarrow> r) x =
     (map (\<lambda>key. Send (key @ '':attached'') (jobj [])) (attached_by m),
      x\<lparr>ext_joined := True, attached := attached_by m\<rparr>)"
  by (cases "reply_response m")
    (simp_all add: on_join_reply_def attached_by_def Let_def List.map_filter_simps)

lemma speaks_handle_extension_frame:
  assumes topic: "msg_topic m = EXTENSIONS_TOPIC"
  shows "stays (speaks {m} {}) (handle_extension_frame m :: ('s link_world_scheme, action) prog)"
proof (rule staysI)
  fix s r and t :: "'s link_world_scheme"
  assume run: "handle_extension_frame m s = Some (r, t)"
  show "speaks {m} {} s t"
  proof (cases "msg_event m = EV_REPLY \<and> lk_extensions_join_ref (lk s) = msg_reference m")
    case False
    then have "t = s"
      using run by (auto simp: handle_extension_frame_def link_get_def prog_simps andthen_gets split: if_splits)
    then show ?thesis by (simp add: speaks.rel_refl)
  next
    case True
    let ?x = "(lk_extensions (lk s))\<lparr>ext_joined := True, attached := attached_by m\<rparr>"
    let ?u = "s\<lparr>lk := (lk s)\<lparr>lk_extensions := ?x\<rparr>\<rparr>"
    have "attaches (wire_codec s) (wire_serializer s) past key"
      if "prepared {m} {} s past" "key \<in> set (attached_by m)" for past key
      using that True attached_by_named [OF topic, of key]
      unfolding prepared_def knows_def attaches_def informed_def by auto
    then have u: "speaks {m} {} s ?u"
      by (auto simp: speaks_def prepared_def informed_def attached_extensions_def)
    have "andthen (send_extension (map (\<lambda>key. Send (key @ '':attached'') (jobj [])) (attached_by m)))
        (\<lambda>_. ok Action_None) ?u = Some (r, t)"
      using run True
      by (simp add: handle_extension_frame_def link_get_def link_set_def prog_simps andthen_gets andthen_modify
          on_join_reply_run Let_def)
    moreover have "stays (speaks {m} (set (attached_by m))) (andthen (send_extension
        (map (\<lambda>key. Send (key @ '':attached'') (jobj [])) (attached_by m))) (\<lambda>_. ok Action_None))"
      by (intro speaks_rules speaks_send_extension) (auto simp: list_all_iff reporting_on_def reports_def)
    ultimately have "speaks {m} (set (attached_by m)) ?u t" by (rule staysD [rotated])
    then have "speaks {m} {} ?u t" by (rule speaks_attached) (simp add: attached_extensions_def)
    with u show ?thesis by (rule speaks.rel_trans)
  qed
qed

lemma speaks_handle_message: "stays (speaks {m} {}) (handle_message m)"
proof -
  have beat: "stays (speaks {m} {}) (link_set (\<lambda>l. l\<lparr>lk_heartbeat_ref := None\<rparr>))"
    by (rule speaks_link_set) (simp add: link_view_def attached_extensions_def)
  have invite: "stays (speaks {m} {})
      (link_set (\<lambda>l. l\<lparr>lk_extensions := on_invitation (msg_payload m) (lk_extensions l)\<rparr>))"
    by (rule speaks_link_set) (simp add: link_view_def attached_extensions_def on_invitation_def)
  have close: "stays (speaks {m} {})
      (link_set (\<lambda>l. l\<lparr>lk_joined := False, lk_extensions := disconnected (lk_extensions l)\<rparr>))"
    by (auto simp: stays_def link_set_def modify_def speaks_def prepared_def informed_def
        attached_extensions_def disconnected_def)
  show ?thesis
    unfolding handle_message_def
    by (auto intro!: speaks_rules speaks_handle_console_frame speaks_handle_extension_frame
        speaks_handle_reply speaks_decide speaks_parse_payload beat invite close)
qed

end
