(* ===== verification/Spoken.thy ===== *)
theory Spoken
  imports Protocol
begin

text \<open>
  The agent's operations, a turn of the session loop and a whole session keep to the protocol of
  theory Protocol.
\<close>

subsection \<open>The agent's own operations\<close>

lemma speaks_touch_logs: "stays (speaks ms ks) (touch_logs f)"
proof -
  have "stays (speaks ms ks) (\<lambda>s. case ag_logs s of None \<Rightarrow> Some (Inr None, s)
      | Some b \<Rightarrow> (case f (e_layout (w_env s)) (log_steps (e_layout (w_env s)) ops b) of
          (a, b') \<Rightarrow> Some (Inr (Some a), s\<lparr>ag_logs := Some b'\<rparr>)))" for ops
    by (auto simp: stays_def intro: speaks_silent [OF emits.rel_refl]
        intro!: speaks_silent split: option.splits prod.splits) (simp_all add: emits_def)
  then show ?thesis unfolding touch_logs_def by (intro speaks_rules)
qed

lemma speaks_has_logs: "stays (speaks ms ks) has_logs"
  unfolding has_logs_def by (rule speaks.stays_gets)

lemma speaks_link_send_logs: "stays (speaks ms {}) (link_send_logs lines :: ('s link_world_scheme, unit) prog)"
proof (rule staysI)
  fix s r and t :: "'s link_world_scheme"
  assume run: "link_send_logs lines s = Some (r, t)"
  let ?x = "lk_extensions (lk s)"
  show "speaks ms {} s t"
  proof (cases "is_attached ?x LOGGING")
    case False
    then have "t = s"
      using run
      by (auto simp: link_send_logs_def log_batch_def logging_batched_def logs_out_unattached link_get_def
          andthen_gets send_extension_def prog_simps)
    then show ?thesis by (simp add: speaks.rel_refl)
  next
    case True
    have "speaks ms {LOGGING} s t"
    proof (cases "log_batch ?x lines")
      case None
      have "list_all (reporting_on {LOGGING}) (logs_out ?x lines)"
        by (auto simp: logs_out_def log_out_def list_all_iff reporting_on_def reports_def)
      moreover have "send_extension (logs_out ?x lines) s = Some (r, t)"
        using run None by (simp add: link_send_logs_def link_get_def andthen_gets)
      ultimately show ?thesis using staysD [OF speaks_send_extension] by blast
    next
      case (Some batch)
      obtain reference g where nr: "next_ref (lk_refs (lk s)) = (reference, g)" by fastforce
      let ?u = "s\<lparr>lk := (lk s)\<lparr>lk_refs := g\<rparr>\<rparr>"
      let ?m = "with_refs (new_message EXTENSIONS_TOPIC ''logging:send'' (batch_json batch))
        (lk_extensions_join_ref (lk ?u)) (Some reference)"
      have fr: "fresh_ref s = Some (Inr reference, ?u)" using nr by (simp add: fresh_ref_def)
      have u: "speaks ms {LOGGING} s ?u" using speaks_fresh_ref fr by (rule staysD)
      have enc: "encode_as C (with_refs (new_message topic event pl) j (Some reference)) z =
          encode_frame C z j (Some reference) topic event pl" for C z topic event pl j
        by (simp add: encode_as_def) (simp add: with_refs_def new_message_def)
      have "link_write ?m ?u = Some (r, t)"
        using run Some
        by (simp add: link_send_logs_def link_get_def andthen_gets andthen_run [of fresh_ref] fr link_write_def enc)
      then have "speaks ms {LOGGING} ?u t"
        by (rule speaks_link_write) (erule may_report [where key = LOGGING], simp_all add: reports_def)
      with u show ?thesis by (rule speaks.rel_trans)
    qed
    then show ?thesis
      by (rule speaks_attached) (use True in \<open>simp add: is_attached_def attached_extensions_def\<close>)
  qed
qed

lemma speaks_send_logs: "stays (speaks ms {}) (send_logs now last_log)"
  unfolding send_logs_def
  by (auto simp: Let_def intro!: speaks_rules speaks_touch_logs speaks_has_logs speaks_link_send_logs
      split: option.split)

lemma speaks_log_command: "stays (speaks ms ks) (log_command args)"
  unfolding log_command_def
  by (auto intro!: speaks_rules speaks_touch_logs speaks_has_logs split: list.split option.split)

lemma speaks_console_run: "stays (speaks ms ks) (console_run line con)"
  unfolding console_run_def by (auto simp: Let_def intro!: speaks_rules split: option.split prod.split)

lemma speaks_answer_console:
  assumes m: "m \<in> ms" "msg_topic m = CONSOLE_TOPIC"
  shows "stays (speaks ms ks) (answer_console input :: ('s agent_world_scheme, bool) prog)"
proof (rule staysI)
  have lines: "stays (speaks ms ks) (answer_lines lines reply :: ('s agent_world_scheme, bool) prog)"
    for lines reply
    by (induction lines arbitrary: reply)
      (auto simp: Let_def intro!: speaks_rules speaks_send_console [OF m] speaks_log_command speaks_console_run
        split: option.split)
  fix s r and t :: "'s agent_world_scheme"
  assume run: "answer_console input s = Some (r, t)"
  show "speaks ms ks s t"
  proof (cases "ag_console s")
    case None
    then show ?thesis using run by (simp add: answer_console_def speaks.rel_refl)
  next
    case (Some c)
    obtain echo ls reader where feed: "feed input (con_reader c) = (echo, ls, reader)"
      by (metis prod_cases3)
    let ?s = "s\<lparr>ag_console := Some (c\<lparr>con_reader := reader\<rparr>)\<rparr>"
    have "answer_lines ls echo ?s = Some (r, t)" using run by (simp add: answer_console_def Some feed)
    with lines have "speaks ms ks ?s t" by (rule staysD)
    moreover have "speaks ms ks s ?s" by (rule speaks_silent) (simp_all add: emits_def)
    ultimately show ?thesis using speaks.rel_trans by blast
  qed
qed

definition need_on :: "string set \<Rightarrow> outgoing \<Rightarrow> bool" where
  "need_on ks need = (case need of
      NeedLocation \<Rightarrow> GEO \<in> ks | NeedHealth \<Rightarrow> HEALTH \<in> ks | Send event pl \<Rightarrow> reporting_on ks need)"

lemma speaks_answer_extension:
  assumes "list_all (need_on ks) needs"
  shows "stays (speaks ms ks) (answer_extension needs)"
proof -
  have health: "stays (speaks ms ks) (andthen (if b then andthen ask_health (\<lambda>r. ok (health_answer r))
      else ok []) send_extension)" if "HEALTH \<in> ks" for b
    using that
    by (cases b) (auto simp: health_answer_def health_out_def reporting_on_def reports_def
        intro!: speaks_rules speaks_send_extension)
  have "stays (speaks ms ks) (answer_need need)" if "need_on ks need" for need
    using that
    by (cases need)
      (auto simp: answer_need_def need_on_def location_answer_def location_out_def reporting_on_def reports_def
        intro!: speaks_rules health speaks_send_extension split: option.split)
  then show ?thesis
    using assms by (auto simp: answer_extension_def list_all_iff intro!: speaks_rules)
qed

lemma speaks_nothing_outstanding: "stays (speaks ms ks) (nothing_outstanding h)"
  unfolding nothing_outstanding_def by (auto intro!: speaks_rules speaks_touch_logs split: prod.split)

lemma speaks_confirm_running_image: "stays (speaks ms ks) confirm_running_image"
  unfolding confirm_running_image_def by (auto intro!: speaks_rules speaks_reports)

subsection \<open>Updating\<close>

lemma speaks_pump_get: "stays (speaks ms ks) (pump_get f)"
  unfolding pump_get_def by (rule speaks.stays_gets)

lemma speaks_pump_set: "stays (speaks ms ks) (pump_set f)"
  unfolding pump_set_def by (rule speaks_modify) simp

lemma speaks_pump_tick: "stays (speaks ms {}) pump_tick"
  unfolding pump_tick_def
  by (intro speaks_rules speaks_pump_get speaks_pump_set speaks_send_heartbeat speaks_send_logs)

lemma speaks_pump_wait: "stays (speaks ms {}) (pump_wait d)"
  unfolding pump_wait_def pump_wait_turn_def
  by (auto intro!: speaks_rules speaks_tell speaks_pump_tick)

interpretation speaks_slot: slot_sink "speaks ms ks" agent_sink
  by unfold_locales (auto simp: agent_sink_def intro: speaks_world dest: staysD [OF speaks_world(19)])

lemma speaks_download: "stays (speaks ms {}) (download u :: ('s agent_world_scheme, unit) prog)"
proof -
  have around: "around (speaks ms {}) agent_http (agent_pump :: 's agent_world_scheme progress)"
    by (auto simp: around_def agent_http_def agent_pump_def pump_report_def
        intro!: speaks_rules speaks_pump_tick speaks_pump_wait speaks_reports)
  have "stays (speaks ms {}) (install digest u agent_http agent_sink stp
      agent_pump :: ('s agent_world_scheme, install_report) prog)" for digest stp
    unfolding install_def agent_sink_def [THEN arg_cong, of sk_commit] agent_sink_def [THEN arg_cong, of sk_abort]
    by (auto intro!: speaks_rules speaks_slot.around_download [OF around] split: option.split sum.split)
  then show ?thesis
    unfolding download_def by (auto intro!: speaks_rules speaks_pump_set split: prod.split)
qed

lemma speaks_apply_update: "stays (speaks ms {}) (apply_update u)"
  unfolding apply_update_def
  by (auto intro!: speaks_rules speaks_download speaks_reports split: option.split sum.split)

text \<open>
  The link compares references as options: before it has joined, a reply under no reference is the
  join's answer too. \<open>label\<close> says no more of such an answer for that reason.
\<close>

lemma unreferenced_reply_attaches:
  assumes "handle_extension_frame m s = Some (r, t)" and "lk_extensions_join_ref (lk s) = None"
    and "msg_event m = EV_REPLY" and "msg_reference m = None"
  shows "extensions_joined (lk t) \<and> attached_extensions (lk t) = attached_by m"
proof -
  let ?u = "s\<lparr>lk := (lk s)\<lparr>lk_extensions :=
    (lk_extensions (lk s))\<lparr>ext_joined := True, attached := attached_by m\<rparr>\<rparr>\<rparr>"
  have "andthen (send_extension (map (\<lambda>key. Send (key @ '':attached'') (jobj [])) (attached_by m)))
      (\<lambda>_. ok Action_None) ?u = Some (r, t)"
    using assms
    by (simp add: handle_extension_frame_def link_get_def link_set_def prog_simps andthen_gets andthen_modify
        on_join_reply_run Let_def)
  moreover have "stays (keeps lk_extensions) (andthen (send_extension outs) (\<lambda>_. ok Action_None))" for outs
    unfolding send_extension_def send_outgoing_def
    by (auto intro!: keeps.stays_rules keeps_intros split: outgoing.split)
  ultimately have "keeps lk_extensions ?u t" by (rule staysD [rotated])
  then show ?thesis by (simp add: keeps_def extensions_joined_def attached_extensions_def)
qed

subsection \<open>A turn of the session\<close>

text \<open>What an action says of the message it came from and of the link.\<close>

definition action_from :: "message \<Rightarrow> link \<Rightarrow> action \<Rightarrow> bool" where
  "action_from m l act = (case act of
      Action_Console input \<Rightarrow> msg_topic m = CONSOLE_TOPIC
    | Action_ConsoleRestart \<Rightarrow> msg_topic m = CONSOLE_TOPIC
    | Action_Extension needs \<Rightarrow> list_all (need_on (set (attached_extensions l))) needs
    | _ \<Rightarrow> True)"

lemma decide_action: "decide u s = Some (Inr act, t) \<Longrightarrow> act \<in> {Action_None, Action_ApplyUpdate u}"
  by (cases "e_decide (w_env s) (w_hist s) u")
    (auto simp: decide_def world_calls world_steps prog_simps dest!: andthen_ok_Inr split: if_splits)

lemma action_from_message:
  assumes "handle_message m s = Some (Inr act, t)"
  shows "action_from m (lk t) act"
proof (cases "msg_topic m = EXTENSIONS_TOPIC")
  case True
  then have "handle_extension_frame m s = Some (Inr act, t)" using assms by (simp add: handle_message_def)
  then show ?thesis
    by (auto simp: handle_extension_frame_def andthen_Inr ok_def link_get_def gets_def on_event_def need_on_def
        is_attached_def attached_extensions_def action_from_def split: if_splits)
next
  case False
  have device: "act \<in> {Action_None, Action_ApplyUpdate u}" if "decide u v = Some (Inr act, t)" for u v
    using decide_action that .
  show ?thesis
  proof (cases "msg_topic m = CONSOLE_TOPIC")
    case True
    then have "handle_console_frame m s = Some (Inr act, t)"
      using assms False by (simp add: handle_message_def)
    then show ?thesis
      using True by (auto simp: handle_console_frame_def action_from_def andthen_Inr ok_def
          split: if_splits option.splits)
  next
    case False
    then show ?thesis
      using assms \<open>msg_topic m \<noteq> EXTENSIONS_TOPIC\<close>
      by (auto simp: handle_message_def handle_reply_def andthen_Inr ok_def fail_def action_from_def
          split: if_splits option.splits dest!: device)
  qed
qed

lemma speaks_perform:
  assumes "action_from m l act"
  shows "stays (speaks {m} (set (attached_extensions l))) (perform act k)"
proof (cases act)
  case (Action_ApplyUpdate u)
  have "stays (speaks {m} ks) (apply_update u)" for ks
    using speaks_apply_update [of "{}" u] by (rule stays_speaks_more)
  then show ?thesis unfolding perform_def Action_ApplyUpdate by (auto intro!: speaks_rules)
next
  case (Action_Console input)
  then have m: "msg_topic m = CONSOLE_TOPIC" using assms by (simp add: action_from_def)
  show ?thesis
    unfolding perform_def Action_Console by (auto intro!: speaks_rules speaks_answer_console [OF singletonI m])
next
  case Action_ConsoleRestart
  then have m: "msg_topic m = CONSOLE_TOPIC" using assms by (simp add: action_from_def)
  show ?thesis
    unfolding perform_def Action_ConsoleRestart
    by (auto intro!: speaks_rules speaks_send_console [OF singletonI m] speaks_modify)
next
  case (Action_Extension needs)
  then have "list_all (need_on (set (attached_extensions l))) needs" using assms by (simp add: action_from_def)
  then show ?thesis
    unfolding perform_def Action_Extension by (auto intro!: speaks_rules speaks_answer_extension)
qed (auto simp: perform_def intro!: speaks_rules speaks_reports)

text \<open>Hearing a message makes it known.\<close>

lemma speaks_heard:
  assumes "decode_frame (wire_codec s) f = Inr m"
    and "speaks {m} {} (s\<lparr>w_hist := w_hist s @ [Ev_Received (Inr (Some f))]\<rparr>) t"
  shows "speaks {} {} s t"
proof -
  let ?u = "s\<lparr>w_hist := w_hist s @ [Ev_Received (Inr (Some f))]\<rparr>"
  from assms(2) obtain evs where evs: "w_env t = w_env s" "lk_config (lk t) = lk_config (lk s)"
    "w_hist t = w_hist ?u @ evs" "\<And>past. prepared {m} {} ?u past \<Longrightarrow>
        spoken (wire_codec s) (wire_serializer s) past evs \<and> prepared {m} {} t (past @ evs)"
    unfolding speaks_def by auto
  have "spoken (wire_codec s) (wire_serializer s) past (Ev_Received (Inr (Some f)) # evs) \<and>
      prepared {} {} t (past @ Ev_Received (Inr (Some f)) # evs)" if "prepared {} {} s past" for past
  proof -
    have "heard (wire_codec s) (past @ [Ev_Received (Inr (Some f))]) m"
      using assms(1) by (auto simp: heard_def)
    then have "prepared {m} {} ?u (past @ [Ev_Received (Inr (Some f))])"
      using that by (simp add: prepared_def knows_def informed_later)
    from evs(4) [OF this] show ?thesis by (simp add: prepared_def knows_def)
  qed
  then show ?thesis
    using evs unfolding speaks_def
    by (intro conjI exI [of _ "Ev_Received (Inr (Some f)) # evs"]) simp_all
qed

lemma speaks_turn_frame: "stays (speaks {} {}) (turn_frame l :: ('s agent_world_scheme, session_locals + stopped option) prog)"
proof (rule staysI)
  fix s r and t :: "'s agent_world_scheme"
  assume run: "turn_frame l s = Some (r, t)"
  let ?ans = "e_recv (w_env s) (w_hist s)"
  let ?u = "s\<lparr>w_hist := w_hist s @ [Ev_Received ?ans]\<rparr>"
  have recv: "recv_frame s = Some (?ans, ?u)" by (simp add: world_runs)
  have u: "speaks {} {} s ?u" by (rule speaks_silent) (simp_all add: emits_def)
  have quiet: "stays (speaks {} {}) (andthen (log_text Level_Warn txt') (\<lambda>_. ok (session_ends None)))" for txt'
    by (intro speaks_rules)
  show "speaks {} {} s t"
  proof (cases "\<exists>f. ?ans = Inr (Some f)")
    case False
    then have "t = ?u"
      using run by (auto simp: turn_frame_def andthen_attempt recv prog_simps split: sum.splits option.splits)
    then show ?thesis using u by simp
  next
    case True
    then obtain f where f: "?ans = Inr (Some f)" by blast
    have rest: "andthen (attempt (handle f)) (\<lambda>handled. case handled of
               Inr act \<Rightarrow> perform act l
             | Inl err \<Rightarrow> andthen (log_text Level_Warn (could_not_handle (frame_len f) err)) (\<lambda>_.
                 ok (session_ends None))) ?u = Some (r, t)"
      using run f by (simp add: turn_frame_def andthen_attempt recv)
    show ?thesis
    proof (cases "decode_frame (wire_codec s) f")
      case (Inl e)
      then have "handle f ?u = Some (Inl e, ?u)" by (simp add: handle_def prog_simps)
      then have "andthen (log_text Level_Warn (could_not_handle (frame_len f) e)) (\<lambda>_.
          ok (session_ends None)) ?u = Some (r, t)"
        using rest by (simp add: andthen_attempt)
      with quiet have "speaks {} {} ?u t" by (rule staysD)
      with u show ?thesis by (rule speaks.rel_trans)
    next
      case (Inr m)
      then have handled: "handle f ?u = handle_message m ?u" by (simp add: handle_def prog_simps)
      then obtain h v where h: "handle_message m ?u = Some (h, v)"
        using rest by (cases "handle_message m ?u") (auto simp: andthen_attempt)
      have v: "speaks {m} {} ?u v" using speaks_handle_message h by (rule staysD)
      have "speaks {m} {} v t"
      proof (cases h)
        case (Inl e)
        then have "andthen (log_text Level_Warn (could_not_handle (frame_len f) e)) (\<lambda>_.
            ok (session_ends None)) v = Some (r, t)"
          using rest h handled by (simp add: andthen_attempt)
        with quiet have "speaks {} {} v t" by (rule staysD)
        then show ?thesis by (rule speaks_more)
      next
        case (Inr act)
        then have "perform act l v = Some (r, t)" using rest h handled by (simp add: andthen_attempt)
        moreover have "action_from m (lk v) act" using h Inr by (simp add: action_from_message)
        then have "stays (speaks {m} (set (attached_extensions (lk v)))) (perform act l ::
            ('s agent_world_scheme, session_locals + stopped option) prog)" by (rule speaks_perform)
        ultimately have "speaks {m} (set (attached_extensions (lk v))) v t" by (rule staysD [rotated])
        then show ?thesis by (rule speaks_attached) simp
      qed
      with v have "speaks {m} {} ?u t" by (rule speaks.rel_trans)
      then show ?thesis using speaks_heard [OF Inr] f by simp
    qed
  qed
qed

lemma speaks_turn_parts:
  "stays (speaks {} {}) (turn_confirm l)"
  "stays (speaks {} {}) (turn_report_extensions l)"
  "stays (speaks {} {}) (turn_heartbeat now l)"
  "stays (speaks {} {}) (turn_logs now l)"
  "stays (speaks {} {}) (turn_window window now l)"
  unfolding turn_confirm_def turn_report_extensions_def turn_heartbeat_def turn_logs_def turn_window_def
  by (auto intro!: speaks_rules speaks_modify speaks_confirm_running_image speaks_touch_logs
      speaks_send_heartbeat speaks_send_logs speaks_nothing_outstanding split: option.split)

lemma speaks_turn_control: "stays (speaks {} {}) (turn_control has_control :: ('s agent_world_scheme, bool) prog)"
proof -
  have "stays (speaks {} {}) (andthen (link_get (\<lambda>k. HEALTH \<in> set (attached_extensions k)))
      (\<lambda>att. andthen (only_if att (answer_extension [NeedHealth])) (\<lambda>_. ok False)) :: ('s agent_world_scheme, bool) prog)"
  proof (rule staysI)
    fix s t :: "'s agent_world_scheme" and r
    let ?att = "HEALTH \<in> set (attached_extensions (lk s))"
    assume "andthen (link_get (\<lambda>k. HEALTH \<in> set (attached_extensions k)))
      (\<lambda>att. andthen (only_if att (answer_extension [NeedHealth])) (\<lambda>_. ok False)) s = Some (r, t)"
    then have "andthen (only_if ?att (answer_extension [NeedHealth])) (\<lambda>_. ok False) s = Some (r, t)"
      by (simp add: link_get_def andthen_gets)
    moreover have "stays (speaks {} (if ?att then {HEALTH} else {}))
        (andthen (only_if ?att (answer_extension [NeedHealth])) (\<lambda>_. ok False) :: ('s agent_world_scheme, bool) prog)"
      by (intro speaks_rules speaks_answer_extension) (simp add: need_on_def)
    ultimately have "speaks {} (if ?att then {HEALTH} else {}) s t" by (rule staysD [rotated])
    then show "speaks {} {} s t" by (rule speaks_attached) simp
  qed
  then show ?thesis
    unfolding turn_control_def by (auto intro!: speaks_rules split: control.split)
qed

lemma says_turn_extensions: "says_at s (turn_extensions l)"
proof -
  have join: "says_at t (andthen (gets lk) (\<lambda>k.
     if lk_joined k \<and> extensions_wanted k \<and> \<not> sl_extensions_joined l \<and> (extensions_invited k \<or> overdue)
     then andthen send_extensions_join (\<lambda>_. ok (l\<lparr>sl_extensions_joined := True\<rparr>)) else ok l))" for t overdue
    by (intro says_gets) (auto intro!: says_andthen says_extensions_join intro: says_speaks speaks.stays_ok)
  have overdue: "stays (speaks {} {}) (case sl_joined_at l of None \<Rightarrow> ok False
      | Some at \<Rightarrow> andthen now_ms (\<lambda>now. ok (EXTENSIONS_INVITATION_WAIT_MS \<le> saturating_sub now at)))"
    by (auto intro!: speaks_rules split: option.split)
  show ?thesis
    unfolding turn_extensions_def by (rule says_andthen [OF says_speaks [OF overdue] join])
qed

lemma says_turn_console: "says_at s (turn_console l)"
  unfolding turn_console_def
  by (intro says_gets) (auto intro!: says_andthen says_console_join intro: says_speaks speaks.stays_ok)

lemma says_session_turn: "says_at s (session_turn window has_control l)"
proof -
  have head: "says_at s (turn_head l)" for s l
    unfolding turn_head_def
    by (intro says_andthen says_turn_extensions says_turn_console says_speaks speaks_turn_parts)
  have rest: "stays (speaks {} {}) (andthen now_ms (\<lambda>now. andthen (turn_heartbeat now l) (\<lambda>l.
     andthen (turn_logs now l) (\<lambda>l. andthen (turn_control has_control) (\<lambda>leave.
     if leave then ok (session_ends (Some Stopped_Finished))
     else andthen (turn_window window now l) (\<lambda>over.
       if over then ok (session_ends (Some Stopped_Finished)) else turn_frame l))))))" for l
    by (auto intro!: speaks_rules speaks_turn_parts speaks_turn_control speaks_turn_frame)
  show ?thesis
    unfolding session_turn_def by (rule says_andthen [OF head says_speaks [OF rest]])
qed

subsection \<open>A session, from its join\<close>

definition spoke :: "'s agent_world_scheme \<Rightarrow> 's agent_world_scheme \<Rightarrow> bool" where
  "spoke s t \<longleftrightarrow> (\<exists>evs. w_hist t = w_hist s @ evs \<and>
     spoken (e_codec (w_env s)) (cfg_serializer (ag_config s)) [] evs)"

text \<open>The session has sent its join and may go on.\<close>

definition begun :: "'s agent_world_scheme \<Rightarrow> 's agent_world_scheme \<Rightarrow> bool" where
  "begun s t \<longleftrightarrow> w_env t = w_env s \<and> lk_config (lk t) = ag_config s \<and> (\<exists>evs. w_hist t = w_hist s @ evs \<and>
     spoken (e_codec (w_env s)) (cfg_serializer (ag_config s)) [] evs \<and> prepared {} {} t evs)"

lemma begun_spoke: "begun s t \<Longrightarrow> spoke s t"
  unfolding begun_def spoke_def by blast

lemma begun_outcome:
  assumes "begun s t" and "outcome t rt"
  shows "case rt of (Inr _, u) \<Rightarrow> begun s u | (Inl _, u) \<Rightarrow> spoke s u"
proof -
  from assms(1) obtain xs where xs: "w_env t = w_env s" "lk_config (lk t) = ag_config s"
    "w_hist t = w_hist s @ xs" "spoken (e_codec (w_env s)) (cfg_serializer (ag_config s)) [] xs"
    "prepared {} {} t xs"
    unfolding begun_def by blast
  obtain r u where rt: "rt = (r, u)" by fastforce
  show ?thesis
  proof (cases r)
    case (Inl e)
    then have "utters t u" using assms(2) rt by simp
    then obtain ys where "w_hist u = w_hist t @ ys" "spoken (wire_codec t) (wire_serializer t) xs ys"
      using xs(5) unfolding utters_def by blast
    then have "spoke s u" using xs unfolding spoke_def by (intro exI [of _ "xs @ ys"]) simp
    then show ?thesis using Inl rt by simp
  next
    case (Inr a)
    then have "speaks {} {} t u" using assms(2) rt by simp
    then obtain ys where ys: "w_env u = w_env t" "lk_config (lk u) = lk_config (lk t)" "w_hist u = w_hist t @ ys"
      "spoken (wire_codec t) (wire_serializer t) xs ys" "prepared {} {} u (xs @ ys)"
      using xs(5) unfolding speaks_def by blast
    then have "begun s u" using xs unfolding begun_def by (intro conjI exI [of _ "xs @ ys"]) simp_all
    then show ?thesis using Inr rt by simp
  qed
qed

text \<open>What comes before the join sends nothing, and the link is new.\<close>

lemma session_begin_quiet:
  "\<exists>boot v evs con. session_begin s = send_join boot v \<and> w_env v = w_env s \<and> w_hist v = w_hist s @ evs \<and>
     list_all (\<lambda>e. \<not> sends e) evs \<and>
     lk v = (link_new (ag_config s) (ag_metadata s))\<lparr>lk_console_wanted := con\<rparr>"
proof -
  let ?p = "e_pending_verify (w_env s) (w_hist s)"
  let ?b = "e_auto_revert (w_env s) (w_hist s @ [Ev_PendingVerify ?p])"
  let ?evs = "[Ev_PendingVerify ?p, Ev_AutoRevert ?b] @ (if ?b then [Ev_Logged Level_Warn reverted_text] else [])"
  let ?v = "s\<lparr>lk := (link_new (ag_config s) (ag_metadata s))\<lparr>lk_console_wanted := ag_console s \<noteq> None\<rparr>,
    w_hist := w_hist s @ ?evs\<rparr>"
  have "session_begin s = send_join
      \<lparr>firmware_validated = (?p = PendingVerify_No), firmware_auto_revert_detected = ?b\<rparr> ?v"
    by (cases "ag_console s"; cases ?b)
      (simp_all add: session_begin_def read_boot_report_def andthen_run world_runs link_set_def
        modify_def gets_def only_if_def ok_def link_new_def want_console_def)
  then show ?thesis
    by (intro exI [of _ ?v] exI [of _ ?evs] exI conjI) simp_all
qed

lemma begin_link_write:
  assumes "send_join boot v = Some (r, t)" and "lk_refs (lk v) = 0"
  shows "\<exists>m. is_join DEVICE_TOPIC first_ref m \<and> link_write m
    (v\<lparr>lk := (lk v)\<lparr>lk_refs := 1, lk_join_ref := Some first_ref, lk_joined := False\<rparr>\<rparr>) = Some (r, t)"
proof -
  have "fresh_ref v = Some (Inr first_ref, v\<lparr>lk := (lk v)\<lparr>lk_refs := 1\<rparr>\<rparr>)"
    using assms(2) by (simp add: fresh_ref_def next_ref_0)
  then have "\<exists>params. link_write
      (with_refs (new_message DEVICE_TOPIC EV_JOIN params) (Some first_ref) (Some first_ref))
      (v\<lparr>lk := (lk v)\<lparr>lk_refs := 1, lk_join_ref := Some first_ref, lk_joined := False\<rparr>\<rparr>) = Some (r, t)"
    using assms(1)
    by (auto simp: send_join_def link_send_def andthen_run [of fresh_ref] link_set_def link_get_def andthen_gets
        andthen_modify)
  moreover have "is_join DEVICE_TOPIC first_ref
      (with_refs (new_message DEVICE_TOPIC EV_JOIN params) (Some first_ref) (Some first_ref))" for params
    by (simp add: is_join_def)
  ultimately show ?thesis by blast
qed

lemma session_begin_begins:
  assumes "session_begin s = Some (r, t)"
  shows "case r of Inr _ \<Rightarrow> begun s t | Inl _ \<Rightarrow> spoke s t"
proof -
  obtain boot v evs con where v: "session_begin s = send_join boot v" "w_env v = w_env s"
    "w_hist v = w_hist s @ evs" "list_all (\<lambda>e. \<not> sends e) evs"
    "lk v = (link_new (ag_config s) (ag_metadata s))\<lparr>lk_console_wanted := con\<rparr>"
    using session_begin_quiet [of s] by blast
  let ?C = "e_codec (w_env s)" and ?z = "cfg_serializer (ag_config s)"
  let ?u = "v\<lparr>lk := (lk v)\<lparr>lk_refs := 1, lk_join_ref := Some first_ref, lk_joined := False\<rparr>\<rparr>"
  have refs: "lk_refs (lk v) = 0" using v(5) by (simp add: link_new_def)
  have "send_join boot v = Some (r, t)" using assms v(1) by simp
  from begin_link_write [OF this refs] obtain m where m: "is_join DEVICE_TOPIC first_ref m"
    and wr: "link_write m ?u = Some (r, t)" by blast
  have cfg: "lk_config (lk ?u) = ag_config s" using v(5) by (simp add: link_new_def)
  show ?thesis
  proof (cases "encode_as ?C m ?z")
    case (Inl e)
    then have "r = Inl e" "t = ?u" using wr cfg v(2) by (auto simp: link_write_def prog_simps)
    then show ?thesis using v(3,4) spoken_silent by (auto simp: spoke_def)
  next
    case (Inr f)
    let ?e = "Ev_Sent f (e_send (w_env s) (w_hist v) f)"
    have t: "t = ?u\<lparr>w_hist := w_hist v @ [?e]\<rparr>"
      using wr cfg v(2) Inr by (auto simp: link_write_def prog_simps world_calls fallible_call_run)
    have "spoken ?C ?z [] (evs @ [?e])"
      using v(4) Inr m by (auto simp: spoken_silent may_say_def device_message_def)
    moreover have "prepared {} {} t (evs @ [?e])"
      using t v(2,5) cfg m said_now [OF Inr, of evs]
      by (auto simp: prepared_def knows_def informed_def join_said_def label_def attached_extensions_def
          link_new_def new_extensions_def)
    ultimately have "begun s t"
      using t v(2,3) cfg unfolding begun_def by (intro conjI exI [of _ "evs @ [?e]"]) simp_all
    then show ?thesis by (cases r) (simp_all add: begun_spoke)
  qed
qed

lemma session_start_begins:
  assumes "session_start s = Some (r, t)"
  shows "case r of Inr _ \<Rightarrow> begun s t | Inl _ \<Rightarrow> spoke s t"
proof -
  let ?rest = "andthen now_ms (\<lambda>last_log. andthen now_ms (\<lambda>last_heartbeat.
     andthen (gets (\<lambda>s. heartbeat_interval_ms (ag_config s))) (\<lambda>heartbeat_ms.
     andthen now_ms (\<lambda>started.
     ok \<lparr>sl_confirmed = False, sl_extensions_joined = False, sl_extensions_reported = False,
         sl_console_joined = False, sl_last_log = last_log, sl_last_heartbeat = last_heartbeat,
         sl_heartbeat_ms = heartbeat_ms, sl_started = started, sl_joined_at = None,
         sl_health_answered = False\<rparr>))))"
  have "stays (speaks {} {}) ?rest" by (intro speaks_rules)
  then have rest: "outcome u (r, t)" if "?rest u = Some (r, t)" for u
    using says_atD [OF says_speaks] that by blast
  from assms consider (failed) e where "session_begin s = Some (Inl e, t)" "r = Inl e"
    | (went) u where "session_begin s = Some (Inr (), u)" "?rest u = Some (r, t)"
    by (auto simp: session_start_def andthen_Some [of session_begin])
  then show ?thesis
  proof cases
    case failed
    then show ?thesis using session_begin_begins [OF failed(1)] by simp
  next
    case went
    then have "begun s u" using session_begin_begins [OF went(1)] by simp
    from begun_outcome [OF this rest [OF went(2)]] show ?thesis by simp
  qed
qed

lemma in_session_spoke:
  assumes "in_session window has_control s t"
  shows "spoke s t"
  using assms
proof cases
  case (turn_begins l u k)
  have "begun s u" using session_start_begins [OF turn_begins(1)] by simp
  moreover have "begun s w"
    if "begun s v" and "session_turn window has_control k v = Some (Inr (Inl k'), w)" for k v k' w
    using begun_outcome [OF that(1) says_atD [OF says_session_turn that(2)]] by simp
  ultimately have "begun s t"
    using loop_head_invariant [OF turn_begins(2), where I = "\<lambda>_. begun s"] by blast
  then show ?thesis by (rule begun_spoke)
qed

lemma session_spoke:
  assumes "session_within window has_control s = Some (r, t)"
  shows "spoke s t"
proof -
  from assms consider (failed) e where "session_start s = Some (Inl e, t)"
    | (went) l u where "session_start s = Some (Inr l, u)"
        "iterate (session_turn window has_control) l u = Some (r, t)"
    by (auto simp: session_within_def andthen_Some)
  then show ?thesis
  proof cases
    case failed
    then show ?thesis using session_start_begins [OF failed] by simp
  next
    case went
    have "begun s u" using session_start_begins [OF went(1)] by simp
    moreover have "says_at u (iterate (session_turn window has_control) l)"
      by (rule says_iterate) (rule says_session_turn)
    then have "outcome u (r, t)" using went(2) by (rule says_atD)
    ultimately have "case r of Inr _ \<Rightarrow> begun s t | Inl _ \<Rightarrow> spoke s t" by (auto dest: begun_outcome)
    then show ?thesis by (cases r) (simp_all add: begun_spoke)
  qed
qed

subsection \<open>Properties\<close>

text \<open>
  C5: a session keeps to the channels' protocol. At every turn, of one that never ends too, and at
  its end, each frame it tried to send encodes a message allowed by what the session sent and
  received before it: the device's join first and everything of the device's under that join's
  reference; the other two channels joined only after NervesHub accepted it; an extension's
  reports only after an answer to the extensions' join named that extension; the console only
  answering; and heartbeats under no join.
\<close>

theorem session_keeps_protocol:
  assumes "in_session window has_control s t \<or> session_within window has_control s = Some (r, t)"
  shows "\<exists>evs. w_hist t = w_hist s @ evs \<and>
    spoken (e_codec (w_env s)) (cfg_serializer (ag_config s)) [] evs"
  using assms in_session_spoke session_spoke unfolding spoke_def by blast

theorem session_keeps_protocol_witness:
  "\<exists>t evs. in_session None False demo_agent t \<and> w_hist t = w_hist demo_agent @ evs \<and>
    spoken demo_codec Serializer_Json [] evs"
proof -
  obtain l u where "session_start demo_agent = Some (Inr l, u)" using demo_session_start by blast
  then have u: "in_session None False demo_agent u" by (rule turn_begins) (rule head_start)
  then show ?thesis
    using session_keeps_protocol [of None False demo_agent u]
    by (auto simp: demo_agent_def demo_env_def demo_config_def config_new_def)
qed

end
