(* ===== verification/Window.thy ===== *)
theory Window
  imports Session
begin

text \<open>
  A session with a window ends. Whatever NervesHub sends and however the connection behaves, the
  loop of \<open>session_within\<close> comes to its limit when the clock runs, a reception takes some
  time, and the updates the application accepts have a size.
\<close>

subsection \<open>Every part of a turn returns\<close>

lemma andthen_returns:
  "m s \<noteq> None \<Longrightarrow> (\<And>a t. m s = Some (Inr a, t) \<Longrightarrow> f a t \<noteq> None) \<Longrightarrow> andthen m f s \<noteq> None"
  by (auto simp: andthen_run split: option.split sum.split)

lemma returnsD: "returns m \<Longrightarrow> m s \<noteq> None"
  by (simp add: returns_def)

lemma returns_calls:
  "returns now_ms" "returns (do_sleep d)" "returns do_restart" "returns do_identify" "returns ask_location"
  "returns ask_health" "returns (ask_command name args)" "returns ask_control" "returns (log_text lv tx)"
  "returns do_pending_verify" "returns do_mark_valid" "returns recv_frame" "returns (do_decide u)"
  "returns do_auto_revert" "returns do_connect"
  by (simp_all add: world_calls returns_world)

lemma returns_senders:
  "returns send_heartbeat" "returns (send_progress st p)" "returns (send_status status extra)"
  "returns send_rebooting" "returns send_firmware_validated" "returns (send_join boot)"
  unfolding send_heartbeat_def send_progress_def send_status_def send_rebooting_def
    send_firmware_validated_def send_join_def link_send_def
  by (intro returns_rules returns_world returns_link_write returns_send_event)+

lemma returns_channel_senders:
  "returns (send_console text)" "returns send_console_join" "returns (send_extension outs)"
proof -
  show "returns (send_console text)" "returns send_console_join"
    by (auto simp: send_console_def send_console_join_def intro!: returns_rules returns_world returns_link_write)
  have "returns (send_outgoing out)" for out
    by (cases out) (auto simp: send_outgoing_def intro!: returns_rules returns_world returns_link_write)
  then show "returns (send_extension outs)" by (auto simp: send_extension_def intro!: returns_rules)
qed

lemma returns_extensions_join: "returns (send_extensions_join :: ('s link_world_scheme, unit) prog)"
proof -
  have "returns (andthen (link_set f) (\<lambda>_. link_write m) :: ('s link_world_scheme, unit) prog)" for f m
    by (intro returns_rules returns_world returns_link_write)
  then show ?thesis by (auto simp: send_extensions_join_def returns_def split: prod.split)
qed

lemma returns_upkeep:
  "returns (touch_logs f)" "returns (send_logs now last_log)" "returns has_logs"
  "returns (nothing_outstanding h)" "returns confirm_running_image"
  by (auto simp: has_logs_def nothing_outstanding_def confirm_running_image_def
      intro!: returns_rules returns_touch_logs returns_send_logs returns_calls returns_senders split: prod.split)

lemma returns_answer_extension: "returns (answer_extension needs)"
proof -
  have "returns (answer_need need)" for need
    unfolding answer_need_def
    by (cases need)
      (simp_all del: andthen_simps, (intro returns_rules returns_calls returns_channel_senders | simp | safe)+)
  then show ?thesis by (auto simp: answer_extension_def intro!: returns_rules)
qed

lemma returns_log_command: "returns (log_command args)"
  unfolding log_command_def
  by (auto intro!: returns_rules returns_upkeep split: list.split option.split)

lemma returns_console_run: "returns (console_run line con)"
  unfolding console_run_def
  by (auto simp: Let_def intro!: returns_rules returns_calls split: option.split prod.split)

lemma returns_answer_console: "returns (answer_console input :: ('s agent_world_scheme, bool) prog)"
proof -
  have "returns (answer_lines lines reply :: ('s agent_world_scheme, bool) prog)" for lines reply
    by (induction lines arbitrary: reply)
      (auto simp: Let_def intro!: returns_rules returns_calls returns_channel_senders returns_log_command
        returns_console_run split: option.split)
  then show ?thesis by (auto simp: answer_console_def returns_def split: option.split prod.split)
qed

lemma returns_turn_parts:
  "returns (turn_confirm l)" "returns (turn_extensions l)" "returns (turn_console l)"
  "returns (turn_report_extensions l)" "returns (turn_heartbeat now l)" "returns (turn_logs now l)"
  "returns (turn_control has_control)" "returns (turn_window window now l)"
  unfolding turn_confirm_def turn_extensions_def turn_console_def turn_report_extensions_def turn_heartbeat_def
    turn_logs_def turn_control_def turn_window_def
  by (auto intro!: returns_rules returns_calls returns_world returns_upkeep returns_senders
      returns_channel_senders returns_extensions_join returns_answer_extension
      split: option.split control.split)

lemma returns_turn_head: "returns (turn_head l)"
  unfolding turn_head_def by (intro returns_rules returns_turn_parts)

lemma returns_handle: "returns (handle f)"
proof -
  have decide: "returns (decide u)" for u
    unfolding decide_def
    by (auto intro!: returns_rules returns_calls returns_senders split: update_decision.split)
  have parse: "returns (parse_payload j)" for j
    unfolding parse_payload_def by (intro returns_rules)
  have reply: "returns (handle_reply m)" for m
    unfolding handle_reply_def
    by (auto intro!: returns_rules returns_world decide parse split: option.split)
  have con: "returns (handle_console_frame m)" for m
    unfolding handle_console_frame_def
    by (auto intro!: returns_rules returns_world returns_channel_senders split: option.split)
  have ext: "returns (handle_extension_frame m)" for m
    unfolding handle_extension_frame_def Let_def
    by (auto intro!: returns_rules returns_world returns_channel_senders split: prod.split)
  have "returns (handle_message m)" for m
    unfolding handle_message_def
    by (auto intro!: returns_rules returns_world decide parse reply con ext)
  then show ?thesis unfolding handle_def by (intro returns_rules)
qed

subsection \<open>Performing an action returns\<close>

text \<open>
  What is asked of the world for that: a clock that runs, reads that keep to their buffer, and a
  size for every update the application accepts.
\<close>

definition downloads_end :: "env \<Rightarrow> bool" where
  "downloads_end E \<longleftrightarrow> clock_runs E \<and> reads_fit E \<and> (\<forall>h u. e_decide E h u = Apply \<longrightarrow> sized E u)"

lemma apply_update_returns:
  assumes "downloads_end (w_env s)" and "sized (w_env s) u"
  shows "apply_update u s \<noteq> None"
proof -
  let ?mark = "case actionable u of Some (_, uuid) \<Rightarrow> set_downloading (Some uuid) | None \<Rightarrow> ok ()"
  have split: "apply_update u = andthen ?mark (\<lambda>_. andthen (attempt (download u)) (\<lambda>outcome.
      andthen (set_downloading None) (\<lambda>_. apply_report outcome)))"
    by (simp add: apply_update_def apply_report_def)
  obtain t where t: "?mark s = Some (Inr (), t)" "w_env t = w_env s"
    by (cases "actionable u") (auto simp: set_downloading_def link_set_def modify_def ok_def)
  obtain out v where "download u t = Some (out, v)"
    using download_returns [of t u] assms t(2) by (auto simp: downloads_end_def)
  then have "apply_update u s = andthen (set_downloading None) (\<lambda>_. apply_report out) v"
    using t(1) by (simp add: split andthen_run [of ?mark] andthen_attempt)
  moreover have "returns (andthen (set_downloading None) (\<lambda>_. apply_report outcome))" for outcome
    unfolding apply_report_def set_downloading_def
    by (auto intro!: returns_rules returns_world returns_calls returns_senders split: sum.split)
  ultimately show ?thesis using returnsD by metis
qed

lemma perform_returns:
  assumes "downloads_end (w_env s)" and "\<And>u. act = Action_ApplyUpdate u \<Longrightarrow> sized (w_env s) u"
  shows "perform act l s \<noteq> None"
proof (cases act)
  case (Action_ApplyUpdate u)
  have after: "returns (if b then ok (session_ends (Some Stopped_Rebooting))
      else andthen now_ms (\<lambda>now. ok (session_goes_on (l\<lparr>sl_last_heartbeat := now\<rparr>))))" for b
    by (cases b) (auto intro!: returns_calls returns_rules)
  have "apply_update u s \<noteq> None"
    using assms Action_ApplyUpdate by (intro apply_update_returns) simp_all
  then show ?thesis
    unfolding perform_def Action_ApplyUpdate action.case by (rule andthen_returns) (rule returnsD [OF after])
next
  case (Action_Extension needs)
  show ?thesis
    unfolding perform_def Action_Extension action.case
    by (intro returnsD returns_rules returns_answer_extension)
next
  case (Action_Console input)
  show ?thesis
    unfolding perform_def Action_Console action.case
    by (intro returnsD returns_rules returns_answer_console)
qed (auto simp: perform_def simp del: not_None_eq
    intro!: returnsD returns_rules returns_calls returns_senders returns_channel_senders)

lemma handle_sized:
  assumes "handle f s = Some (Inr (Action_ApplyUpdate u), t)" and "downloads_end (w_env s)"
  shows "sized (w_env s) u"
proof -
  from assms(1) obtain m where "handle_message m s = Some (Inr (Action_ApplyUpdate u), t)"
    by (cases "decode_frame (e_codec (w_env s)) f") (auto simp: handle_def prog_simps)
  from handle_message_apply [OF this] assms(2) show ?thesis by (auto simp: downloads_end_def)
qed

lemma turn_frame_returns:
  assumes "downloads_end (w_env s)"
  shows "turn_frame l s \<noteq> None"
proof -
  let ?u = "s\<lparr>w_hist := w_hist s @ [Ev_Received (e_recv (w_env s) (w_hist s))]\<rparr>"
  have recv: "recv_frame s = Some (e_recv (w_env s) (w_hist s), ?u)" by (simp add: world_runs)
  have env: "w_env v = w_env s" if "handle f ?u = Some (h, v)" for f h v
    using staysD [OF emits_handle that] by (simp add: emits_def)
  have "andthen (attempt (handle f)) (\<lambda>handled. case handled of
               Inr act \<Rightarrow> perform act l
             | Inl err \<Rightarrow> andthen (log_text Level_Warn (could_not_handle (frame_len f) err)) (\<lambda>_.
                 ok (session_ends None))) ?u \<noteq> None" for f
  proof (cases "handle f ?u")
    case None
    then show ?thesis using returnsD [OF returns_handle] by blast
  next
    case (Some hv)
    obtain h v where hv: "hv = (h, v)" by fastforce
    show ?thesis
    proof (cases h)
      case (Inl err)
      have "andthen (log_text Level_Warn tx) (\<lambda>_. ok (session_ends None)) v \<noteq> None" for tx
        by (simp add: log_text_def andthen_run tell_run ok_def)
      then show ?thesis using Some hv Inl by (simp add: andthen_attempt)
    next
      case (Inr act)
      have "perform act l v \<noteq> None"
        using Some hv Inr env [of f h v] assms handle_sized [of f ?u _ v] by (intro perform_returns) auto
      then show ?thesis using Some hv Inr by (simp add: andthen_attempt)
    qed
  qed
  moreover have "turn_frame l s = (case e_recv (w_env s) (w_hist s) of
      Inr (Some f) \<Rightarrow> andthen (attempt (handle f)) (\<lambda>handled. case handled of
               Inr act \<Rightarrow> perform act l
             | Inl err \<Rightarrow> andthen (log_text Level_Warn (could_not_handle (frame_len f) err)) (\<lambda>_.
                 ok (session_ends None))) ?u
    | Inr None \<Rightarrow> Some (Inr (session_goes_on l), ?u)
    | Inl _ \<Rightarrow> Some (Inr (session_ends None), ?u))"
    by (simp add: turn_frame_def andthen_attempt [of recv_frame] recv ok_def split: sum.split option.split)
  ultimately show ?thesis by (auto simp del: andthen_attempt split: sum.split option.split)
qed

text \<open>A part of a turn returns, in the same environment.\<close>

definition stays_in :: "env \<Rightarrow> ('s agent_world_scheme, 'a) prog \<Rightarrow> bool" where
  "stays_in E m \<longleftrightarrow> runs (\<lambda>s. w_env s = E) m (\<lambda>_ s. w_env s = E) (\<lambda>s. w_env s = E)"

lemma stays_in_part: "returns m \<Longrightarrow> stays confirms m \<Longrightarrow> stays_in E m"
proof -
  assume m: "returns m" "stays confirms m"
  have "\<exists>r t. m s = Some (r, t) \<and> (case r of Inl _ \<Rightarrow> w_env t = E | Inr a \<Rightarrow> w_env t = E)" if "w_env s = E" for s
  proof -
    obtain r t where rt: "m s = Some (r, t)" using returnsD [OF m(1), of s] by auto
    then have "confirms s t" using m(2) by (blast dest: staysD)
    then have "w_env t = E" using that by (simp add: confirms_def)
    then show ?thesis using rt by (auto split: sum.split)
  qed
  then show ?thesis unfolding stays_in_def by (intro runsI)
qed

lemma stays_in_andthen: "stays_in E m \<Longrightarrow> (\<And>a. stays_in E (f a)) \<Longrightarrow> stays_in E (andthen m f)"
  unfolding stays_in_def by (rule runs_andthen)

lemma stays_in_ok: "stays_in E (ok a)"
  unfolding stays_in_def by (rule runs_ok)

lemma confirms_parts:
  "stays confirms (turn_head l)" "stays confirms now_ms" "stays confirms (turn_heartbeat now l)"
  "stays confirms (turn_logs now l)" "stays confirms (turn_control has_control)"
  "stays confirms (turn_window window now l)"
  unfolding turn_head_def
  by (auto intro!: confirms.stays_andthen confirms_turn_confirm calm_turns [THEN quiet_chat, THEN stays_confirms]
      calm_world(1) [OF refl, THEN quiet_chat, THEN stays_confirms])

lemma stays_in_parts:
  "stays_in E (turn_head l)" "stays_in E now_ms" "stays_in E (turn_heartbeat now l)"
  "stays_in E (turn_logs now l)" "stays_in E (turn_control has_control)" "stays_in E (turn_window window now l)"
  by (intro stays_in_part returns_turn_head returns_turn_parts returns_calls confirms_parts)+

lemma stays_in_turn:
  assumes "downloads_end E"
  shows "stays_in E (session_turn window has_control l :: ('s agent_world_scheme, session_locals + stopped option) prog)"
proof -
  have frame: "stays_in E (turn_frame l :: ('s agent_world_scheme, session_locals + stopped option) prog)" for l
    unfolding stays_in_def
  proof (rule runsI)
    fix s :: "'s agent_world_scheme" assume s: "w_env s = E"
    have "turn_frame l s \<noteq> None" using assms s by (intro turn_frame_returns) simp
    then obtain r t where rt: "turn_frame l s = Some (r, t)" by auto
    then have "confirms s t" using confirms_turn_frame by (blast dest: staysD)
    then have "w_env t = E" using s by (simp add: confirms_def)
    then show "\<exists>r t. turn_frame l s = Some (r, t) \<and> (case r of Inl _ \<Rightarrow> w_env t = E | Inr a \<Rightarrow> w_env t = E)"
      using rt by (auto split: sum.split)
  qed
  have over: "stays_in E (if leave then ok (session_ends (Some Stopped_Finished))
      else andthen (turn_window window now l) (\<lambda>over.
        if over then ok (session_ends (Some Stopped_Finished)) else turn_frame l)
      :: ('s agent_world_scheme, session_locals + stopped option) prog)" for leave now l
    by (cases leave) (auto intro!: stays_in_andthen stays_in_ok stays_in_parts frame)
  show ?thesis
    unfolding session_turn_def by (intro stays_in_andthen stays_in_parts over)
qed

subsection \<open>Receptions take time\<close>

fun is_received :: "event \<Rightarrow> bool" where
  "is_received (Ev_Received r) = True" | "is_received _ = False"

definition receptions :: "event list \<Rightarrow> nat" where
  "receptions evs = length (filter is_received evs)"

lemma receptions_simps [simp]:
  "receptions [] = 0" "receptions (xs @ ys) = receptions xs + receptions ys"
  "receptions (e # evs) = (if is_received e then 1 else 0) + receptions evs"
  by (simp_all add: receptions_def)

text \<open>At most \<open>k\<close> calls of \<open>recv_frame\<close> return within one tick of the clock.\<close>

definition receptions_take_time :: "env \<Rightarrow> nat \<Rightarrow> bool" where
  "receptions_take_time E k \<longleftrightarrow>
     (\<forall>h evs. receptions evs = k \<longrightarrow> e_now E h < e_now E (h @ evs) \<or> e_now E h = - 1)"

lemma receptions_prefix: "n \<le> receptions evs \<Longrightarrow> \<exists>xs ys. evs = xs @ ys \<and> receptions xs = n"
proof (induction evs arbitrary: n)
  case (Cons e evs)
  show ?case
  proof (cases "n = 0")
    case True
    then show ?thesis using append_Nil by fastforce
  next
    case False
    then have "n - receptions [e] \<le> receptions evs" using Cons.prems by (simp split: if_splits)
    from Cons.IH [OF this] obtain xs ys where "evs = xs @ ys" "receptions xs = n - receptions [e]" by blast
    then show ?thesis using False by (intro exI [of _ "e # xs"] exI [of _ ys]) (simp split: if_splits)
  qed
qed simp

lemma unat_minus_one_u64: "unat (- 1 :: u64) = 2 ^ 64 - 1"
  by (simp add: unsigned_minus_1_eq_mask mask_eq_exp_minus_1)

lemma clock_after_receptions:
  assumes "clock_runs E" and "receptions_take_time E k" and "T < 2 ^ 64"
    and "(T - unat (e_now E h)) * k \<le> receptions evs"
  shows "T \<le> unat (e_now E (h @ evs))"
  using assms(4)
proof (induction "T - unat (e_now E h)" arbitrary: h evs rule: less_induct)
  case less
  have later: "unat (e_now E g) \<le> unat (e_now E (g @ xs))" for g xs
    using assms(1) by (simp add: clock_runs_def word_le_nat_alt)
  show ?case
  proof (cases "T \<le> unat (e_now E h)")
    case True
    then show ?thesis using later [of h evs] by simp
  next
    case False
    then have "k \<le> receptions evs"
      using less.prems by (cases "T - unat (e_now E h)") auto
    then obtain xs ys where evs: "evs = xs @ ys" "receptions xs = k"
      using receptions_prefix by blast
    have "e_now E h \<noteq> - 1"
    proof
      assume "e_now E h = - 1"
      then have "unat (e_now E h) = 2 ^ 64 - 1" by (simp only: unat_minus_one_u64)
      then show False using False assms(3) by simp
    qed
    then have less_now: "unat (e_now E h) < unat (e_now E (h @ xs))"
      using assms(2) evs(2) by (auto simp: receptions_take_time_def word_less_nat_alt)
    let ?d = "T - unat (e_now E h)" and ?d' = "T - unat (e_now E (h @ xs))"
    have d: "?d' < ?d" using less_now False by simp
    then have "?d' * k \<le> (?d - 1) * k" by (intro mult_le_mono1) linarith
    also have "(?d - 1) * k \<le> receptions ys"
      using less.prems evs by (simp add: diff_mult_distrib)
    finally have "?d' * k \<le> receptions ys" .
    from less.hyps [OF d this] show ?thesis using evs(1) by simp
  qed
qed

subsection \<open>A turn that is followed by another\<close>

lemma started_kept:
  "turn_confirm l s = Some (Inr l', t) \<Longrightarrow> sl_started l' = sl_started l"
  "turn_extensions l s = Some (Inr l', t) \<Longrightarrow> sl_started l' = sl_started l"
  "turn_console l s = Some (Inr l', t) \<Longrightarrow> sl_started l' = sl_started l"
  "turn_report_extensions l s = Some (Inr l', t) \<Longrightarrow> sl_started l' = sl_started l"
  "turn_heartbeat now l s = Some (Inr l', t) \<Longrightarrow> sl_started l' = sl_started l"
  "turn_logs now l s = Some (Inr l', t) \<Longrightarrow> sl_started l' = sl_started l"
  by (auto simp: turn_confirm_def turn_extensions_def turn_console_def turn_report_extensions_def
      turn_heartbeat_def turn_logs_def andthen_Inr ok_def fail_def split: if_splits)

lemma started_kept_head: "turn_head l s = Some (Inr l', t) \<Longrightarrow> sl_started l' = sl_started l"
  unfolding turn_head_def by (auto simp: andthen_Inr dest!: started_kept)

lemma perform_goes_on: "perform act l s = Some (Inr (Inl l'), t) \<Longrightarrow> sl_started l' = sl_started l"
  by (cases act)
    (auto simp: perform_def andthen_Inr ok_def session_goes_on_def session_ends_def split: if_splits)

lemma turn_frame_goes_on:
  assumes "turn_frame l s = Some (Inr (Inl l'), t)"
  shows "sl_started l' = sl_started l \<and> (\<exists>r evs. w_hist t = w_hist s @ Ev_Received r # evs)"
proof -
  let ?ans = "e_recv (w_env s) (w_hist s)"
  let ?u = "s\<lparr>w_hist := w_hist s @ [Ev_Received ?ans]\<rparr>"
  have recv: "recv_frame s = Some (?ans, ?u)" by (simp add: world_runs)
  show ?thesis
  proof (cases "\<exists>f. ?ans = Inr (Some f)")
    case False
    then have "l' = l \<and> t = ?u"
      using assms by (auto simp: turn_frame_def andthen_attempt [of recv_frame] recv ok_def session_goes_on_def
          session_ends_def split: sum.splits option.splits)
    then show ?thesis by auto
  next
    case True
    then obtain f where f: "?ans = Inr (Some f)" by blast
    obtain act v where h: "handle f ?u = Some (Inr act, v)" and p: "perform act l v = Some (Inr (Inl l'), t)"
      using assms f
      by (cases "handle f ?u")
        (auto simp: turn_frame_def andthen_attempt recv andthen_Inr ok_def session_ends_def split: sum.splits)
    have "emits link_event ?u v" using emits_handle h by (rule staysD)
    moreover have "confirms v t" using stays_confirms [OF quiet_perform] p by (rule staysD)
    ultimately show ?thesis
      using perform_goes_on [OF p] by (auto simp: emits_def confirms_def)
  qed
qed

lemma turn_goes_on:
  assumes "session_turn (Some w) has_control l s = Some (Inr (Inl l'), t)"
  shows "w_env t = w_env s \<and> sl_started l' = sl_started l \<and>
    (\<exists>xs ys. w_hist t = w_hist s @ xs @ ys \<and> 0 < receptions ys \<and>
       saturating_sub (e_now (w_env s) (w_hist s @ xs)) (sl_started l) < of_nat (sw_limit w))"
proof -
  from assms obtain l1 l2 l3 u1 u2 u3 u4 u5 u6 now where
    head: "turn_head l s = Some (Inr l1, u1)" and now: "now_ms u1 = Some (Inr now, u2)" and
    hb: "turn_heartbeat now l1 u2 = Some (Inr l2, u3)" and logs: "turn_logs now l2 u3 = Some (Inr l3, u4)" and
    ctl: "turn_control has_control u4 = Some (Inr False, u5)" and
    win: "turn_window (Some w) now l3 u5 = Some (Inr False, u6)" and
    frame: "turn_frame l3 u6 = Some (Inr (Inl l'), t)"
    unfolding session_turn_def andthen_Inr
    by (auto simp: andthen_Inr ok_def session_ends_def split: if_splits)
  have started: "sl_started l3 = sl_started l" "sl_started l' = sl_started l"
    using started_kept_head [OF head] started_kept(5) [OF hb] started_kept(6) [OF logs] turn_frame_goes_on [OF frame]
    by simp_all
  have conf: "confirms s u1" "confirms u2 u3" "confirms u3 u4" "confirms u4 u5" "confirms u5 u6" "confirms u6 t"
    using staysD [OF confirms_parts(1) head] staysD [OF confirms_parts(3) hb] staysD [OF confirms_parts(4) logs]
      staysD [OF confirms_parts(5) ctl] staysD [OF confirms_parts(6) win] staysD [OF confirms_turn_frame frame]
    by simp_all
  have u2: "now = e_now (w_env u1) (w_hist u1)" "w_env u2 = w_env u1" "w_hist u2 = w_hist u1 @ [Ev_Now now]"
    using now by (auto simp: world_runs)
  have "\<not> of_nat (sw_limit w) \<le> saturating_sub now (sl_started l3)"
    using win by (auto simp: turn_window_def andthen_Inr ok_def fail_def split: if_splits)
  then have "saturating_sub now (sl_started l) < of_nat (sw_limit w)" using started by simp
  moreover obtain xs where xs: "w_env u1 = w_env s" "w_hist u1 = w_hist s @ xs" using conf(1) by (auto simp: confirms_def)
  moreover obtain zs where "w_hist u6 = w_hist u2 @ zs" "w_env u6 = w_env u2"
    using conf(2-5) unfolding confirms_def by force
  moreover obtain r ys where "w_hist t = w_hist u6 @ Ev_Received r # ys" using turn_frame_goes_on [OF frame] by blast
  ultimately show ?thesis
    using started u2 conf(6)
    by (intro conjI exI [of _ xs] exI [of _ "[Ev_Now now] @ zs @ Ev_Received r # ys"]) (simp_all add: confirms_def)
qed

subsection \<open>The loop comes to its limit\<close>

lemma turns_until_limit:
  assumes "downloads_end E" and take: "receptions_take_time E k" and limit: "unat (e_now E h0) + sw_limit w < 2 ^ 64"
    and "w_env s = E" "w_hist s = h0 @ evs" "sl_started l = e_now E h0"
  shows "iterate (session_turn (Some w) has_control) l s \<noteq> None"
proof (rule iterate_returns [where l = l and s = s
      and I = "\<lambda>l s. w_env s = E \<and> (\<exists>evs. w_hist s = h0 @ evs) \<and> sl_started l = e_now E h0"
      and \<mu> = "\<lambda>l s. sw_limit w * k - receptions (drop (length h0) (w_hist s))"])
  show "w_env s = E \<and> (\<exists>evs. w_hist s = h0 @ evs) \<and> sl_started l = e_now E h0"
    using assms by blast
next
  fix l :: session_locals and s :: "'a agent_world_scheme"
  assume "w_env s = E \<and> (\<exists>evs. w_hist s = h0 @ evs) \<and> sl_started l = e_now E h0"
  then have "w_env s = E" by simp
  then obtain r t where "session_turn (Some w) has_control l s = Some (r, t)"
    using runsE [OF stays_in_turn [OF assms(1), unfolded stays_in_def]] by blast
  then show "session_turn (Some w) has_control l s \<noteq> None" by simp
next
  fix l l' :: session_locals and s t :: "'a agent_world_scheme"
  assume I: "w_env s = E \<and> (\<exists>evs. w_hist s = h0 @ evs) \<and> sl_started l = e_now E h0"
    and turn: "session_turn (Some w) has_control l s = Some (Inr (Inl l'), t)"
  then obtain evs where evs: "w_hist s = h0 @ evs" by blast
  from turn_goes_on [OF turn] I obtain xs ys where t: "w_env t = E" "sl_started l' = e_now E h0"
    "w_hist t = h0 @ evs @ xs @ ys" "0 < receptions ys"
    and early: "saturating_sub (e_now E (h0 @ evs @ xs)) (e_now E h0) < of_nat (sw_limit w)"
    using evs by auto
  have "unat (of_nat (sw_limit w) :: u64) = sw_limit w"
    using limit by (simp add: unat_of_nat)
  then have "unat (e_now E (h0 @ evs @ xs)) < unat (e_now E h0) + sw_limit w"
    using early by (simp add: word_less_nat_alt)
  then have "receptions (evs @ xs) < sw_limit w * k"
    using clock_after_receptions [OF _ take limit, of h0 "evs @ xs"] assms(1)
    by (force simp: downloads_end_def not_le [symmetric])
  then show "(w_env t = E \<and> (\<exists>evs. w_hist t = h0 @ evs) \<and> sl_started l' = e_now E h0) \<and>
      sw_limit w * k - receptions (drop (length h0) (w_hist t)) < sw_limit w * k - receptions (drop (length h0) (w_hist s))"
    using t evs by simp
qed

lemma returns_session_start: "returns session_start"
proof -
  have "returns session_begin"
    unfolding session_begin_def read_boot_report_def
    by (auto intro!: returns_rules returns_world returns_calls returns_senders)
  then show ?thesis unfolding session_start_def by (intro returns_rules returns_calls)
qed

lemma session_starts_at:
  assumes "session_start s = Some (Inr l, u)"
  shows "w_env u = w_env s \<and> (\<exists>h evs. w_hist u = h @ evs \<and> sl_started l = e_now (w_env s) h)"
proof -
  have env: "w_env u = w_env s" using staysD [OF emits_session_start assms] by (simp add: emits_def)
  from assms obtain v where "now_ms v = Some (Inr (sl_started l), u)"
    by (auto simp: session_start_def andthen_Inr [of session_begin] andthen_Inr [of now_ms] andthen_gets ok_def)
  then have "w_hist u = w_hist v @ [Ev_Now (sl_started l)] \<and> sl_started l = e_now (w_env s) (w_hist v)"
    using env by (auto simp: world_runs)
  then show ?thesis using env by blast
qed

lemma session_within_returns:
  assumes "downloads_end (w_env s)" and "receptions_take_time (w_env s) k"
    and "\<And>l u. session_start s = Some (Inr l, u) \<Longrightarrow> unat (sl_started l) + sw_limit w < 2 ^ 64"
  shows "session_within (Some w) has_control s \<noteq> None"
  unfolding session_within_def
proof (rule andthen_returns)
  show "session_start s \<noteq> None" by (rule returnsD [OF returns_session_start])
next
  fix l u assume start: "session_start s = Some (Inr l, u)"
  from session_starts_at [OF start] obtain h evs where
    "w_env u = w_env s" "w_hist u = h @ evs" "sl_started l = e_now (w_env s) h" by blast
  with assms(3) [OF start] show "iterate (session_turn (Some w) has_control) l u \<noteq> None"
    using turns_until_limit [OF assms(1,2)] by metis
qed

subsection \<open>Properties\<close>

text \<open>A session as it is once connected.\<close>

definition once_connected :: "'s agent_world_scheme \<Rightarrow> 's agent_world_scheme" where
  "once_connected s = s\<lparr>w_hist := w_hist s @ [Ev_Connect (Inr ())], ag_joined := False\<rparr>"

text \<open>
  C9: \<open>run_session\<close> ends, whatever NervesHub sends and whatever the transport and the
  application answer, when the clock runs, at most \<open>k\<close> receptions return within one tick of
  it, a read keeps to its buffer, each update the application accepts has a size, in the payload or
  in the server's answer, and the session does not start within its limit of the end of the
  clock's range.
\<close>

theorem windowed_session_ends:
  assumes "downloads_end (w_env s)" and "receptions_take_time (w_env s) k"
    and "\<And>l u. session_start (once_connected s) = Some (Inr l, u) \<Longrightarrow> unat (sl_started l) + sw_limit w < 2 ^ 64"
  shows "\<exists>r t. run_session w s = Some (r, t)"
proof (cases "e_connect (w_env s) (w_hist s)")
  case (Inl e)
  then show ?thesis by (simp add: run_session_def one_session_def andthen_run world_runs)
next
  case (Inr a)
  have "session_within (Some w) False (once_connected s) \<noteq> None"
    using assms by (intro session_within_returns [where k = k]) (simp_all add: once_connected_def)
  then obtain r t where "session_within (Some w) False (once_connected s) = Some (r, t)" by auto
  then show ?thesis
    using Inr by (simp add: run_session_def one_session_def andthen_run world_runs modify_def gets_def once_connected_def
        ok_def fail_def split: sum.split option.split)
qed

text \<open>NervesHub never silent, and every update without a size of its own accepted.\<close>

definition busy_env :: env where
  "busy_env = demo_env\<lparr>e_recv := \<lambda>_. Inr (Some (Text ''[]'')), e_open := \<lambda>_ _. Inr (Some 3),
     e_decide := \<lambda>_ u. if up_size u = None then Apply else Ignore ''large''\<rparr>"

lemma busy_clock: "clock_runs busy_env" "receptions_take_time busy_env 1"
proof -
  have now: "e_now busy_env = e_now demo_env" by (simp add: busy_env_def)
  show "clock_runs busy_env" using demo_clock by (simp add: clock_runs_def now)
  have "e_now busy_env h < e_now busy_env (h @ evs) \<or> e_now busy_env h = - 1" if "receptions evs = 1" for h evs
  proof -
    from that obtain e rest where evs: "evs = e # rest" by (cases evs) auto
    have "e_now demo_env h < e_now demo_env (h @ [Ev_Slept 1]) \<or> e_now demo_env h = - 1"
      using demo_clock by (simp add: clock_runs_def)
    moreover have "e_now demo_env (h @ [Ev_Slept 1]) = e_now demo_env (h @ [e])" by (simp add: demo_env_def)
    moreover have "e_now demo_env (h @ [e]) \<le> e_now demo_env ((h @ [e]) @ rest)"
      using demo_clock unfolding clock_runs_def by blast
    ultimately show ?thesis using now evs by auto
  qed
  then show "receptions_take_time busy_env 1" by (simp add: receptions_take_time_def)
qed

theorem windowed_session_ends_witness:
  "\<exists>r t. run_session \<lparr>sw_linger = 5000, sw_limit = 60000\<rparr> (demo_agent\<lparr>w_env := busy_env\<rparr>) = Some (r, t)"
proof (rule windowed_session_ends [where k = 1])
  have "reads_fit busy_env" by (simp add: busy_env_def demo_env_def reads_fit_def)
  moreover have "e_decide busy_env h u = Apply \<longrightarrow> sized busy_env u" for h u
    by (simp add: busy_env_def sized_def expected_size_def CHUNK_SIZE_def)
  ultimately show "downloads_end (w_env (demo_agent\<lparr>w_env := busy_env\<rparr>))"
    using busy_clock by (simp add: downloads_end_def)
  show "receptions_take_time (w_env (demo_agent\<lparr>w_env := busy_env\<rparr>)) 1"
    using busy_clock by simp
next
  fix l u assume "session_start (once_connected (demo_agent\<lparr>w_env := busy_env\<rparr>)) = Some (Inr l, u)"
  then show "unat (sl_started l) + sw_limit \<lparr>sw_linger = 5000, sw_limit = 60000\<rparr> < 2 ^ 64"
    by (auto simp: once_connected_def busy_env_def session_start_def session_begin_def demo_agent_def demo_env_def
      read_boot_report_def world_calls world_steps andthen_gets andthen_modify send_join_def fresh_ref_def
      link_set_def link_get_def link_send_def link_write_def andthen_run prog_simps demo_codec_def encode_as_def
      encode_frame_def encode_def next_ref_def Let_def link_new_def demo_config_def config_new_def
      fallible_call_run call_run demo_text_valid)
qed

end
