(* ===== verification/Spec2Isabelle.thy ===== *)
theory Spec2Isabelle
  imports Session SharedSecret TlsSafety TlsStop Mailbox Whenwhere Device Boot
    Spoken Window
begin

text \<open>
  A verification library for the NervesHub device agent for the ESP32: the Rust crate under
  \<open>src/\<close> that keeps a device connected to NervesHub over a Phoenix channel, installs
  firmware updates into the inactive slot, and carries the console, logs, health and location.

  \<^bold>\<open>The program.\<close> \<open>agent.rs\<close> runs sessions. A session owns a \<open>Link\<close>
  (\<open>link.rs\<close>), the channel state machine, which turns frames into actions for the agent and
  requests into frames; the agent performs the actions, among them downloading an update
  (\<open>install.rs\<close>) from an HTTP stream into an image sink, for which \<open>ota.rs\<close> is
  ESP-IDF's and \<open>http.rs\<close> the stream. Frames come through a transport,
  \<open>transport.rs\<close> over \<open>tls.rs\<close>, whose reassembly is \<open>inbound.rs\<close>. The
  application, the transport and the platform reach the agent only through traits; \<open>esp.rs\<close>
  is the platform of a real device.

  \<^bold>\<open>How it is modelled.\<close> A pure function is a function. A method that changes state and
  may fail is a \<open>prog\<close> (theory Prog): from a state to \<open>None\<close> when it does not
  return, or to an error or a value with the state it leaves; \<open>?\<close>, \<open>match\<close> on a
  result and \<open>loop\<close> are its combinators. What the traits' implementations answer is
  \<open>env\<close> (theory World), a record of functions of the whole history of calls, each of which
  is recorded with its answer; a theorem about every \<open>env\<close> is one about every transport,
  platform, server and application. Integers that wrap are words, durations are milliseconds, and
  text is a list of UTF-8 bytes (theory Utf8).

  \<^bold>\<open>The theories.\<close>
  \<^item> Prelude, Utf8, Json, Errors, Prog: widths, strings, \<open>serde_json::Value\<close>,
    \<open>error.rs\<close>, programs and the locale of relations that every run stays in.
  \<^item> Message, Update, Extensions, SharedSecret, TlsSession, Config, Metadata: the files of those
    names, with \<open>identity.rs\<close> in Config and \<open>checksum.rs\<close> in Metadata. The codecs,
    HMAC and PBKDF2, the hash and ESP-IDF's reads of the running image are parameters.
  \<^item> Logging: the log buffer, as its operations by any threads in any order.
  \<^item> Console, Device: \<open>console.rs\<close>, the second its commands about the device.
  \<^item> Inbound: reassembly, its bound, and which closes count.
  \<^item> Net: esp-tls, mbedTLS, lwIP and the websocket client as a parameter; what it answers is
    \<open>net\<close>, functions of the calls before, in the way of \<open>env\<close>.
  \<^item> Tls, TlsSafety, TlsStop: \<open>tls.rs\<close>, what its callbacks keep of handles and sessions, and
    the stopper as the interleaving of two threads' steps.
  \<^item> Transport, Mailbox: \<open>transport.rs\<close>; the first has the connection, the second the
    channel between the client's task and the run loop, with the mailbox it refines step by step.
  \<^item> Http, Whenwhere: \<open>http.rs\<close> and \<open>whenwhere.rs\<close>, on esp-idf-svc's connection.
  \<^item> F64, Health: binary64 as bit patterns with IEEE 754's rounding and its infinities and
    NaN, and \<open>health.rs\<close>.
  \<^item> World, Link: the environment, and \<open>link.rs\<close>.
  \<^item> Install: \<open>install.rs\<close>, generic in the three traits; the locale \<open>install_io\<close>
    has what they promise and the calls an installation then makes, \<open>slot_sink\<close> what a sink
    has to keep for a failed one to change nothing.
  \<^item> Ota: \<open>ota.rs\<close>, on ESP-IDF's functions as a parameter; its sink interprets
    \<open>slot_sink\<close>.
  \<^item> Platform: \<open>esp.rs\<close>, the parts' operations on one state, and an installation with the
    real stream and the real writer, end to end.
  \<^item> Agent, Session: \<open>agent.rs\<close>; the first interprets \<open>install_io\<close> on the agent's
    own traits. A turn of the session loop is the sequence of its steps, \<open>turn_confirm\<close> to
    \<open>turn_frame\<close>.
  \<^item> Protocol, Spoken: what each channel allows to be sent, given what was sent and received
    before; and that the session keeps to it, an induction along the calls of the link, the agent and
    the session.
  \<^item> Window: that a session with a window returns.
  \<^item> Boot: building an agent, the entry points of \<open>esp.rs\<close>, and \<open>logging::install\<close>.

  \<^bold>\<open>What is shown.\<close> The properties stand at the end of the theory of the component they
  are about, numbered C1 and on in the order of importance: what is confirmed, installed and booted
  and when (Session, Platform, Ota, Link, Install), what a session says and when (Spoken), that
  downloads, waits and sessions with a window end (Agent, Window), that what
  is made is given back (Transport, TlsSafety, Http), that the channel between two threads is a
  bounded first-in, first-out mailbox that loses nothing short of an overrun (Mailbox), that the log
  buffer's books balance (Logging), what is bounded (Logging, Console, Update, Health), what reads
  back (SharedSecret, TlsSession, Inbound), what is accepted (Config, Extensions), and that the
  hand-written replacements of library routines equal them (Extensions, Metadata).

  \<^bold>\<open>Termination.\<close> Loops are \<open>iterate\<close>, whose value is \<open>None\<close> when they
  run for ever, as a session with no window and the outer loop may; there is no fuel. What must
  end is proved to: a download, given a size to expect, reads that keep to their buffer and a clock
  that runs; a session with a window, when moreover receptions take time on that clock;
  a connect, given a clock that counts what is slept; the reading of a reply, which is bounded.
  What holds of a session holds at the head of every turn, of one that never ends too.

  \<^bold>\<open>Not modelled.\<close> What has no logic of the library's: the constant fields of the configurations given to ESP-IDF's HTTP and websocket
  clients, \<open>build.rs\<close> and the examples. Stack and heap use, the mutexes themselves (an
  operation that holds one for its whole body is one step), threads other than as interleavings of
  such steps, and time other than as a clock's answers are outside the model. \<open>Instant\<close>
  arithmetic does not overflow in it.
\<close>

end
